(* ===== verification/Go_Base.thy ===== *)
theory Go_Base
  imports Main "HOL-Library.Word"
begin

text \<open>
  The prelude of the development: the shape of a Go function's result, the functions of
  Go's \<^verbatim>\<open>strings\<close> package that the repository uses, and the generic facts on lists
  and maps that every component shares.

  \<^item> A Go \<^verbatim>\<open>string\<close> is a sequence of bytes: it is modelled by \<^typ>\<open>string\<close> (a list of
    8-bit characters), so that \<^verbatim>\<open>len\<close>, slicing and comparison agree with Go's.
  \<^item> A function returning \<^verbatim>\<open>(T, error)\<close> returns a \<open>result\<close>; a run-time panic (index
    out of range, nil dereference) is the third outcome, never a junk value.
  \<^item> A method with a pointer receiver takes the receiver's state and returns the outcome
    together with the new state; \<open>bind_op\<close> runs two of them in sequence and stops at
    the first error or panic, as the code's \<^verbatim>\<open>if err != nil\<close> returns do.
\<close>

section \<open>Rule collections\<close>

named_theorems go_string \<open>facts on the string functions\<close>
named_theorems go_op \<open>unfolding of state-passing operations\<close>

section \<open>Results and operations\<close>

datatype 'a result = Ret 'a | Fail string | Panic

type_synonym ('s, 'a) op = "'s \<Rightarrow> 'a result \<times> 's"

definition ret_op :: "'a \<Rightarrow> ('s, 'a) op" where
  "ret_op a s = (Ret a, s)"

definition fail_op :: "string \<Rightarrow> ('s, 'a) op" where
  "fail_op e s = (Fail e, s)"

definition panic_op :: "('s, 'a) op" where
  "panic_op s = (Panic, s)"

definition bind_op :: "('s, 'a) op \<Rightarrow> ('a \<Rightarrow> ('s, 'b) op) \<Rightarrow> ('s, 'b) op" where
  "bind_op m f s = (case m s of
       (Ret a, s') \<Rightarrow> f a s'
     | (Fail e, s') \<Rightarrow> (Fail e, s')
     | (Panic, s') \<Rightarrow> (Panic, s'))"

definition then_op :: "('s, 'a) op \<Rightarrow> ('s, 'b) op \<Rightarrow> ('s, 'b) op" where
  "then_op m k = bind_op m (\<lambda>_. k)"

definition lift_op :: "'a result \<Rightarrow> ('s, 'a) op" where
  "lift_op r s = (r, s)"

definition get_op :: "('s \<Rightarrow> 'a) \<Rightarrow> ('s, 'a) op" where
  "get_op f s = (Ret (f s), s)"

definition modify_op :: "('s \<Rightarrow> 's) \<Rightarrow> ('s, unit) op" where
  "modify_op f s = (Ret (), f s)"

lemmas op_defs = ret_op_def fail_op_def panic_op_def lift_op_def get_op_def modify_op_def

declare op_defs [go_op]

lemma bind_op_Ret [simp]: "m s = (Ret a, s') \<Longrightarrow> bind_op m f s = f a s'"
  by (simp add: bind_op_def)

lemma bind_op_Fail [simp]: "m s = (Fail e, s') \<Longrightarrow> bind_op m f s = (Fail e, s')"
  by (simp add: bind_op_def)

lemma bind_op_Panic [simp]: "m s = (Panic, s') \<Longrightarrow> bind_op m f s = (Panic, s')"
  by (simp add: bind_op_def)

lemma then_op_Ret [simp]: "m s = (Ret a, s') \<Longrightarrow> then_op m k s = k s'"
  by (simp add: then_op_def)

lemma then_op_Fail [simp]: "m s = (Fail e, s') \<Longrightarrow> then_op m k s = (Fail e, s')"
  by (simp add: then_op_def)

lemma then_op_Panic [simp]: "m s = (Panic, s') \<Longrightarrow> then_op m k s = (Panic, s')"
  by (simp add: then_op_def)

text \<open>A sequence returns exactly when both parts do: the rule the inversions use.\<close>

lemma bind_op_RetD:
  "bind_op m f s = (Ret b, s'') \<Longrightarrow> \<exists>a s'. m s = (Ret a, s') \<and> f a s' = (Ret b, s'')"
  by (auto simp: bind_op_def split: prod.splits result.splits)

lemma then_op_RetD:
  "then_op m k s = (Ret b, s'') \<Longrightarrow> \<exists>a s'. m s = (Ret a, s') \<and> k s' = (Ret b, s'')"
  by (auto simp: then_op_def dest: bind_op_RetD)

section \<open>Iterating over a map\<close>

text \<open>
  \<^verbatim>\<open>range\<close> over a Go map visits every key once, in an order the runtime chooses anew each
  time. An operation that ranges over a map takes that order as an argument, a list of
  keys; \<open>map_order\<close> says which lists are such orders.
\<close>

definition map_order :: "('k \<rightharpoonup> 'v) \<Rightarrow> 'k list \<Rightarrow> bool" where
  "map_order m ks \<longleftrightarrow> distinct ks \<and> set ks = dom m"

lemma map_order_empty [simp]: "map_order Map.empty ks \<longleftrightarrow> ks = []"
  by (auto simp: map_order_def)

lemma map_order_mem: "map_order m ks \<Longrightarrow> k \<in> set ks \<longleftrightarrow> m k \<noteq> None"
  by (auto simp: map_order_def)

lemma find_map_orderD:
  "List.find P ks = Some k \<Longrightarrow> map_order m ks \<Longrightarrow> m k \<noteq> None \<and> P k"
  by (auto simp: find_Some_iff map_order_def)

lemma find_map_order_None:
  "map_order m ks \<Longrightarrow> List.find P ks = None \<longleftrightarrow> (\<forall>k\<in>dom m. \<not> P k)"
  by (auto simp: find_None_iff map_order_def)
end
