(* ===== verification/Go_Strings.thy ===== *)
theory Go_Strings
  imports Go_Base
begin

text \<open>
  Go's \<^verbatim>\<open>strings\<close> and \<^verbatim>\<open>bytes\<close> functions as the repository calls them:
  \<^verbatim>\<open>Split\<close>, \<^verbatim>\<open>SplitN(s, sep, 2)\<close>, \<^verbatim>\<open>Contains\<close> and \<^verbatim>\<open>Trim\<close> with a one-byte argument,
  \<^verbatim>\<open>TrimSpace\<close>, \<^verbatim>\<open>HasPrefix\<close>, \<^verbatim>\<open>TrimPrefix\<close>, \<^verbatim>\<open>TrimSuffix\<close>.
\<close>

definition newline :: char where "newline = CHR 0x0A"

section \<open>Splitting\<close>

fun split_on :: "char \<Rightarrow> string \<Rightarrow> string list" where
  "split_on c [] = [[]]"
| "split_on c (x # xs) =
     (if x = c then [] # split_on c xs
      else (x # hd (split_on c xs)) # tl (split_on c xs))"

fun split_n2 :: "char \<Rightarrow> string \<Rightarrow> string list" where
  "split_n2 c [] = [[]]"
| "split_n2 c (x # xs) =
     (if x = c then [[], xs]
      else (x # hd (split_n2 c xs)) # tl (split_n2 c xs))"

lemma split_on_nonempty [simp]: "split_on c s \<noteq> []"
  by (induction s) auto

lemma split_on_no_sep [go_string]: "c \<notin> set s \<Longrightarrow> split_on c s = [s]"
  by (induction s) auto

lemma split_on_append_sep [go_string]:
  "c \<notin> set a \<Longrightarrow> split_on c (a @ c # b) = a # split_on c b"
  by (induction a) auto

lemma split_on_hd: "hd (split_on c s) = takeWhile (\<lambda>x. x \<noteq> c) s"
  by (induction s) auto

lemma split_on_pieces: "p \<in> set (split_on c s) \<Longrightarrow> c \<notin> set p"
proof (induction s arbitrary: p)
  case (Cons x s)
  then show ?case
    by (cases "split_on c s") (auto split: if_splits)
qed simp

lemma split_n2_no_sep [go_string]: "c \<notin> set s \<Longrightarrow> split_n2 c s = [s]"
  by (induction s) auto

lemma split_n2_append_sep [go_string]:
  "c \<notin> set a \<Longrightarrow> split_n2 c (a @ c # b) = [a, b]"
  by (induction a) auto

lemma split_n2_length: "length (split_n2 c s) = (if c \<in> set s then 2 else 1)"
  by (induction s) auto

section \<open>Prefixes, suffixes, membership\<close>

fun has_prefix :: "string \<Rightarrow> string \<Rightarrow> bool" where
  "has_prefix s [] = True"
| "has_prefix [] (p # ps) = False"
| "has_prefix (x # xs) (p # ps) = (x = p \<and> has_prefix xs ps)"

definition has_suffix :: "string \<Rightarrow> string \<Rightarrow> bool" where
  "has_suffix s suf = has_prefix (rev s) (rev suf)"

definition trim_prefix :: "string \<Rightarrow> string \<Rightarrow> string" where
  "trim_prefix s p = (if has_prefix s p then drop (length p) s else s)"

definition trim_suffix :: "string \<Rightarrow> string \<Rightarrow> string" where
  "trim_suffix s suf = (if has_suffix s suf then take (length s - length suf) s else s)"

definition contains_char :: "string \<Rightarrow> char \<Rightarrow> bool" where
  "contains_char s c = List.member s c"

definition trim_char :: "string \<Rightarrow> char \<Rightarrow> string" where
  "trim_char s c = rev (dropWhile (\<lambda>x. x = c) (rev (dropWhile (\<lambda>x. x = c) s)))"

lemma has_prefix_append [simp]: "has_prefix (p @ s) p"
  by (induction p) auto

lemma has_prefix_iff: "has_prefix s p \<longleftrightarrow> (\<exists>r. s = p @ r)"
  by (induction s p rule: has_prefix.induct) auto

lemma has_suffix_iff: "has_suffix s suf \<longleftrightarrow> (\<exists>r. s = r @ suf)"
  unfolding has_suffix_def has_prefix_iff by (metis rev_append rev_rev_ident)

lemma trim_prefix_append [go_string]: "trim_prefix (p @ s) p = s"
  by (simp add: trim_prefix_def)

lemma trim_suffix_append [go_string]: "trim_suffix (s @ suf) suf = s"
  by (auto simp: trim_suffix_def has_suffix_iff)

lemma trim_suffix_char_absent [go_string]: "c \<notin> set s \<Longrightarrow> trim_suffix s [c] = s"
  by (auto simp: trim_suffix_def has_suffix_iff)

lemma contains_char_iff [go_string]: "contains_char s c \<longleftrightarrow> c \<in> set s"
  by (simp add: contains_char_def)

lemma trim_char_cons_absent [go_string]: "c \<notin> set s \<Longrightarrow> trim_char (c # s) c = s"
proof -
  assume "c \<notin> set s"
  then have "dropWhile (\<lambda>x. x = c) t = t" if "set t \<subseteq> set s" for t
    using that by (cases t) auto
  then show ?thesis by (simp add: trim_char_def)
qed

text \<open>\<^verbatim>\<open>strings.Replace(s, old, new, 1)\<close> for a nonempty \<open>old\<close>\<close>

fun replace_first :: "string \<Rightarrow> string \<Rightarrow> string \<Rightarrow> string" where
  "replace_first old new [] = []"
| "replace_first old new (x # xs) =
     (if has_prefix (x # xs) old then new @ drop (length old) (x # xs)
      else x # replace_first old new xs)"

text \<open>\<^verbatim>\<open>%d\<close> of a number that is not negative\<close>

fun dec_str :: "nat \<Rightarrow> string" where
  "dec_str n = (if n < 10 then [''0123456789'' ! n]
     else dec_str (n div 10) @ [''0123456789'' ! (n mod 10)])"

declare dec_str.simps [simp del]

section \<open>TrimSpace\<close>

text \<open>
  \<^verbatim>\<open>TrimSpace\<close> removes leading and trailing Unicode white space. On bytes: the UTF-8
  encodings of the white-space code points, stripped from either end as long as one
  stands there.
\<close>

definition space_encodings :: "string list" where
  "space_encodings =
     [[CHR 0x09], [CHR 0x0A], [CHR 0x0B], [CHR 0x0C], [CHR 0x0D], [CHR 0x20],
      [CHR 0xC2, CHR 0x85], [CHR 0xC2, CHR 0xA0], [CHR 0xE1, CHR 0x9A, CHR 0x80]]
     @ map (\<lambda>k. [CHR 0xE2, CHR 0x80, k])
         [CHR 0x80, CHR 0x81, CHR 0x82, CHR 0x83, CHR 0x84, CHR 0x85, CHR 0x86, CHR 0x87,
          CHR 0x88, CHR 0x89, CHR 0x8A, CHR 0xA8, CHR 0xA9, CHR 0xAF]
     @ [[CHR 0xE2, CHR 0x81, CHR 0x9F], [CHR 0xE3, CHR 0x80, CHR 0x80]]"

definition leading_space :: "string list \<Rightarrow> string \<Rightarrow> string option" where
  "leading_space encs s = List.find (has_prefix s) encs"

function strip :: "string list \<Rightarrow> string \<Rightarrow> string" where
  "strip encs s = (case leading_space encs s of
       None \<Rightarrow> s
     | Some w \<Rightarrow> if w = [] \<or> length s < length w then s else strip encs (drop (length w) s))"
  by pat_completeness auto
termination
  by (relation "measure (\<lambda>(encs, s). length s)") (auto simp: Suc_le_eq intro!: diff_less)

declare strip.simps [simp del]

definition trim_space :: "string \<Rightarrow> string" where
  "trim_space s =
     rev (strip (map rev space_encodings) (rev (strip space_encodings s)))"

text \<open>
  The strings the code trims begin and end with an ordinary character: one that is not
  the first (last) byte of any encoded white space.
\<close>

definition plain_first :: "string \<Rightarrow> bool" where
  "plain_first s = (case s of [] \<Rightarrow> True | x # _ \<Rightarrow> x \<notin> hd ` set space_encodings)"

definition plain_last :: "string \<Rightarrow> bool" where
  "plain_last s = (case rev s of [] \<Rightarrow> True | x # _ \<Rightarrow> x \<notin> last ` set space_encodings)"

lemma space_encodings_nonempty: "[] \<notin> set space_encodings"
  by (auto simp: space_encodings_def)

lemma strip_no_match: "leading_space encs s = None \<Longrightarrow> strip encs s = s"
  by (simp add: strip.simps)

lemma leading_space_plain:
  assumes "[] \<notin> set encs"
    and "s = [] \<or> hd s \<notin> hd ` set encs"
  shows "leading_space encs s = None"
proof -
  have "\<not> has_prefix s w" if "w \<in> set encs" for w
    using assms that by (cases s; cases w) force+
  then show ?thesis
    by (auto simp: leading_space_def find_None_iff)
qed

lemma strip_front: "plain_first s \<Longrightarrow> strip space_encodings s = s"
  by (rule strip_no_match, rule leading_space_plain)
    (auto simp: plain_first_def space_encodings_nonempty split: list.splits)

lemma strip_back: "plain_last s \<Longrightarrow> strip (map rev space_encodings) (rev s) = rev s"
proof (rule strip_no_match, rule leading_space_plain)
  show "[] \<notin> set (map rev space_encodings)" by (auto simp: space_encodings_nonempty)
next
  assume p: "plain_last s"
  have "hd ` set (map rev space_encodings) = last ` set space_encodings"
    by (force simp: hd_rev image_iff)
  with p show "rev s = [] \<or> hd (rev s) \<notin> hd ` set (map rev space_encodings)"
    by (auto simp: plain_last_def split: list.splits)
qed

lemma trim_space_plain [go_string]: "plain_first s \<Longrightarrow> plain_last s \<Longrightarrow> trim_space s = s"
  by (simp add: trim_space_def strip_front strip_back)

lemma strip_newline: "strip (map rev space_encodings) (CHR 0x0A # s) = strip (map rev space_encodings) s"
proof -
  have "leading_space (map rev space_encodings) (CHR 0x0A # s) = Some [CHR 0x0A]"
    by (simp add: leading_space_def space_encodings_def)
  then show ?thesis by (subst strip.simps) simp
qed

lemma trim_space_newline [go_string]:
  assumes "plain_first s" "plain_last s" "s \<noteq> []"
  shows "trim_space (s @ [CHR 0x0A]) = s"
proof -
  have "plain_first (s @ [CHR 0x0A])"
    using assms by (cases s) (auto simp: plain_first_def)
  with assms show ?thesis
    by (simp add: trim_space_def strip_front strip_newline strip_back)
qed

section \<open>Splitting a stream that arrives in pieces\<close>

lemma split_on_append:
  "split_on c (a @ b) = butlast (split_on c a) @ split_on c (last (split_on c a) @ b)"
proof (induction a)
  case (Cons x a)
  obtain y ys where a: "split_on c a = y # ys" by (cases "split_on c a") auto
  obtain z zs where z: "split_on c (last (y # ys) @ b) = z # zs"
    by (cases "split_on c (last (y # ys) @ b)") auto
  from Cons a z show ?case by (cases ys) (auto simp: append_eq_Cons_conv Cons_eq_append_conv)
qed simp

lemma split_on_last_no_sep: "c \<notin> set (last (split_on c s))"
  by (rule split_on_pieces [of _ c s]) simp

lemma split_on_suffix: "\<exists>p. s = p @ last (split_on c s)"
proof (cases "c \<in> set s")
  case True
  then obtain a b where s: "s = a @ c # b" "c \<notin> set b" by (auto dest: split_list_last)
  have "split_on c s = butlast (split_on c a) @ last (split_on c a) # [b]"
    using split_on_append [of c a "c # b"] split_on_append_sep [OF split_on_last_no_sep, of c a b] s
    by (simp add: split_on_no_sep)
  then have "last (split_on c s) = b" by simp
  with s show ?thesis by (metis append.assoc append_Cons append_Nil)
qed (simp add: split_on_no_sep)

lemma split_on_line [go_string]: "c \<notin> set s \<Longrightarrow> split_on c (s @ [c]) = [s, []]"
  using split_on_append_sep [of c s "[]"] by simp

end
