(* ===== verification/Interfaces.thy ===== *)
theory Interfaces
  imports Go_Strings
begin

text \<open>
  The contracts between the central server's parts. The Go code states them as interface
  types (\<^verbatim>\<open>clientapi.Store\<close>, \<^verbatim>\<open>serviceapi.Store\<close>); here each is a locale: the operations
  the client calls, the abstract value they act on, and the laws a provider promises. The
  lemmas of a locale are what every client may rely on; the in-memory stores interpret
  the locales in their own theories.
\<close>

section \<open>The directory of registered users\<close>

text \<open>
  \<open>dir\<close> is the map from IP to username that the operations denote; the lists are the
  orders in which the provider happens to visit it.
\<close>

locale user_directory =
  fixes create :: "string list \<Rightarrow> string \<Rightarrow> string \<Rightarrow> ('s, unit) op"
    and read :: "string \<Rightarrow> 's \<Rightarrow> string result"
    and read_by_name :: "string list \<Rightarrow> string \<Rightarrow> 's \<Rightarrow> string result"
    and delete :: "string \<Rightarrow> ('s, unit) op"
    and dir :: "'s \<Rightarrow> string \<rightharpoonup> string"
    and inv :: "'s \<Rightarrow> bool"
  assumes create_free: "inv s \<Longrightarrow> map_order (dir s) ks \<Longrightarrow> u \<notin> ran (dir s) \<Longrightarrow>
      \<exists>s'. create ks ip u s = (Ret (), s') \<and> dir s' = (dir s)(ip \<mapsto> u) \<and> inv s'"
    and create_taken: "inv s \<Longrightarrow> map_order (dir s) ks \<Longrightarrow> u \<in> ran (dir s) \<Longrightarrow>
      \<exists>e. create ks ip u s = (Fail e, s)"
    and read_dir: "inv s \<Longrightarrow> read ip s = Ret u \<longleftrightarrow> dir s ip = Some u"
    and read_not_panic: "inv s \<Longrightarrow> read ip s \<noteq> Panic"
    and read_by_name_dir: "inv s \<Longrightarrow> map_order (dir s) ks \<Longrightarrow>
      read_by_name ks u s = Ret ip \<longleftrightarrow> dir s ip = Some u"
    and read_by_name_not_panic: "inv s \<Longrightarrow> read_by_name ks u s \<noteq> Panic"
    and delete_present: "inv s \<Longrightarrow> ip \<in> dom (dir s) \<Longrightarrow>
      \<exists>s'. delete ip s = (Ret (), s') \<and> dir s' = (dir s)(ip := None) \<and> inv s'"
    and delete_absent: "inv s \<Longrightarrow> ip \<notin> dom (dir s) \<Longrightarrow> \<exists>e. delete ip s = (Fail e, s)"
begin

lemma one_ip_per_name:
  assumes "inv s" "map_order (dir s) ks" "dir s ip = Some u" "dir s ip' = Some u"
  shows "ip = ip'"
  using read_by_name_dir [OF assms(1,2)] assms(3,4) by (metis result.inject(1))

lemma create_inv:
  assumes "inv s" "map_order (dir s) ks" "create ks ip u s = (r, s')"
  shows "inv s'"
  using assms create_free [OF assms(1,2), of u ip] create_taken [OF assms(1,2), of u ip]
  by (cases "u \<in> ran (dir s)") auto

lemma create_Ret:
  assumes "inv s" "map_order (dir s) ks" "create ks ip u s = (Ret (), s')"
  shows "u \<notin> ran (dir s)" and "dir s' = (dir s)(ip \<mapsto> u)" and "inv s'"
  using assms create_free [OF assms(1,2), of u ip] create_taken [OF assms(1,2), of u ip]
  by (cases "u \<in> ran (dir s)"; auto)+

lemma registered_resolves:
  assumes "inv s" "map_order (dir s) ks" "create ks ip u s = (Ret (), s')"
    and "map_order (dir s') ks'"
  shows "read ip s' = Ret u" and "read_by_name ks' u s' = Ret ip"
  using create_Ret [OF assms(1-3)] read_dir [of s' ip u] read_by_name_dir [OF _ assms(4)]
  by simp_all

lemma name_refused_while_held:
  assumes "inv s" "map_order (dir s) ks" "dir s ip = Some u"
  shows "\<exists>e. create ks ip' u s = (Fail e, s)"
  using create_taken [OF assms(1,2)] assms(3) by (auto simp: ran_def)

lemma deleted_is_free:
  assumes "inv s" "map_order (dir s) ks" "dir s ip = Some u" "delete ip s = (Ret (), s')"
    and "map_order (dir s') ks'"
  shows "\<exists>s''. create ks' ip' u s' = (Ret (), s'')"
proof -
  from delete_present [OF assms(1), of ip] assms(3,4)
  have s': "dir s' = (dir s)(ip := None)" "inv s'" by auto
  have "u \<notin> ran (dir s')"
    using one_ip_per_name [OF assms(1,2,3)] by (auto simp: s'(1) ran_def split: if_splits)
  then show ?thesis using create_free [OF s'(2) assms(5)] by blast
qed

end

section \<open>The list of chat rooms\<close>

text \<open>
  \<open>view\<close> is the list of rooms, \<open>room\<close> builds an entry, \<open>members\<close> are its users. A
  removal takes out the first room that has the user.
\<close>

fun remove_first :: "('a \<Rightarrow> bool) \<Rightarrow> 'a list \<Rightarrow> 'a list" where
  "remove_first P [] = []"
| "remove_first P (x # xs) = (if P x then xs else x # remove_first P xs)"

lemma remove_first_absent: "\<not> list_ex P xs \<Longrightarrow> remove_first P xs = xs"
  by (induction xs) auto

lemma set_remove_first: "set (remove_first P xs) \<subseteq> set xs"
  by (induction xs) auto

lemma remove_firstD: "x \<in> set (remove_first P xs) \<Longrightarrow> x \<in> set xs"
  using set_remove_first by (rule subsetD)

lemma length_remove_first: "list_ex P xs \<Longrightarrow> Suc (length (remove_first P xs)) = length xs"
  by (induction xs) auto

lemma remove_first_append:
  "remove_first P (xs @ ys) = (if list_ex P xs then remove_first P xs @ ys else xs @ remove_first P ys)"
  by (induction xs) auto

locale room_registry =
  fixes insert_room :: "nat \<Rightarrow> string \<Rightarrow> string \<Rightarrow> string list \<Rightarrow> ('s, string) op"
    and remove_user :: "string \<Rightarrow> ('s, string) op"
    and room :: "string \<Rightarrow> string \<Rightarrow> string list \<Rightarrow> 'r"
    and members :: "'r \<Rightarrow> string list"
    and view :: "'s \<Rightarrow> 'r list"
    and inv :: "'s \<Rightarrow> bool"
  assumes insert_view: "inv s \<Longrightarrow>
      \<exists>s'. insert_room e rid srv us s = (Ret rid, s') \<and> inv s' \<and> view s' = view s @ [room rid srv us]"
    and remove_view: "inv s \<Longrightarrow>
      \<exists>r s'. remove_user u s = (r, s') \<and> r \<noteq> Panic \<and> inv s' \<and>
        view s' = remove_first (\<lambda>c. u \<in> set (members c)) (view s)"
    and members_room: "members (room rid srv us) = us"
begin

text \<open>The three calls by which the central server moves the room of two users.\<close>

lemma relocate_view:
  assumes "inv s"
    and "remove_user u1 s = (r1, s1)" "remove_user u2 s1 = (r2, s2)"
    and "insert_room e rid srv us s2 = (r3, s3)"
  shows "inv s3"
    and "view s3 = remove_first (\<lambda>c. u2 \<in> set (members c))
           (remove_first (\<lambda>c. u1 \<in> set (members c)) (view s)) @ [room rid srv us]"
proof -
  from remove_view [OF assms(1), of u1] assms(2)
  have s1: "inv s1" "view s1 = remove_first (\<lambda>c. u1 \<in> set (members c)) (view s)" by auto
  from remove_view [OF s1(1), of u2] assms(3)
  have s2: "inv s2" "view s2 = remove_first (\<lambda>c. u2 \<in> set (members c)) (view s1)" by auto
  from insert_view [OF s2(1), of e rid srv us] assms(4) s1 s2
  show "inv s3" and "view s3 = remove_first (\<lambda>c. u2 \<in> set (members c))
           (remove_first (\<lambda>c. u1 \<in> set (members c)) (view s)) @ [room rid srv us]"
    by auto
qed

lemma relocate_length:
  assumes "inv s" "remove_user u1 s = (r1, s1)" "remove_user u2 s1 = (r2, s2)"
    and "insert_room e rid srv us s2 = (r3, s3)"
    and "list_ex (\<lambda>c. u1 \<in> set (members c)) (view s)"
  shows "length (view s3) \<le> length (view s)"
proof -
  let ?m = "remove_first (\<lambda>c. u1 \<in> set (members c)) (view s)"
  have "length (remove_first (\<lambda>c. u2 \<in> set (members c)) ?m) \<le> length ?m"
    by (cases "list_ex (\<lambda>c. u2 \<in> set (members c)) ?m")
      (auto simp: remove_first_absent dest: length_remove_first)
  then show ?thesis
    using relocate_view(2) [OF assms(1-4)] length_remove_first [OF assms(5)] by simp
qed

end

section \<open>The registry of live services\<close>

text \<open>
  A provider that records when each service was last heard of. \<open>age\<close> is the time since
  then; a service is listed while its age is at most \<open>window\<close>.
\<close>

locale liveness_registry =
  fixes beat :: "int \<Rightarrow> string \<Rightarrow> 's \<Rightarrow> 's"
    and listed :: "int \<Rightarrow> 's \<Rightarrow> string set"
    and last_beat :: "'s \<Rightarrow> string \<rightharpoonup> int"
    and window :: int
  assumes beat_last: "last_beat (beat t ip s) = (last_beat s)(ip \<mapsto> t)"
    and listed_iff: "ip \<in> listed now s \<longleftrightarrow> (\<exists>t. last_beat s ip = Some t \<and> now - t \<le> window)"
begin

lemma listed_after_beat: "now \<le> t + window \<Longrightarrow> ip \<in> listed now (beat t ip s)"
  by (simp add: listed_iff beat_last)

lemma not_listed_after_window:
  "last_beat s ip = Some t \<Longrightarrow> t + window < now \<Longrightarrow> ip \<notin> listed now s"
  by (simp add: listed_iff)

lemma beat_other: "ip' \<noteq> ip \<Longrightarrow> ip' \<in> listed now (beat t ip s) \<longleftrightarrow> ip' \<in> listed now s"
  by (simp add: listed_iff beat_last)

lemma listed_mono: "ip \<in> listed now s \<Longrightarrow> now' \<le> now \<Longrightarrow> ip \<in> listed now' s"
  by (auto simp: listed_iff)

end
end
