(* ===== verification/Go_Slice.thy ===== *)
theory Go_Slice
  imports Go_Base
begin

text \<open>
  Go slices with their backing arrays. A slice is a header (array, offset, length,
  capacity); \<^verbatim>\<open>s[:i]\<close> and \<^verbatim>\<open>s[i:]\<close> share the array, and \<^verbatim>\<open>append\<close> writes into
  it as long as the capacity suffices. Two headers of one array see each other's writes,
  which the client store's room list relies on (and suffers from), so the arrays are
  kept in an explicit store.

  \<open>slice_elems\<close> is the abstraction: the list a header denotes. The locale
  \<open>slice_sequence\<close> states what a sequence of this kind promises to a client that works
  through one header only, and the slices are its interpretation.
\<close>

record 'a arrays =
  arr :: "nat \<Rightarrow> 'a list"
  next_arr :: nat

record slice =
  sl_arr :: nat
  sl_off :: nat
  sl_len :: nat
  sl_cap :: nat

definition no_arrays :: "'a arrays" where
  "no_arrays = \<lparr>arr = (\<lambda>_. []), next_arr = 0\<rparr>"

text \<open>\<open>[]T{}\<close>: an empty literal, an array of its own with no room.\<close>

definition empty_slice :: "'a arrays \<Rightarrow> slice \<times> 'a arrays" where
  "empty_slice h =
     (\<lparr>sl_arr = next_arr h, sl_off = 0, sl_len = 0, sl_cap = 0\<rparr>,
      h\<lparr>arr := (arr h)(next_arr h := []), next_arr := Suc (next_arr h)\<rparr>)"

definition slice_elems :: "'a arrays \<Rightarrow> slice \<Rightarrow> 'a list" where
  "slice_elems h s = take (sl_len s) (drop (sl_off s) (arr h (sl_arr s)))"

definition slice_get :: "'a arrays \<Rightarrow> slice \<Rightarrow> nat \<Rightarrow> 'a result" where
  "slice_get h s i =
     (if i < sl_len s then Ret (arr h (sl_arr s) ! (sl_off s + i)) else Panic)"

text \<open>
  \<^verbatim>\<open>s[:i]\<close> is bounded by the capacity, \<^verbatim>\<open>s[i:]\<close> by the length: beyond it Go panics.
\<close>

definition slice_to :: "slice \<Rightarrow> nat \<Rightarrow> slice result" where
  "slice_to s i = (if i \<le> sl_cap s then Ret (s\<lparr>sl_len := i\<rparr>) else Panic)"

definition slice_from :: "slice \<Rightarrow> nat \<Rightarrow> slice result" where
  "slice_from s i =
     (if i \<le> sl_len s
      then Ret (s\<lparr>sl_off := sl_off s + i, sl_len := sl_len s - i, sl_cap := sl_cap s - i\<rparr>)
      else Panic)"

definition overwrite :: "'a list \<Rightarrow> nat \<Rightarrow> 'a list \<Rightarrow> 'a list" where
  "overwrite xs i ys = take i xs @ ys @ drop (i + length ys) xs"

text \<open>
  \<^verbatim>\<open>append(s, xs...)\<close>. Within the capacity the values are copied into the shared array
  (after they are read, as \<^verbatim>\<open>memmove\<close> does); otherwise a fresh array is allocated, whose
  spare room \<open>extra\<close> the runtime chooses. Its unused cells hold the zero value \<open>z\<close>.
\<close>

definition slice_append ::
    "'a \<Rightarrow> nat \<Rightarrow> 'a arrays \<Rightarrow> slice \<Rightarrow> 'a list \<Rightarrow> slice \<times> 'a arrays" where
  "slice_append z extra h s xs =
     (let n = sl_len s + length xs in
      if n \<le> sl_cap s
      then (s\<lparr>sl_len := n\<rparr>,
            h\<lparr>arr := (arr h)(sl_arr s :=
                overwrite (arr h (sl_arr s)) (sl_off s + sl_len s) xs)\<rparr>)
      else (\<lparr>sl_arr = next_arr h, sl_off = 0, sl_len = n, sl_cap = n + extra\<rparr>,
            \<lparr>arr = (arr h)(next_arr h := slice_elems h s @ xs @ replicate extra z),
             next_arr = Suc (next_arr h)\<rparr>))"

text \<open>
  The idiom \<^verbatim>\<open>append(s[:i], s[i+1:]...)\<close> that deletes index \<open>i\<close> in place.
\<close>

definition slice_delete ::
    "'a \<Rightarrow> nat \<Rightarrow> 'a arrays \<Rightarrow> slice \<Rightarrow> nat \<Rightarrow> (slice \<times> 'a arrays) result" where
  "slice_delete z extra h s i = (case slice_to s i of
       Ret front \<Rightarrow> (case slice_from s (Suc i) of
           Ret back \<Rightarrow> Ret (slice_append z extra h front (slice_elems h back))
         | Fail e \<Rightarrow> Fail e | Panic \<Rightarrow> Panic)
     | Fail e \<Rightarrow> Fail e | Panic \<Rightarrow> Panic)"

section \<open>Well-formed slices and frame facts\<close>

text \<open>The header lies within its array, and the array has been allocated.\<close>

definition slice_wf :: "'a arrays \<Rightarrow> slice \<Rightarrow> bool" where
  "slice_wf h s \<longleftrightarrow> sl_arr s < next_arr h \<and> sl_len s \<le> sl_cap s \<and>
     sl_off s + sl_cap s \<le> length (arr h (sl_arr s))"

lemma slice_wf_length: "slice_wf h s \<Longrightarrow> length (slice_elems h s) = sl_len s"
  by (auto simp: slice_wf_def slice_elems_def)

lemma slice_get_elems:
  "slice_wf h s \<Longrightarrow> i < sl_len s \<Longrightarrow> slice_get h s i = Ret (slice_elems h s ! i)"
  by (simp add: slice_wf_def slice_get_def slice_elems_def)

lemma empty_slice_elems:
  "empty_slice h = (s, h') \<Longrightarrow> slice_elems h' s = [] \<and> slice_wf h' s"
  by (auto simp: empty_slice_def slice_elems_def slice_wf_def)

lemma length_overwrite: "i + length ys \<le> length xs \<Longrightarrow> length (overwrite xs i ys) = length xs"
  by (simp add: overwrite_def)

lemma drop_overwrite:
  "k + i \<le> length a \<Longrightarrow> drop k (overwrite a (k + i) ys) = overwrite (drop k a) i ys"
  by (simp add: overwrite_def drop_take add.commute add.left_commute)

lemma take_overwrite:
  "i + length ys \<le> length a \<Longrightarrow> take (i + length ys) (overwrite a i ys) = take i a @ ys"
  by (simp add: overwrite_def)

lemma window_overwrite:
  assumes "k + i + length ys \<le> length a" and "n = i + length ys"
  shows "take n (drop k (overwrite a (k + i) ys)) = take i (drop k a) @ ys"
  using assms by (simp add: drop_overwrite take_overwrite)

lemma slice_append_elems:
  assumes "slice_wf h s" "slice_append z e h s xs = (s', h')"
  shows "slice_elems h' s' = slice_elems h s @ xs"
proof (cases "sl_len s + length xs \<le> sl_cap s")
  case True
  with assms show ?thesis
    by (auto simp: slice_append_def slice_wf_def slice_elems_def Let_def window_overwrite)
next
  case False
  with assms show ?thesis
    using slice_wf_length [OF assms(1)] by (auto simp: slice_append_def slice_elems_def Let_def)
qed

lemma slice_append_wf:
  assumes "slice_wf h s" "slice_append z e h s xs = (s', h')"
  shows "slice_wf h' s'"
  using assms
  by (auto simp: slice_append_def slice_wf_def slice_elems_def length_overwrite Let_def
      split: if_splits)

text \<open>
  Deleting within the bounds never reallocates: the header shrinks by one, the array
  keeps its length, and everything from \<open>i\<close> on moves down by one cell. The last cell
  keeps its old value, which an older header of the array still sees.
\<close>

lemma slice_delete_eq:
  assumes "slice_wf h s" "i < sl_len s"
  shows "slice_delete z e h s i =
    Ret (s\<lparr>sl_len := sl_len s - 1\<rparr>,
         h\<lparr>arr := (arr h)(sl_arr s :=
            overwrite (arr h (sl_arr s)) (sl_off s + i) (drop (Suc i) (slice_elems h s)))\<rparr>)"
proof -
  have tail: "slice_elems h (s\<lparr>sl_off := Suc (sl_off s + i), sl_len := sl_len s - Suc i,
      sl_cap := sl_cap s - Suc i\<rparr>) = drop (Suc i) (slice_elems h s)"
    by (simp add: slice_elems_def drop_take add.commute)
  have len: "length (slice_elems h s) = sl_len s"
    using assms(1) by (rule slice_wf_length)
  show ?thesis
    using assms unfolding slice_delete_def slice_to_def slice_from_def slice_append_def
    by (auto simp: tail len slice_wf_def Let_def)
qed

lemma slice_delete_elems:
  assumes "slice_wf h s" "i < sl_len s" "slice_delete z e h s i = Ret (s', h')"
  shows "slice_elems h' s' = take i (slice_elems h s) @ drop (Suc i) (slice_elems h s)"
proof -
  let ?a = "arr h (sl_arr s)" and ?d = "drop (Suc i) (slice_elems h s)"
  have len: "length ?d = sl_len s - Suc i"
    using slice_wf_length [OF assms(1)] by simp
  have "slice_elems h' s' =
      take (sl_len s - 1) (drop (sl_off s) (overwrite ?a (sl_off s + i) ?d))"
    using assms(3) unfolding slice_delete_eq [OF assms(1,2)]
    by (auto simp: slice_elems_def)
  also have "\<dots> = take i (drop (sl_off s) ?a) @ ?d"
    using assms(1,2) len by (intro window_overwrite) (auto simp: slice_wf_def)
  also have "take i (drop (sl_off s) ?a) = take i (slice_elems h s)"
    using assms(2) by (simp add: slice_elems_def min_def)
  finally show ?thesis .
qed

lemma slice_delete_wf:
  assumes "slice_wf h s" "i < sl_len s" "slice_delete z e h s i = Ret (s', h')"
  shows "slice_wf h' s'" and "sl_len s' = sl_len s - 1" and "sl_arr s' = sl_arr s"
  using assms(3) unfolding slice_delete_eq [OF assms(1,2)] using assms(1,2)
  by (auto simp: slice_wf_def slice_elems_def length_overwrite)

lemma slice_delete_Panic:
  "i \<le> sl_cap s \<Longrightarrow> sl_len s \<le> i \<Longrightarrow> slice_delete z e h s i = Panic"
  by (simp add: slice_delete_def slice_to_def slice_from_def)


section \<open>What an older header of the same array sees\<close>

lemma nth_overwrite:
  "p + length ys \<le> length a \<Longrightarrow> k < length a \<Longrightarrow>
    overwrite a p ys ! k = (if k < p then a ! k else if k < p + length ys then ys ! (k - p) else a ! k)"
  by (auto simp: overwrite_def nth_append min_def)

text \<open>
  After a deletion at \<open>i\<close> the old header reads the elements shifted down, and its last
  cell reads the last element a second time.
\<close>

lemma slice_delete_stale:
  assumes wf: "slice_wf h s" and i: "i < sl_len s" and d: "slice_delete z e h s i = Ret (s', h')"
    and j: "j < sl_len s"
  shows "slice_get h' s j = Ret (slice_elems h s ! (if j < i then j else min (Suc j) (sl_len s - 1)))"
proof -
  let ?a = "arr h (sl_arr s)" and ?d = "drop (Suc i) (slice_elems h s)"
  have len: "length ?d = sl_len s - Suc i" using slice_wf_length [OF wf] by simp
  have elems: "slice_elems h s ! k = ?a ! (sl_off s + k)" if "k < sl_len s" for k
    using wf that by (simp add: slice_elems_def slice_wf_def)
  have fit: "sl_off s + i + length ?d \<le> length ?a" "sl_off s + j < length ?a"
    using wf i j len by (auto simp: slice_wf_def)
  have "slice_get h' s j = Ret (overwrite ?a (sl_off s + i) ?d ! (sl_off s + j))"
    using d j unfolding slice_delete_eq [OF wf i] by (auto simp: slice_get_def)
  also have "overwrite ?a (sl_off s + i) ?d ! (sl_off s + j) =
      slice_elems h s ! (if j < i then j else min (Suc j) (sl_len s - 1))"
  proof (cases "j < i")
    case True
    with i elems [of j] show ?thesis unfolding nth_overwrite [OF fit] by simp
  next
    case False
    show ?thesis
    proof (cases "Suc j < sl_len s")
      case True
      then have "sl_off s + j < sl_off s + i + length ?d" "Suc i + (j - i) = Suc j"
        using False len by auto
      with False True show ?thesis
        unfolding nth_overwrite [OF fit] by (simp add: slice_wf_length [OF wf])
    next
      case last: False
      then have e: "sl_len s - 1 = j" and "\<not> sl_off s + j < sl_off s + i + length ?d"
        using j len i False by auto
      with False j elems [of j] show ?thesis
        unfolding nth_overwrite [OF fit] e by (simp add: min_def)
    qed
  qed
  finally show ?thesis .
qed

end
