(* ===== verification/Go_Float.thy ===== *)
theory Go_Float
  imports Go_Base "HOL-Library.Product_Lexorder"
begin

text \<open>
  The floating-point values of the delay lists. Every finite \<^verbatim>\<open>float32\<close> is an integer
  multiple of the least subnormal \<open>2^-149\<close>, so a finite value is the integer number of
  those units: comparison and the conversion to \<^verbatim>\<open>float64\<close> are exact, and the one
  operation that rounds, \<^verbatim>\<open>float32\<close> addition, rounds the exact integer sum to 24
  significant bits, ties to even, and overflows to an infinity from \<open>2^128\<close> on. The
  only \<^verbatim>\<open>float64\<close> values the code builds are converted \<^verbatim>\<open>float32\<close> values, their maxima
  and \<^verbatim>\<open>math.MaxFloat64\<close>, all integers in this unit. Negative zero is not distinguished
  from zero: \<^verbatim>\<open><\<close>, \<^verbatim>\<open>==\<close> and addition do not distinguish them either.
\<close>

datatype flt = Fin int | PInf | NInf | NaN

section \<open>Comparison and maximum\<close>

fun f_lt :: "flt \<Rightarrow> flt \<Rightarrow> bool" where
  "f_lt (Fin a) (Fin b) = (a < b)"
| "f_lt (Fin a) PInf = True"
| "f_lt NInf (Fin b) = True"
| "f_lt NInf PInf = True"
| "f_lt _ _ = False"

fun f_eq :: "flt \<Rightarrow> flt \<Rightarrow> bool" where
  "f_eq (Fin a) (Fin b) = (a = b)"
| "f_eq PInf PInf = True"
| "f_eq NInf NInf = True"
| "f_eq _ _ = False"

text \<open>\<^verbatim>\<open>math.Max\<close>: an infinity above wins even over NaN, then NaN wins.\<close>

definition f_max :: "flt \<Rightarrow> flt \<Rightarrow> flt" where
  "f_max x y =
     (if x = PInf \<or> y = PInf then PInf
      else if x = NaN \<or> y = NaN then NaN
      else if f_lt y x then x else y)"

text \<open>
  Away from NaN the comparisons are those of a linear order: \<open>f_rank\<close> places the values
  in the lexicographic order of pairs.
\<close>

fun f_rank :: "flt \<Rightarrow> int \<times> int" where
  "f_rank NInf = (-1, 0)"
| "f_rank (Fin a) = (0, a)"
| "f_rank PInf = (1, 0)"
| "f_rank NaN = (2, 0)"

lemma f_lt_rank: "x \<noteq> NaN \<Longrightarrow> y \<noteq> NaN \<Longrightarrow> f_lt x y \<longleftrightarrow> f_rank x < f_rank y"
  by (cases x; cases y) auto

lemma f_eq_rank: "x \<noteq> NaN \<Longrightarrow> y \<noteq> NaN \<Longrightarrow> f_eq x y \<longleftrightarrow> f_rank x = f_rank y"
  by (cases x; cases y) auto

lemma f_rank_inj: "f_rank x = f_rank y \<longleftrightarrow> x = y"
  by (cases x; cases y) auto

lemma f_max_Fin [simp]: "f_max (Fin a) (Fin b) = Fin (max a b)"
  by (auto simp: f_max_def)

section \<open>Rounding to float32\<close>

fun bitlen :: "nat \<Rightarrow> nat" where
  "bitlen n = (if n = 0 then 0 else Suc (bitlen (n div 2)))"

declare bitlen.simps [simp del]

definition round_even :: "nat \<Rightarrow> nat \<Rightarrow> nat" where
  "round_even n e =
     (let q = n div 2 ^ e; r = n mod 2 ^ e in
      if 2 * r > 2 ^ e \<or> (2 * r = 2 ^ e \<and> odd q) then Suc q else q)"

definition f32_round :: "int \<Rightarrow> flt" where
  "f32_round n =
     (let a = nat \<bar>n\<bar>; e = bitlen a - 24; v = round_even a e * 2 ^ e in
      if v \<ge> 2 ^ 277 then (if n < 0 then NInf else PInf)
      else Fin (if n < 0 then - int v else int v))"

fun f32_add :: "flt \<Rightarrow> flt \<Rightarrow> flt" where
  "f32_add (Fin a) (Fin b) = f32_round (a + b)"
| "f32_add NaN _ = NaN"
| "f32_add _ NaN = NaN"
| "f32_add PInf NInf = NaN"
| "f32_add NInf PInf = NaN"
| "f32_add PInf _ = PInf"
| "f32_add _ PInf = PInf"
| "f32_add NInf _ = NInf"
| "f32_add _ NInf = NInf"

definition max_f32 :: int where
  "max_f32 = (2 ^ 24 - 1) * 2 ^ 253"

definition max_f64 :: int where
  "max_f64 = (2 ^ 53 - 1) * 2 ^ 1120"

definition f32_finite :: "flt \<Rightarrow> bool" where
  "f32_finite x = (case x of Fin n \<Rightarrow> \<bar>n\<bar> \<le> max_f32 \<and> f32_round n = x | _ \<Rightarrow> False)"

lemma f32_finiteE:
  assumes "f32_finite x"
  obtains n where "x = Fin n" and "\<bar>n\<bar> \<le> max_f32"
  using assms by (cases x) (auto simp: f32_finite_def)

lemma max_f32_less_max_f64: "max_f32 < max_f64"
  by (simp add: max_f32_def max_f64_def)

lemma f32_round_not_NaN [simp]: "f32_round n \<noteq> NaN"
  by (simp add: f32_round_def Let_def)

lemma f32_add_finite_not_NaN:
  "f32_finite x \<Longrightarrow> f32_finite y \<Longrightarrow> f32_add x y \<noteq> NaN"
  by (auto elim!: f32_finiteE)

text \<open>Within 24 bits the sum is exact.\<close>

lemma bitlen_le: "n < 2 ^ k \<Longrightarrow> bitlen n \<le> k"
proof (induction k arbitrary: n)
  case 0
  then show ?case by (simp add: bitlen.simps)
next
  case (Suc k)
  then have "bitlen (n div 2) \<le> k" by simp
  then show ?case by (subst bitlen.simps) simp
qed

lemma bitlen_eq: "2 ^ k \<le> n \<Longrightarrow> n < 2 ^ Suc k \<Longrightarrow> bitlen n = Suc k"
proof (induction k arbitrary: n)
  case 0
  then have "n = 1" by simp
  then show ?case by (simp add: bitlen.simps)
next
  case (Suc k)
  then have "bitlen (n div 2) = Suc k" by simp
  with Suc.prems show ?case by (subst bitlen.simps) simp
qed

lemma round_even_exact: "round_even n 0 = n"
  by (simp add: round_even_def)

lemma f32_round_exact: "\<bar>n\<bar> < 2 ^ 24 \<Longrightarrow> f32_round n = Fin n"
proof -
  assume "\<bar>n\<bar> < 2 ^ 24"
  then have n: "nat \<bar>n\<bar> < 2 ^ 24" by (simp add: nat_less_iff)
  then have e: "bitlen (nat \<bar>n\<bar>) - 24 = 0" using bitlen_le by fastforce
  have "\<not> 2 ^ 277 \<le> nat \<bar>n\<bar>" using n by simp
  then show ?thesis
    unfolding f32_round_def Let_def e by (simp add: round_even_exact)
qed

lemma f32_round_max: "f32_round max_f32 = Fin max_f32"
proof -
  have m: "nat \<bar>max_f32\<bar> = (2 ^ 24 - 1) * 2 ^ 253"
    by (simp add: max_f32_def)
  have b: "bitlen ((2 ^ 24 - 1) * 2 ^ 253) = Suc 276"
    by (rule bitlen_eq) simp_all
  have "round_even ((2 ^ 24 - 1) * 2 ^ 253) 253 = 2 ^ 24 - 1"
    unfolding round_even_def by simp
  then show ?thesis
    unfolding f32_round_def m Let_def b by (simp add: max_f32_def)
qed

lemma f32_finite_max: "f32_finite (Fin max_f32)"
  by (simp add: f32_finite_def f32_round_max) (simp add: max_f32_def)

lemma f32_finite_small: "\<bar>n\<bar> < 2 ^ 24 \<Longrightarrow> f32_finite (Fin n)"
  by (simp add: f32_finite_def f32_round_exact max_f32_def)

lemma f32_add_overflow: "f32_add (Fin max_f32) (Fin max_f32) = PInf"
proof -
  have m: "nat \<bar>max_f32 + max_f32\<bar> = (2 ^ 24 - 1) * 2 ^ 254" and p: "\<not> max_f32 + max_f32 < 0"
    by (simp_all add: max_f32_def)
  have b: "bitlen ((2 ^ 24 - 1) * 2 ^ 254) = Suc 277"
    by (rule bitlen_eq) simp_all
  have "round_even ((2 ^ 24 - 1) * 2 ^ 254) 254 = 2 ^ 24 - 1"
    unfolding round_even_def by simp
  then show ?thesis
    unfolding f32_add.simps f32_round_def m Let_def b using p by simp
qed

end
