(* ===== verification/Client_Store.thy ===== *)
theory Client_Store
  imports Interfaces Go_Slice Go_Float
begin

text \<open>
  The central server's client store, \<^verbatim>\<open>Central/internal/client/store.go\<close>: the registered
  clients (IP to username), the delay list each client last reported, and the chat rooms.

  A method is given as what its body does when no other call changes the store meanwhile, an
  operation \<open>client_store \<Rightarrow> result \<times> client_store\<close>. Every method holds the store's lock for its whole
  body; for the registrations and the delay lists that makes it atomic. The methods that
  change the rooms hold the read lock only: \<open>Lock_Discipline\<close> shows which calls can race,
  \<open>Room_Races\<close> and \<open>Room_Removals\<close> what then happens. A method that ranges over a map
  takes the iteration order as its first argument. The room list is a Go slice: its
  backing array is part of the store, because \<^verbatim>\<open>GetAllChatInstances\<close> hands out a header
  that shares it and the removals move the rooms inside it.
\<close>

section \<open>State\<close>

record chat_instance =
  chat_server :: string
  users :: "string list"
  room_id :: string
  active :: bool

record client_store =
  data :: "string \<rightharpoonup> string"
  delay_lists :: "string \<rightharpoonup> (string \<rightharpoonup> flt)"
  chat_instances :: slice
  store_arrays :: "chat_instance arrays"

definition zero_instance :: chat_instance where
  "zero_instance = \<lparr>chat_server = '''', users = [], room_id = '''', active = False\<rparr>"

definition new_client_store :: client_store where
  "new_client_store =
     (case empty_slice no_arrays of (sl, h) \<Rightarrow>
        \<lparr>data = Map.empty, delay_lists = Map.empty, chat_instances = sl, store_arrays = h\<rparr>)"

text \<open>The rooms the store lists, as a list: the abstraction of slice and array.\<close>

definition rooms :: "client_store \<Rightarrow> chat_instance list" where
  "rooms s = slice_elems (store_arrays s) (chat_instances s)"

section \<open>Clients\<close>

definition cs_Create :: "string list \<Rightarrow> string \<Rightarrow> string \<Rightarrow> (client_store, unit) op" where
  "cs_Create ks ip username s =
     (case List.find (\<lambda>k. data s k = Some username) ks of
        Some existing \<Rightarrow> (Fail (''the username '' @ username @
             '' is already associated with IP '' @ existing), s)
      | None \<Rightarrow> (Ret (), s\<lparr>data := (data s)(ip \<mapsto> username)\<rparr>))"

definition cs_Read :: "string \<Rightarrow> client_store \<Rightarrow> string result" where
  "cs_Read ip s = (case data s ip of
       None \<Rightarrow> Fail (''IP '' @ ip @ '' not found'')
     | Some username \<Rightarrow> Ret username)"

definition cs_ReadByUsername :: "string list \<Rightarrow> string \<Rightarrow> client_store \<Rightarrow> string result" where
  "cs_ReadByUsername ks username s =
     (case List.find (\<lambda>k. data s k = Some username) ks of
        Some ip \<Rightarrow> Ret ip
      | None \<Rightarrow> Fail (''Username '' @ username @ '' not found''))"

definition cs_Delete :: "string \<Rightarrow> (client_store, unit) op" where
  "cs_Delete ip s =
     (if data s ip = None then (Fail (''IP '' @ ip @ '' not found''), s)
      else (Ret (), s\<lparr>data := (data s)(ip := None)\<rparr>))"

section \<open>Delay lists\<close>

definition cs_UpdateDelayList ::
    "string \<Rightarrow> (string \<rightharpoonup> flt) \<Rightarrow> (client_store, unit) op" where
  "cs_UpdateDelayList username delays s =
     (Ret (), s\<lparr>delay_lists := (delay_lists s)(username \<mapsto> delays)\<rparr>)"

definition cs_GetDelayList :: "string \<Rightarrow> client_store \<Rightarrow> (string \<rightharpoonup> flt) result" where
  "cs_GetDelayList username s = (case delay_lists s username of
       None \<Rightarrow> Fail (''delays for username '' @ username @ '' not found'')
     | Some delays \<Rightarrow> Ret delays)"

section \<open>Rooms\<close>

text \<open>\<open>extra\<close> is the spare room of the array that \<^verbatim>\<open>append\<close> allocates when it must.\<close>

definition cs_InsertChatInstance ::
    "nat \<Rightarrow> string \<Rightarrow> string \<Rightarrow> string list \<Rightarrow> (client_store, string) op" where
  "cs_InsertChatInstance extra roomId chatServer us s =
     (case slice_append zero_instance extra (store_arrays s) (chat_instances s)
             [\<lparr>chat_server = chatServer, users = us, room_id = roomId, active = True\<rparr>] of
        (sl, h) \<Rightarrow> (Ret roomId, s\<lparr>chat_instances := sl, store_arrays := h\<rparr>))"

text \<open>The in-place deletion of index \<open>i\<close> that the three removal methods share.\<close>

definition delete_at :: "nat \<Rightarrow> (client_store, unit) op" where
  "delete_at i s = (case slice_delete zero_instance 0 (store_arrays s) (chat_instances s) i of
       Ret (sl, h) \<Rightarrow> (Ret (), s\<lparr>chat_instances := sl, store_arrays := h\<rparr>)
     | Fail e \<Rightarrow> (Fail e, s)
     | Panic \<Rightarrow> (Panic, s))"

text \<open>
  The loops range over the header \<open>hdr\<close> that the slice had when the loop began, over the
  indices \<open>is\<close> that remain; the element is read from the shared array at each step.
\<close>

fun remove_room_loop :: "string \<Rightarrow> slice \<Rightarrow> nat list \<Rightarrow> (client_store, string) op" where
  "remove_room_loop roomId hdr [] s =
     (Fail (''chat instance with roomId '' @ roomId @ '' not found''), s)"
| "remove_room_loop roomId hdr (i # is) s = (case slice_get (store_arrays s) hdr i of
       Ret inst \<Rightarrow>
         if room_id inst = roomId then then_op (delete_at i) (ret_op roomId) s
         else remove_room_loop roomId hdr is s
     | Fail e \<Rightarrow> (Fail e, s)
     | Panic \<Rightarrow> (Panic, s))"

definition cs_RemoveChatInstance :: "string \<Rightarrow> (client_store, string) op" where
  "cs_RemoveChatInstance roomId s =
     remove_room_loop roomId (chat_instances s) [0..<sl_len (chat_instances s)] s"

fun remove_server_loop ::
    "string \<Rightarrow> slice \<Rightarrow> nat list \<Rightarrow> string list \<Rightarrow> (client_store, string list) op" where
  "remove_server_loop server hdr [] removed s = (Ret removed, s)"
| "remove_server_loop server hdr (i # is) removed s =
     (case slice_get (store_arrays s) hdr i of
       Ret inst \<Rightarrow>
         if chat_server inst = server
         then then_op (delete_at i)
                (remove_server_loop server hdr is (removed @ [room_id inst])) s
         else remove_server_loop server hdr is removed s
     | Fail e \<Rightarrow> (Fail e, s)
     | Panic \<Rightarrow> (Panic, s))"

definition cs_RemoveChatInstancesForServer :: "string \<Rightarrow> (client_store, string list) op" where
  "cs_RemoveChatInstancesForServer server s =
     remove_server_loop server (chat_instances s) [0..<sl_len (chat_instances s)] [] s"

text \<open>The last element is cut off by \<^verbatim>\<open>s[:i]\<close> instead.\<close>

definition truncate_at :: "nat \<Rightarrow> (client_store, unit) op" where
  "truncate_at i s = (case slice_to (chat_instances s) i of
       Ret sl \<Rightarrow> (Ret (), s\<lparr>chat_instances := sl\<rparr>)
     | Fail e \<Rightarrow> (Fail e, s)
     | Panic \<Rightarrow> (Panic, s))"

fun remove_user_loop :: "string \<Rightarrow> slice \<Rightarrow> nat list \<Rightarrow> (client_store, string) op" where
  "remove_user_loop user hdr [] s =
     (Fail (''chat instance with user '' @ user @ '' not found''), s)"
| "remove_user_loop user hdr (i # is) s = (case slice_get (store_arrays s) hdr i of
       Ret inst \<Rightarrow>
         if List.member (users inst) user
         then (if Suc i = sl_len (chat_instances s)
               then then_op (truncate_at i) (ret_op (room_id inst)) s
               else then_op (delete_at i) (ret_op (room_id inst)) s)
         else remove_user_loop user hdr is s
     | Fail e \<Rightarrow> (Fail e, s)
     | Panic \<Rightarrow> (Panic, s))"

definition cs_RemoveChatInstancesForUser :: "string \<Rightarrow> (client_store, string) op" where
  "cs_RemoveChatInstancesForUser user s =
     remove_user_loop user (chat_instances s) [0..<sl_len (chat_instances s)] s"

text \<open>The header itself is returned: the caller shares the array with the store.\<close>

definition cs_GetAllChatInstances :: "client_store \<Rightarrow> slice result" where
  "cs_GetAllChatInstances s = Ret (chat_instances s)"

section \<open>The store's invariant\<close>

text \<open>
  No two IPs carry one username, and the room list's header lies within its array.
\<close>

definition store_inv :: "client_store \<Rightarrow> bool" where
  "store_inv s \<longleftrightarrow> inj_on (data s) (dom (data s)) \<and>
     slice_wf (store_arrays s) (chat_instances s)"

lemma new_client_store_simps [simp]:
  "data new_client_store = Map.empty"
  "delay_lists new_client_store = Map.empty"
  "chat_instances new_client_store = \<lparr>sl_arr = 0, sl_off = 0, sl_len = 0, sl_cap = 0\<rparr>"
  "next_arr (store_arrays new_client_store) = 1"
  by (simp_all add: new_client_store_def empty_slice_def no_arrays_def)

lemma rooms_new: "rooms new_client_store = []"
  by (simp add: rooms_def slice_elems_def)

lemma slice_wf_new: "slice_wf (store_arrays new_client_store) (chat_instances new_client_store)"
  unfolding slice_wf_def by simp

lemma store_inv_new: "store_inv new_client_store"
  unfolding store_inv_def by (rule conjI) (simp, rule slice_wf_new)

lemma rooms_other_fields [simp]:
  "rooms (s\<lparr>data := d\<rparr>) = rooms s"
  "rooms (s\<lparr>delay_lists := l\<rparr>) = rooms s"
  "store_inv (s\<lparr>delay_lists := l\<rparr>) = store_inv s"
  by (simp_all add: rooms_def store_inv_def)

lemma find_user_Some:
  assumes "map_order (data s) ks" "List.find (\<lambda>k. data s k = Some u) ks = Some ip"
  shows "data s ip = Some u"
  using find_map_orderD [OF assms(2,1)] by simp

lemma find_user_None:
  "map_order (data s) ks \<Longrightarrow>
    List.find (\<lambda>k. data s k = Some u) ks = None \<longleftrightarrow> u \<notin> ran (data s)"
  by (auto simp: find_map_order_None ran_def)

lemma find_user_unique:
  assumes "store_inv s" "map_order (data s) ks" "data s ip = Some u"
  shows "List.find (\<lambda>k. data s k = Some u) ks = Some ip"
proof (cases "List.find (\<lambda>k. data s k = Some u) ks")
  case None
  with assms(2,3) show ?thesis by (auto simp: find_user_None ran_def)
next
  case (Some k)
  then have "data s k = Some u" by (rule find_user_Some [OF assms(2)])
  with assms(1,3) have "k = ip"
    unfolding store_inv_def inj_on_def by (metis domI)
  with Some show ?thesis by simp
qed

lemma map_order_upd_inj:
  "inj_on m (dom m) \<Longrightarrow> u \<notin> ran m \<Longrightarrow> inj_on (m(ip \<mapsto> u)) (dom (m(ip \<mapsto> u)))"
  by (auto simp: inj_on_def ran_def)

section \<open>Removing from the room list\<close>

text \<open>The first index that satisfies a test, and deleting at it.\<close>

lemma find_index_None: "List.find (\<lambda>i. P (xs ! i)) [0..<length xs] = None \<longleftrightarrow> \<not> list_ex P xs"
  by (auto simp: find_None_iff list_ex_length)

lemma find_index_Some:
  assumes "List.find (\<lambda>i. P (xs ! i)) [0..<length xs] = Some i"
  shows "i < length xs" and "P (xs ! i)" and "take i xs @ drop (Suc i) xs = remove_first P xs"
proof -
  from assms have i: "i < length xs" "P (xs ! i)" "\<forall>j<i. \<not> P (xs ! j)"
    by (auto simp: find_Some_iff)
  then show "i < length xs" "P (xs ! i)" by auto
  have split: "xs = take i xs @ xs ! i # drop (Suc i) xs"
    using i(1) by (rule id_take_nth_drop)
  have "\<not> list_ex P (take i xs)"
    using i by (auto simp: list_ex_length)
  then have "remove_first P (take i xs @ xs ! i # drop (Suc i) xs) = take i xs @ drop (Suc i) xs"
    using i(2) by (simp add: remove_first_append)
  with split show "take i xs @ drop (Suc i) xs = remove_first P xs" by metis
qed

lemma find_index_hit:
  "list_ex P xs \<Longrightarrow> \<exists>i. List.find (\<lambda>i. P (xs ! i)) [0..<length xs] = Some i"
  using find_index_None [of P xs] by auto

text \<open>Deleting one index of the store's own header.\<close>

lemma delete_at_spec:
  assumes "store_inv s" "i < length (rooms s)"
  obtains s' where "delete_at i s = (Ret (), s')" and "store_inv s'"
    and "rooms s' = take i (rooms s) @ drop (Suc i) (rooms s)"
    and "data s' = data s" and "delay_lists s' = delay_lists s"
    and "sl_arr (chat_instances s') = sl_arr (chat_instances s)"
proof -
  let ?h = "store_arrays s" and ?c = "chat_instances s"
  have wf: "slice_wf ?h ?c" using assms(1) by (simp add: store_inv_def)
  have i: "i < sl_len ?c" using assms(2) slice_wf_length [OF wf] by (simp add: rooms_def)
  obtain sl h where d: "slice_delete zero_instance 0 ?h ?c i = Ret (sl, h)"
    using slice_delete_eq [OF wf i] by blast
  show thesis
  proof (rule that [of "s\<lparr>chat_instances := sl, store_arrays := h\<rparr>"])
    show "delete_at i s = (Ret (), s\<lparr>chat_instances := sl, store_arrays := h\<rparr>)"
      by (simp add: delete_at_def d)
  qed (use assms(1) slice_delete_wf [OF wf i d] slice_delete_elems [OF wf i d]
        in \<open>auto simp: store_inv_def rooms_def\<close>)
qed

lemma truncate_at_spec:
  assumes "store_inv s" "i \<le> length (rooms s)"
  obtains s' where "truncate_at i s = (Ret (), s')" and "store_inv s'"
    and "rooms s' = take i (rooms s)"
    and "data s' = data s" and "delay_lists s' = delay_lists s"
proof -
  let ?c = "chat_instances s"
  have wf: "slice_wf (store_arrays s) ?c" using assms(1) by (simp add: store_inv_def)
  have i: "i \<le> sl_len ?c" using assms(2) slice_wf_length [OF wf] by (simp add: rooms_def)
  show thesis
  proof (rule that [of "s\<lparr>chat_instances := ?c\<lparr>sl_len := i\<rparr>\<rparr>"])
    show "truncate_at i s = (Ret (), s\<lparr>chat_instances := ?c\<lparr>sl_len := i\<rparr>\<rparr>)"
      using wf i by (auto simp: truncate_at_def slice_to_def slice_wf_def)
  qed (use assms(1) i wf in \<open>auto simp: store_inv_def rooms_def slice_wf_def slice_elems_def min_def\<close>)
qed

section \<open>What the methods do\<close>

lemma cs_InsertChatInstance_spec:
  assumes "store_inv s"
  obtains s' where "cs_InsertChatInstance e r srv us s = (Ret r, s')" and "store_inv s'"
    and "rooms s' = rooms s @ [\<lparr>chat_server = srv, users = us, room_id = r, active = True\<rparr>]"
    and "data s' = data s" and "delay_lists s' = delay_lists s"
proof -
  let ?c = "[\<lparr>chat_server = srv, users = us, room_id = r, active = True\<rparr>]"
  obtain sl h where a: "slice_append zero_instance e (store_arrays s) (chat_instances s) ?c = (sl, h)"
    by (metis surj_pair)
  have wf: "slice_wf (store_arrays s) (chat_instances s)"
    using assms by (simp add: store_inv_def)
  show thesis
  proof (rule that [of "s\<lparr>chat_instances := sl, store_arrays := h\<rparr>"])
    show "cs_InsertChatInstance e r srv us s = (Ret r, s\<lparr>chat_instances := sl, store_arrays := h\<rparr>)"
      by (simp add: cs_InsertChatInstance_def a)
  qed (use assms slice_append_wf [OF wf a] slice_append_elems [OF wf a]
        in \<open>auto simp: store_inv_def rooms_def\<close>)
qed

text \<open>A removal loop is a search over the indices followed by one deletion.\<close>

lemma remove_room_loop_find:
  assumes "\<forall>i\<in>set is. slice_get (store_arrays s) hdr i = Ret (xs ! i)"
  shows "remove_room_loop r hdr is s =
    (case List.find (\<lambda>i. room_id (xs ! i) = r) is of
       None \<Rightarrow> (Fail (''chat instance with roomId '' @ r @ '' not found''), s)
     | Some i \<Rightarrow> then_op (delete_at i) (ret_op r) s)"
  using assms by (induction "is") auto

lemma remove_user_loop_find:
  assumes "\<forall>i\<in>set is. slice_get (store_arrays s) hdr i = Ret (xs ! i)"
  shows "remove_user_loop u hdr is s =
    (case List.find (\<lambda>i. u \<in> set (users (xs ! i))) is of
       None \<Rightarrow> (Fail (''chat instance with user '' @ u @ '' not found''), s)
     | Some i \<Rightarrow> then_op (if Suc i = sl_len (chat_instances s) then truncate_at i else delete_at i)
                  (ret_op (room_id (xs ! i))) s)"
  using assms by (induction "is") auto

lemma own_header_reads:
  "store_inv s \<Longrightarrow>
    \<forall>i\<in>set [0..<length (rooms s)].
      slice_get (store_arrays s) (chat_instances s) i = Ret (rooms s ! i)"
  by (auto simp: store_inv_def rooms_def slice_wf_length slice_get_elems)

lemma own_header_nth:
  "store_inv s \<Longrightarrow> i < length (rooms s) \<Longrightarrow>
    slice_get (store_arrays s) (chat_instances s) i = Ret (rooms s ! i)"
  using own_header_reads by simp

lemma sl_len_rooms: "store_inv s \<Longrightarrow> sl_len (chat_instances s) = length (rooms s)"
  by (simp add: store_inv_def rooms_def slice_wf_length)

lemma cs_RemoveChatInstance_spec:
  assumes inv: "store_inv s"
  shows "\<exists>s'. cs_RemoveChatInstance r s =
      (if list_ex (\<lambda>c. room_id c = r) (rooms s) then Ret r
       else Fail (''chat instance with roomId '' @ r @ '' not found''), s') \<and>
    store_inv s' \<and> rooms s' = remove_first (\<lambda>c. room_id c = r) (rooms s) \<and>
    data s' = data s \<and> delay_lists s' = delay_lists s"
proof (cases "List.find (\<lambda>i. room_id (rooms s ! i) = r) [0..<length (rooms s)]")
  case None
  then have "\<not> list_ex (\<lambda>c. room_id c = r) (rooms s)"
    by (rule find_index_None [where P = "\<lambda>c. room_id c = r", THEN iffD1])
  with None inv show ?thesis
    by (simp add: cs_RemoveChatInstance_def sl_len_rooms remove_first_absent
        remove_room_loop_find [OF own_header_reads [OF inv]])
next
  case (Some i)
  note i = find_index_Some [where P = "\<lambda>c. room_id c = r", OF Some]
  obtain s' where d: "delete_at i s = (Ret (), s')" "store_inv s'"
      "rooms s' = take i (rooms s) @ drop (Suc i) (rooms s)"
      "data s' = data s" "delay_lists s' = delay_lists s"
    using delete_at_spec [OF inv i(1)] by metis
  have "list_ex (\<lambda>c. room_id c = r) (rooms s)"
    using i(1,2) by (auto simp: list_ex_length)
  with Some inv d i(3) show ?thesis
    by (simp add: cs_RemoveChatInstance_def sl_len_rooms ret_op_def
        remove_room_loop_find [OF own_header_reads [OF inv]])
qed

lemma remove_user_step:
  assumes "store_inv s" "i < length (rooms s)"
  shows "\<exists>s'. (if Suc i = sl_len (chat_instances s) then truncate_at i else delete_at i) s = (Ret (), s') \<and>
    store_inv s' \<and> rooms s' = take i (rooms s) @ drop (Suc i) (rooms s) \<and>
    data s' = data s \<and> delay_lists s' = delay_lists s"
proof (cases "Suc i = length (rooms s)")
  case True
  with truncate_at_spec [OF assms(1), of i] assms show ?thesis
    by (simp add: sl_len_rooms) (metis lessI less_imp_le_nat)
next
  case False
  with delete_at_spec [OF assms] assms(1) show ?thesis
    by (simp add: sl_len_rooms) metis
qed

lemma cs_RemoveChatInstancesForUser_spec:
  assumes inv: "store_inv s"
  shows "\<exists>s'. cs_RemoveChatInstancesForUser u s =
      (case List.find (\<lambda>c. u \<in> set (users c)) (rooms s) of
         Some c \<Rightarrow> Ret (room_id c)
       | None \<Rightarrow> Fail (''chat instance with user '' @ u @ '' not found''), s') \<and>
    store_inv s' \<and> rooms s' = remove_first (\<lambda>c. u \<in> set (users c)) (rooms s) \<and>
    data s' = data s \<and> delay_lists s' = delay_lists s"
proof (cases "List.find (\<lambda>i. u \<in> set (users (rooms s ! i))) [0..<length (rooms s)]")
  case None
  then have n: "\<not> list_ex (\<lambda>c. u \<in> set (users c)) (rooms s)"
    by (rule find_index_None [where P = "\<lambda>c. u \<in> set (users c)", THEN iffD1])
  then have "List.find (\<lambda>c. u \<in> set (users c)) (rooms s) = None"
    by (auto simp: find_None_iff list_ex_iff)
  with None n inv show ?thesis
    by (simp add: cs_RemoveChatInstancesForUser_def sl_len_rooms remove_first_absent
        remove_user_loop_find [OF own_header_reads [OF inv]])
next
  case (Some i)
  note i = find_index_Some [where P = "\<lambda>c. u \<in> set (users c)", OF Some]
  obtain s' where d: "(if Suc i = sl_len (chat_instances s) then truncate_at i else delete_at i) s = (Ret (), s')"
      "store_inv s'" "rooms s' = take i (rooms s) @ drop (Suc i) (rooms s)"
      "data s' = data s" "delay_lists s' = delay_lists s"
    using remove_user_step [OF inv i(1)] by metis
  have "List.find (\<lambda>c. u \<in> set (users c)) (rooms s) = Some (rooms s ! i)"
    using Some by (auto simp: find_Some_iff)
  with Some inv d i(3) show ?thesis
    by (simp add: cs_RemoveChatInstancesForUser_def sl_len_rooms ret_op_def
        remove_user_loop_find [OF own_header_reads [OF inv]] del: split_paired_All)
qed

section \<open>The store provides the contracts\<close>

lemma cs_Create_free:
  "map_order (data s) ks \<Longrightarrow> u \<notin> ran (data s) \<Longrightarrow>
    cs_Create ks ip u s = (Ret (), s\<lparr>data := (data s)(ip \<mapsto> u)\<rparr>)"
  using find_user_None [of s ks u] by (simp add: cs_Create_def)

lemma cs_Create_taken:
  assumes "map_order (data s) ks" "u \<in> ran (data s)"
  shows "\<exists>ip'. data s ip' = Some u \<and> cs_Create ks ip u s =
    (Fail (''the username '' @ u @ '' is already associated with IP '' @ ip'), s)"
proof -
  obtain ip' where f: "List.find (\<lambda>k. data s k = Some u) ks = Some ip'"
    using find_user_None [OF assms(1), of u] assms(2) by auto
  then have "data s ip' = Some u" by (rule find_user_Some [OF assms(1)])
  with f show ?thesis by (auto simp: cs_Create_def)
qed

lemma store_inv_delete:
  "store_inv s \<Longrightarrow> store_inv (s\<lparr>data := (data s)(ip := None)\<rparr>)"
  by (auto simp: store_inv_def inj_on_def)

lemma store_inv_create:
  "store_inv s \<Longrightarrow> u \<notin> ran (data s) \<Longrightarrow> store_inv (s\<lparr>data := (data s)(ip \<mapsto> u)\<rparr>)"
  using map_order_upd_inj [of "data s" u ip] by (simp add: store_inv_def)

lemma cs_ReadByUsername_iff:
  assumes "store_inv s" "map_order (data s) ks"
  shows "cs_ReadByUsername ks u s = Ret ip \<longleftrightarrow> data s ip = Some u"
proof
  assume "cs_ReadByUsername ks u s = Ret ip"
  then have "List.find (\<lambda>k. data s k = Some u) ks = Some ip"
    by (auto simp: cs_ReadByUsername_def split: option.splits)
  then show "data s ip = Some u" by (rule find_user_Some [OF assms(2)])
next
  assume "data s ip = Some u"
  then show "cs_ReadByUsername ks u s = Ret ip"
    by (simp add: cs_ReadByUsername_def find_user_unique [OF assms])
qed

interpretation client_dir: user_directory cs_Create cs_Read cs_ReadByUsername cs_Delete data store_inv
proof unfold_locales
  fix s :: client_store and ks u ip
  assume "store_inv s" "map_order (data s) ks" "u \<notin> ran (data s)"
  then show "\<exists>s'. cs_Create ks ip u s = (Ret (), s') \<and> data s' = (data s)(ip \<mapsto> u) \<and> store_inv s'"
    by (simp add: cs_Create_free store_inv_create)
next
  fix s :: client_store and ks u ip
  assume "map_order (data s) ks" "u \<in> ran (data s)"
  then show "\<exists>e. cs_Create ks ip u s = (Fail e, s)"
    using cs_Create_taken by metis
next
  fix s :: client_store and ks u ip
  assume "store_inv s" "map_order (data s) ks"
  then show "cs_ReadByUsername ks u s = Ret ip \<longleftrightarrow> data s ip = Some u"
    by (rule cs_ReadByUsername_iff)
qed (auto simp: cs_Read_def cs_ReadByUsername_def cs_Delete_def store_inv_delete split: option.splits)

definition new_instance :: "string \<Rightarrow> string \<Rightarrow> string list \<Rightarrow> chat_instance" where
  "new_instance r srv us = \<lparr>chat_server = srv, users = us, room_id = r, active = True\<rparr>"

interpretation client_rooms: room_registry cs_InsertChatInstance cs_RemoveChatInstancesForUser
  new_instance users rooms store_inv
proof unfold_locales
  fix s :: client_store and e rid srv us
  assume "store_inv s"
  then show "\<exists>s'. cs_InsertChatInstance e rid srv us s = (Ret rid, s') \<and> store_inv s' \<and>
      rooms s' = rooms s @ [new_instance rid srv us]"
    unfolding new_instance_def by (metis cs_InsertChatInstance_spec)
next
  fix s :: client_store and u
  assume "store_inv s"
  from cs_RemoveChatInstancesForUser_spec [OF this, of u]
  show "\<exists>r s'. cs_RemoveChatInstancesForUser u s = (r, s') \<and> r \<noteq> Panic \<and> store_inv s' \<and>
      rooms s' = remove_first (\<lambda>c. u \<in> set (users c)) (rooms s)"
    by (auto split: option.splits)
qed (simp add: new_instance_def)

section \<open>Removing the rooms of a server\<close>

lemma delete_at_stale:
  assumes "store_inv s" "i < length (rooms s)" "delete_at i s = (Ret (), s')" "j < length (rooms s)"
  shows "slice_get (store_arrays s') (chat_instances s) j =
    Ret (rooms s ! (if j < i then j else min (Suc j) (length (rooms s) - 1)))"
proof -
  have wf: "slice_wf (store_arrays s) (chat_instances s)" using assms(1) by (simp add: store_inv_def)
  have i: "i < sl_len (chat_instances s)" and j: "j < sl_len (chat_instances s)"
    using assms sl_len_rooms by auto
  obtain sl h where d: "slice_delete zero_instance 0 (store_arrays s) (chat_instances s) i = Ret (sl, h)"
    using slice_delete_eq [OF wf i] by blast
  then have "store_arrays s' = h" using assms(3) by (auto simp: delete_at_def)
  with slice_delete_stale [OF wf i d j] show ?thesis
    by (simp add: sl_len_rooms [OF assms(1)] rooms_def)
qed

lemma remove_server_loop_skip:
  assumes "\<forall>i\<in>set is. \<exists>c. slice_get (store_arrays s) hdr i = Ret c \<and> chat_server c \<noteq> srv"
  shows "remove_server_loop srv hdr (is @ js) removed s = remove_server_loop srv hdr js removed s"
  using assms by (induction "is") auto

lemma remove_server_loop_none:
  assumes "\<forall>i\<in>set is. \<exists>c. slice_get (store_arrays s) hdr i = Ret c \<and> chat_server c \<noteq> srv"
  shows "remove_server_loop srv hdr is removed s = (Ret removed, s)"
  using remove_server_loop_skip [OF assms, of "[]"] by simp

lemma remove_server_unmatched:
  assumes inv: "store_inv s" and none: "\<forall>c\<in>set (rooms s). chat_server c \<noteq> srv"
  shows "cs_RemoveChatInstancesForServer srv s = (Ret [], s)"
proof -
  have "\<forall>i\<in>set [0..<sl_len (chat_instances s)].
      \<exists>c. slice_get (store_arrays s) (chat_instances s) i = Ret c \<and> chat_server c \<noteq> srv"
    using own_header_reads [OF inv] none sl_len_rooms [OF inv] by auto
  then show ?thesis
    unfolding cs_RemoveChatInstancesForServer_def by (rule remove_server_loop_none)
qed

lemma remove_server_at:
  assumes inv: "store_inv s" and r: "rooms s = xs @ a # ys"
    and xs: "\<forall>c\<in>set xs. chat_server c \<noteq> srv" and a: "chat_server a = srv"
  obtains s' where "delete_at (length xs) s = (Ret (), s')" and "store_inv s'" and "rooms s' = xs @ ys"
    and "cs_RemoveChatInstancesForServer srv s =
      remove_server_loop srv (chat_instances s) [Suc (length xs)..<length (rooms s)] [room_id a] s'"
proof -
  let ?n = "length xs"
  have n: "?n < length (rooms s)" using r by simp
  obtain s' where d: "delete_at ?n s = (Ret (), s')" "store_inv s'"
      "rooms s' = take ?n (rooms s) @ drop (Suc ?n) (rooms s)"
    using delete_at_spec [OF inv n] by metis
  have skip: "\<forall>i\<in>set [0..<?n]. \<exists>c. slice_get (store_arrays s) (chat_instances s) i = Ret c \<and> chat_server c \<noteq> srv"
    using own_header_reads [OF inv] xs r by (auto simp: nth_append)
  have "slice_get (store_arrays s) (chat_instances s) ?n = Ret a"
    using own_header_nth [OF inv n] r by simp
  moreover have "[0..<length (rooms s)] = [0..<?n] @ ?n # [Suc ?n..<length (rooms s)]"
    using upt_add_eq_append [of 0 ?n "length (rooms s) - ?n"] n upt_conv_Cons [OF n] by simp
  ultimately have "cs_RemoveChatInstancesForServer srv s =
      remove_server_loop srv (chat_instances s) [Suc ?n..<length (rooms s)] [room_id a] s'"
    using a d(1)
    by (simp add: cs_RemoveChatInstancesForServer_def sl_len_rooms [OF inv]
        remove_server_loop_skip [OF skip])
  with d r that show thesis by simp
qed

section \<open>Properties\<close>

text \<open>A registration that succeeds is visible at once and both ways, whatever order the
  map is visited in: the IP reads back as the name, the name resolves to that IP, nobody
  can register the name again while it is held, and no other address is affected.\<close>

lemma registration_resolves:
  assumes "store_inv s" "map_order (data s) ks" "cs_Create ks ip u s = (Ret (), s')"
    and "map_order (data s') ks'"
  shows "cs_Read ip s' = Ret u \<and> cs_ReadByUsername ks' u s' = Ret ip \<and>
    (\<forall>ip'. \<exists>e. cs_Create ks' ip' u s' = (Fail e, s')) \<and>
    (\<forall>ip'. ip' \<noteq> ip \<longrightarrow> data s' ip' = data s ip')"
proof -
  note new = client_dir.create_Ret [OF assms(1-3)]
  have "data s' ip = Some u" by (simp add: new(2))
  then have "\<exists>e. cs_Create ks' ip' u s' = (Fail e, s')" for ip'
    by (rule client_dir.name_refused_while_held [OF new(3) assms(4)])
  moreover have "data s' ip' = data s ip'" if "ip' \<noteq> ip" for ip'
    using that by (simp add: new(2))
  ultimately show ?thesis using client_dir.registered_resolves [OF assms] by blast
qed

text \<open>C13. \<^verbatim>\<open>RemoveChatInstance\<close> and \<^verbatim>\<open>RemoveChatInstancesForUser\<close>, which shift the rooms inside
  the shared array, implement the removal of the first matching room from the list the
  store denotes; they report that room, fail when there is none, and never panic.\<close>

theorem removals_refine_list:
  assumes "store_inv s"
  shows "(\<exists>s'. cs_RemoveChatInstance r s =
       (if \<exists>c\<in>set (rooms s). room_id c = r then Ret r
        else Fail (''chat instance with roomId '' @ r @ '' not found''), s') \<and>
     store_inv s' \<and> rooms s' = remove_first (\<lambda>c. room_id c = r) (rooms s) \<and> data s' = data s) \<and>
   (\<exists>s'. cs_RemoveChatInstancesForUser u s =
       (case List.find (\<lambda>c. u \<in> set (users c)) (rooms s) of
          Some c \<Rightarrow> Ret (room_id c)
        | None \<Rightarrow> Fail (''chat instance with user '' @ u @ '' not found''), s') \<and>
     store_inv s' \<and> rooms s' = remove_first (\<lambda>c. u \<in> set (users c)) (rooms s) \<and> data s' = data s)"
  using cs_RemoveChatInstance_spec [OF assms, of r] cs_RemoveChatInstancesForUser_spec [OF assms, of u]
  unfolding list_ex_iff by blast

theorem removals_refine_list_witness:
  "store_inv new_client_store \<and>
   (\<exists>s'. cs_RemoveChatInstance ''r1'' new_client_store =
      (Fail ''chat instance with roomId r1 not found'', s') \<and> rooms s' = [])"
  using removals_refine_list [OF store_inv_new, of "''r1''"] store_inv_new by (auto simp: rooms_new)

text \<open>\<^verbatim>\<open>RemoveChatInstancesForServer\<close> is correct when at most one room is on the server:
  that room goes, its identifier is reported, the others stay in order.\<close>

lemma remove_server_at_most_one:
  assumes "store_inv s" and "length (filter (\<lambda>c. chat_server c = srv) (rooms s)) \<le> 1"
  shows "\<exists>s'. cs_RemoveChatInstancesForServer srv s =
      (Ret (map room_id (filter (\<lambda>c. chat_server c = srv) (rooms s))), s') \<and>
    rooms s' = filter (\<lambda>c. chat_server c \<noteq> srv) (rooms s)"
proof (cases "filter (\<lambda>c. chat_server c = srv) (rooms s)")
  case Nil
  then have none: "\<forall>c\<in>set (rooms s). chat_server c \<noteq> srv" by (simp add: filter_empty_conv)
  then have "filter (\<lambda>c. chat_server c \<noteq> srv) (rooms s) = rooms s" by (simp add: filter_id_conv)
  with remove_server_unmatched [OF assms(1) none] Nil show ?thesis by simp
next
  case (Cons a as)
  with assms(2) have one: "filter (\<lambda>c. chat_server c = srv) (rooms s) = [a]" by simp
  then obtain xs ys where r: "rooms s = xs @ a # ys" and xs: "\<forall>c\<in>set xs. chat_server c \<noteq> srv"
      and a: "chat_server a = srv" and nil: "[] = filter (\<lambda>c. chat_server c = srv) ys"
    by (auto simp: filter_eq_Cons_iff)
  from nil have "filter (\<lambda>c. chat_server c = srv) ys = []" by (rule sym)
  then have ys: "\<forall>c\<in>set ys. chat_server c \<noteq> srv" by (simp add: filter_empty_conv)
  obtain s' where s': "delete_at (length xs) s = (Ret (), s')" "rooms s' = xs @ ys"
      "cs_RemoveChatInstancesForServer srv s =
        remove_server_loop srv (chat_instances s) [Suc (length xs)..<length (rooms s)] [room_id a] s'"
    using remove_server_at [OF assms(1) r xs a] by metis
  have n: "length xs < length (rooms s)" using r by simp
  have later: "rooms s ! j \<in> set ys" if "length xs < j" "j < length (rooms s)" for j
    using that r by (auto simp: nth_append nth_Cons')
  have "\<exists>c. slice_get (store_arrays s') (chat_instances s) i = Ret c \<and> chat_server c \<noteq> srv"
    if "i \<in> set [Suc (length xs)..<length (rooms s)]" for i
  proof -
    have i: "i < length (rooms s)" "length xs < i" using that by auto
    let ?j = "min (Suc i) (length (rooms s) - 1)"
    have "length xs < ?j \<or> i = length xs" "?j < length (rooms s)" using i by auto
    with i(2) have "rooms s ! ?j \<in> set ys" by (intro later) auto
    with delete_at_stale [OF assms(1) n s'(1) i(1)] i(2) ys show ?thesis by auto
  qed
  then have "cs_RemoveChatInstancesForServer srv s = (Ret [room_id a], s')"
    using s'(3) by (simp add: remove_server_loop_none)
  with one s'(2) r xs ys a show ?thesis by (simp add: filter_id_conv)
qed

text \<open>It panics when the last two rooms, and none before, are on the server: the loop
  still ranges over the old length, meets the last room a second time in the shifted
  array, and slices beyond the shortened list.\<close>

lemma remove_server_panics:
  assumes "store_inv s" "rooms s = xs @ [a, b]" "\<forall>c\<in>set xs. chat_server c \<noteq> srv"
    and "chat_server a = srv" "chat_server b = srv"
  shows "fst (cs_RemoveChatInstancesForServer srv s) = Panic"
proof -
  let ?n = "length xs"
  obtain s' where s': "delete_at ?n s = (Ret (), s')" "store_inv s'" "rooms s' = xs @ [b]"
      "cs_RemoveChatInstancesForServer srv s =
        remove_server_loop srv (chat_instances s) [Suc ?n..<length (rooms s)] [room_id a] s'"
    using remove_server_at [OF assms(1,2,3,4)] by metis
  have n: "?n < length (rooms s)" "Suc ?n < length (rooms s)" using assms(2) by simp_all
  have "slice_get (store_arrays s') (chat_instances s) (Suc ?n) = Ret b"
    using delete_at_stale [OF assms(1) n(1) s'(1) n(2)] assms(2) by (simp add: nth_append)
  moreover have "delete_at (Suc ?n) s' = (Panic, s')"
  proof -
    have len: "sl_len (chat_instances s') = Suc ?n" using sl_len_rooms [OF s'(2)] s'(3) by simp
    have "Suc ?n \<le> sl_cap (chat_instances s')"
      using s'(2) len by (simp add: store_inv_def slice_wf_def)
    then show ?thesis using len by (simp add: delete_at_def slice_delete_Panic)
  qed
  moreover have "[Suc ?n..<length (rooms s)] = [Suc ?n]" using assms(2) by (simp add: upt_rec)
  ultimately show ?thesis using s'(4) assms(5) by simp
qed

lemma two_rooms:
  "store_inv (snd (cs_InsertChatInstance e2 r2 srv us2 (snd (cs_InsertChatInstance e1 r1 srv us1 new_client_store)))) \<and>
   rooms (snd (cs_InsertChatInstance e2 r2 srv us2 (snd (cs_InsertChatInstance e1 r1 srv us1 new_client_store)))) =
     [new_instance r1 srv us1, new_instance r2 srv us2]"
proof -
  obtain s1 where s1: "cs_InsertChatInstance e1 r1 srv us1 new_client_store = (Ret r1, s1)"
      "store_inv s1" "rooms s1 = rooms new_client_store @ [new_instance r1 srv us1]"
    using client_rooms.insert_view [OF store_inv_new] by blast
  obtain s2 where "cs_InsertChatInstance e2 r2 srv us2 s1 = (Ret r2, s2)"
      "store_inv s2" "rooms s2 = rooms s1 @ [new_instance r2 srv us2]"
    using client_rooms.insert_view [OF s1(2)] by blast
  with s1 show ?thesis by (simp add: rooms_new)
qed

end
