(* ===== verification/Client_API.thy ===== *)
theory Client_API
  imports Client_Store
begin

text \<open>
  The REST handlers of the client service, \<^verbatim>\<open>Central/internal/client/api.go\<close>. The HTTP
  framework (gin) is not part of the repository: what a handler takes from it is an
  argument, namely the client's IP, the path parameter and the outcome of
  \<^verbatim>\<open>ShouldBindJSON\<close> (\<^term>\<open>None\<close> when it reports an error, which with
  \<^verbatim>\<open>binding:"required"\<close> includes an empty or missing field). A handler answers with a status
  code and a JSON object.

  \<open>client_api\<close> is the dispatch of \<^verbatim>\<open>RegisterRoutes\<close>, and \<open>api_reachable\<close> are the stores
  that requests can produce, together with the room operations of the matchmaking server,
  which shares the store.
\<close>

section \<open>Responses\<close>

datatype json = JStr string | JList "string list"

record response =
  status :: nat
  body :: "(string \<times> json) list"

definition StatusOK :: nat where "StatusOK = 200"
definition StatusCreated :: nat where "StatusCreated = 201"
definition StatusBadRequest :: nat where "StatusBadRequest = 400"
definition StatusNotFound :: nat where "StatusNotFound = 404"
definition StatusConflict :: nat where "StatusConflict = 409"
definition StatusInternalServerError :: nat where "StatusInternalServerError = 500"

lemmas status_defs = StatusOK_def StatusCreated_def StatusBadRequest_def StatusNotFound_def
  StatusConflict_def StatusInternalServerError_def

definition error_body :: "string \<Rightarrow> (string \<times> json) list" where
  "error_body e = [(''error'', JStr e)]"

text \<open>A panic in a handler is caught by gin's recovery: status 500, no body.\<close>

definition panic_response :: response where
  "panic_response = \<lparr>status = 500, body = []\<rparr>"

section \<open>Handlers\<close>

definition RegisterClient ::
    "string list \<Rightarrow> string \<Rightarrow> string option \<Rightarrow> client_store \<Rightarrow> response \<times> client_store" where
  "RegisterClient ks clientIP req s = (case req of
       None \<Rightarrow> (\<lparr>status = StatusBadRequest, body = error_body ''Invalid JSON payload''\<rparr>, s)
     | Some username \<Rightarrow> (case cs_Create ks clientIP username s of
           (Fail e, s') \<Rightarrow> (\<lparr>status = StatusConflict, body = error_body e\<rparr>, s')
         | (Panic, s') \<Rightarrow> (panic_response, s')
         | (Ret _, s') \<Rightarrow>
             (\<lparr>status = StatusCreated, body = [(''message'', JStr ''Client registered''),
                (''ip'', JStr clientIP), (''username'', JStr username)]\<rparr>, s')))"

definition GetClient :: "string \<Rightarrow> client_store \<Rightarrow> response" where
  "GetClient clientIP s = (case cs_Read clientIP s of
       Fail e \<Rightarrow> \<lparr>status = StatusNotFound, body = error_body e\<rparr>
     | Panic \<Rightarrow> panic_response
     | Ret username \<Rightarrow>
         \<lparr>status = StatusOK, body = [(''ip'', JStr clientIP), (''username'', JStr username)]\<rparr>)"

definition GetClientByUsername :: "string list \<Rightarrow> string \<Rightarrow> client_store \<Rightarrow> response" where
  "GetClientByUsername ks username s = (case cs_ReadByUsername ks username s of
       Fail e \<Rightarrow> \<lparr>status = StatusNotFound, body = error_body e\<rparr>
     | Panic \<Rightarrow> panic_response
     | Ret clientIP \<Rightarrow>
         \<lparr>status = StatusOK, body = [(''ip'', JStr clientIP), (''username'', JStr username)]\<rparr>)"

definition DeleteClient :: "string \<Rightarrow> client_store \<Rightarrow> response \<times> client_store" where
  "DeleteClient clientIP s = (case cs_Delete clientIP s of
       (Fail e, s') \<Rightarrow> (\<lparr>status = StatusNotFound, body = error_body e\<rparr>, s')
     | (Panic, s') \<Rightarrow> (panic_response, s')
     | (Ret _, s') \<Rightarrow>
         (\<lparr>status = StatusOK,
           body = [(''message'', JStr ''Client deleted''), (''ip'', JStr clientIP)]\<rparr>, s'))"

text \<open>
  \<^verbatim>\<open>ShouldBindJSON\<close> into \<^verbatim>\<open>UpdateDelayRequest\<close>: \<open>req\<close> is the decoded payload, or the error of the
  decoder. A missing username decodes to the empty one and missing delays to nil
  (\<^term>\<open>None\<close>), and \<^verbatim>\<open>binding:"required"\<close> rejects both; an empty map is not nil.
\<close>

definition quoted :: "string \<Rightarrow> string" where
  "quoted t = [CHR 0x27] @ t @ [CHR 0x27]"

definition required_error :: "string \<Rightarrow> string" where
  "required_error field = ''Key: '' @ quoted (''UpdateDelayRequest.'' @ field) @
     '' Error:Field validation for '' @ quoted field @ '' failed on the '' @ quoted ''required'' @ '' tag''"

definition bind_delays ::
    "string + (string \<times> (string \<rightharpoonup> flt) option) \<Rightarrow> string + (string \<times> (string \<rightharpoonup> flt))" where
  "bind_delays req = (case req of
       Inl e \<Rightarrow> Inl e
     | Inr (username, Some delays) \<Rightarrow>
         if username = '''' then Inl (required_error ''Username'') else Inr (username, delays)
     | Inr (username, None) \<Rightarrow> Inl ((if username = '''' then required_error ''Username'' @ [newline] else '''') @
         required_error ''Delays''))"

definition UpdateDelayList ::
    "string + (string \<times> (string \<rightharpoonup> flt) option) \<Rightarrow> client_store \<Rightarrow> response \<times> client_store" where
  "UpdateDelayList req s = (case bind_delays req of
       Inl e \<Rightarrow> (\<lparr>status = StatusBadRequest,
           body = [(''error'', JStr ''Invalid request format''), (''details'', JStr e)]\<rparr>, s)
     | Inr (username, delays) \<Rightarrow> (case cs_UpdateDelayList username delays s of
           (Fail e, s') \<Rightarrow> (\<lparr>status = StatusInternalServerError,
               body = [(''error'', JStr ''Failed to update delay list''), (''details'', JStr e)]\<rparr>, s')
         | (Panic, s') \<Rightarrow> (panic_response, s')
         | (Ret _, s') \<Rightarrow> (\<lparr>status = StatusOK,
               body = [(''message'', JStr ''Delay list updated successfully'')]\<rparr>, s')))"

section \<open>Routes\<close>

datatype client_request =
    PostClients string "string option"
  | GetClients string
  | GetClientsName string
  | DeleteClients string
  | PutDelays "string + (string \<times> (string \<rightharpoonup> flt) option)"

fun client_api :: "string list \<Rightarrow> client_request \<Rightarrow> client_store \<Rightarrow> response \<times> client_store" where
  "client_api ks (PostClients ip req) s = RegisterClient ks ip req s"
| "client_api ks (GetClients ip) s = (GetClient ip s, s)"
| "client_api ks (GetClientsName username) s = (GetClientByUsername ks username s, s)"
| "client_api ks (DeleteClients ip) s = DeleteClient ip s"
| "client_api ks (PutDelays req) s = UpdateDelayList req s"

section \<open>Reachable stores\<close>

inductive store_step :: "client_store \<Rightarrow> client_store \<Rightarrow> bool" where
  request: "map_order (data s) ks \<Longrightarrow> store_step s (snd (client_api ks rq s))"
| insert_chat: "store_step s (snd (cs_InsertChatInstance e r srv [u1, u2] s))"
| remove_chat: "store_step s (snd (cs_RemoveChatInstance r s))"
| remove_user_chat: "store_step s (snd (cs_RemoveChatInstancesForUser u s))"

inductive api_reachable :: "client_store \<Rightarrow> bool" where
  start: "api_reachable new_client_store"
| step: "api_reachable s \<Longrightarrow> store_step s s' \<Longrightarrow> api_reachable s'"

inductive_cases store_stepE: "store_step s s'"

text \<open>
  The invariant of a running central server: the store's own invariant, and every room
  has two users, so the background job's \<^verbatim>\<open>Users[0]\<close> and \<^verbatim>\<open>Users[1]\<close> are in range.
\<close>

definition server_inv :: "client_store \<Rightarrow> bool" where
  "server_inv s \<longleftrightarrow> store_inv s \<and> (\<forall>c\<in>set (rooms s). length (users c) = 2)"

lemma server_inv_store [simp]: "server_inv s \<Longrightarrow> store_inv s"
  by (simp add: server_inv_def)

lemma cs_Create_keeps:
  assumes "store_inv s" "map_order (data s) ks" "cs_Create ks ip u s = (r, s')"
  shows "store_inv s'" and "rooms s' = rooms s"
  using client_dir.create_inv [OF assms] assms(3)
  by (auto simp: cs_Create_def split: option.splits)

lemma client_api_keeps:
  assumes "store_inv s" "map_order (data s) ks"
  shows "store_inv (snd (client_api ks rq s)) \<and> rooms (snd (client_api ks rq s)) = rooms s"
proof (cases rq)
  case (PostClients ip req)
  show ?thesis
  proof (cases req)
    case None
    then show ?thesis using assms(1) PostClients by (simp add: RegisterClient_def)
  next
    case (Some u)
    obtain r s' where c: "cs_Create ks ip u s = (r, s')" by fastforce
    with cs_Create_keeps [OF assms c] Some PostClients show ?thesis
      by (cases r) (simp_all add: RegisterClient_def)
  qed
next
  case (DeleteClients ip)
  then show ?thesis
    using assms(1) store_inv_delete [OF assms(1)]
    by (auto simp: DeleteClient_def cs_Delete_def)
next
  case (PutDelays req)
  then show ?thesis
    using assms(1)
    by (auto simp: UpdateDelayList_def cs_UpdateDelayList_def split: sum.split)
qed (simp_all add: assms(1))

lemma server_inv_keeps_rooms:
  "server_inv s \<Longrightarrow> store_inv s' \<Longrightarrow> set (rooms s') \<subseteq> set (rooms s) \<Longrightarrow> server_inv s'"
  by (auto simp: server_inv_def)

lemma store_step_inv: "store_step s s' \<Longrightarrow> server_inv s \<Longrightarrow> server_inv s'"
proof (induction rule: store_step.induct)
  case (request s ks rq)
  then have "store_inv (snd (client_api ks rq s)) \<and> rooms (snd (client_api ks rq s)) = rooms s"
    by (intro client_api_keeps) simp_all
  with request show ?case by (simp add: server_inv_def)
next
  case (insert_chat s e r srv u1 u2)
  then obtain s' where "cs_InsertChatInstance e r srv [u1, u2] s = (Ret r, s')" "store_inv s'"
    "rooms s' = rooms s @ [\<lparr>chat_server = srv, users = [u1, u2], room_id = r, active = True\<rparr>]"
    by (metis cs_InsertChatInstance_spec server_inv_store)
  with insert_chat show ?case by (auto simp: server_inv_def)
next
  case (remove_chat s r)
  then obtain s' where "snd (cs_RemoveChatInstance r s) = s'" "store_inv s'"
    "rooms s' = remove_first (\<lambda>c. room_id c = r) (rooms s)"
    using cs_RemoveChatInstance_spec [of s r] by auto
  with remove_chat show ?case
    by (auto simp: server_inv_def dest: remove_firstD)
next
  case (remove_user_chat s u)
  then obtain s' where "snd (cs_RemoveChatInstancesForUser u s) = s'" "store_inv s'"
    "rooms s' = remove_first (\<lambda>c. u \<in> set (users c)) (rooms s)"
    using cs_RemoveChatInstancesForUser_spec [of s u] by auto
  with remove_user_chat show ?case
    by (auto simp: server_inv_def dest: remove_firstD)
qed

lemma reachable_server_inv: "api_reachable s \<Longrightarrow> server_inv s"
proof (induction rule: api_reachable.induct)
  case start
  show ?case by (simp add: server_inv_def store_inv_new rooms_new)
next
  case (step s s')
  then show ?case by (blast intro: store_step_inv)
qed

section \<open>Properties\<close>

text \<open>In every store the central server can reach, no two addresses carry one username,
  the room list's header lies within its array, and every room has exactly two users.\<close>

lemma reachable_store_sound:
  assumes "api_reachable s"
  shows "inj_on (data s) (dom (data s)) \<and> slice_wf (store_arrays s) (chat_instances s) \<and>
    (\<forall>c\<in>set (rooms s). length (users c) = 2)"
  using reachable_server_inv [OF assms] by (simp add: server_inv_def store_inv_def)

text \<open>C28. The registration handler answers 201 exactly when the request binds and no address
  holds the name; otherwise 400 or 409, and the store is unchanged. A second registration
  from the same address is accepted and replaces the first name.\<close>

theorem RegisterClient_outcomes:
  assumes "store_inv s" "map_order (data s) ks" "RegisterClient ks ip req s = (r, s')"
  shows "(case req of
      None \<Rightarrow> status r = 400 \<and> s' = s
    | Some u \<Rightarrow> if u \<in> ran (data s) then status r = 409 \<and> s' = s
               else status r = 201 \<and> s' = s\<lparr>data := (data s)(ip \<mapsto> u)\<rparr>)"
proof (cases req)
  case None
  with assms(3) show ?thesis by (auto simp: RegisterClient_def status_defs)
next
  case (Some u)
  show ?thesis
  proof (cases "u \<in> ran (data s)")
    case True
    obtain e where "cs_Create ks ip u s = (Fail e, s)"
      using client_dir.create_taken [OF assms(1,2) True] by blast
    with Some True assms(3) show ?thesis by (auto simp: RegisterClient_def status_defs)
  next
    case False
    with Some assms(3) cs_Create_free [OF assms(2) False] show ?thesis
      by (auto simp: RegisterClient_def status_defs)
  qed
qed

theorem RegisterClient_outcomes_witness:
  "\<exists>r s'. RegisterClient [''10.0.0.1''] ''10.0.0.1'' (Some ''bob'')
       (new_client_store\<lparr>data := [''10.0.0.1'' \<mapsto> ''alice'']\<rparr>) = (r, s') \<and>
     status r = 201 \<and> data s' = [''10.0.0.1'' \<mapsto> ''bob'']"
proof -
  let ?s = "new_client_store\<lparr>data := [''10.0.0.1'' \<mapsto> ''alice'']\<rparr>"
  obtain r s' where h: "RegisterClient [''10.0.0.1''] ''10.0.0.1'' (Some ''bob'') ?s = (r, s')"
    by fastforce
  have "store_inv ?s" "map_order (data ?s) [''10.0.0.1'']"
    using slice_wf_new by (auto simp: store_inv_def inj_on_def map_order_def)
  from RegisterClient_outcomes [OF this h] h show ?thesis by (auto simp: ran_def)
qed

end
