(* ===== verification/Optimal_Server.thy ===== *)
theory Optimal_Server
  imports Go_Float
begin

text \<open>
  \<^verbatim>\<open>compute_optimal_server\<close> of \<^verbatim>\<open>Central/internal/matchmaking/matchmaking.go\<close>: the server
  that minimises the larger of the two clients' latencies, ties broken by the smaller sum
  of the latencies and then at random.

  The three loops range over Go maps, so each takes its iteration order; the random choice
  takes a seed. The specification \<open>optimal_servers\<close> is the set of servers that both clients
  report and whose cost, the pair of maximum and sum, is least.
\<close>

section \<open>The code\<close>

text \<open>\<^verbatim>\<open>m[k]\<close> of a map of floats: the zero value when the key is missing.\<close>

definition get0 :: "(string \<rightharpoonup> flt) \<Rightarrow> string \<Rightarrow> flt" where
  "get0 m k = (case m k of Some v \<Rightarrow> v | None \<Rightarrow> Fin 0)"

fun first_latencies ::
    "(string \<rightharpoonup> flt) \<Rightarrow> string list \<Rightarrow> (string \<rightharpoonup> flt) \<Rightarrow> (string \<rightharpoonup> flt)" where
  "first_latencies client1 [] lat = lat"
| "first_latencies client1 (server # ks) lat =
     first_latencies client1 ks (lat(server \<mapsto> get0 client1 server))"

fun max_latencies ::
    "(string \<rightharpoonup> flt) \<Rightarrow> string list \<Rightarrow> (string \<rightharpoonup> flt) \<Rightarrow> (string \<rightharpoonup> flt)" where
  "max_latencies client2 [] lat = lat"
| "max_latencies client2 (server # ks) lat =
     max_latencies client2 ks (lat(server \<mapsto> f_max (get0 lat server) (get0 client2 server)))"

record best =
  minimized_latency_servers :: "string list"
  minimum_latency :: flt
  minimum_combined_latency :: flt

definition init_best :: best where
  "init_best = \<lparr>minimized_latency_servers = [], minimum_latency = Fin max_f64,
     minimum_combined_latency = Fin max_f64\<rparr>"

fun min_loop ::
    "(string \<rightharpoonup> flt) \<Rightarrow> (string \<rightharpoonup> flt) \<Rightarrow> (string \<rightharpoonup> flt) \<Rightarrow> string list \<Rightarrow> best \<Rightarrow> best" where
  "min_loop client1 client2 lat [] b = b"
| "min_loop client1 client2 lat (server # ks) b =
     (if client1 server = None then min_loop client1 client2 lat ks b
      else if client2 server = None then min_loop client1 client2 lat ks b
      else
        (let latency = get0 lat server;
             combined = f32_add (get0 client1 server) (get0 client2 server) in
         if f_lt latency (minimum_latency b)
         then min_loop client1 client2 lat ks
                \<lparr>minimized_latency_servers = [server], minimum_latency = latency,
                 minimum_combined_latency = combined\<rparr>
         else if f_eq latency (minimum_latency b) \<and> f_lt combined (minimum_combined_latency b)
         then min_loop client1 client2 lat ks
                (b\<lparr>minimized_latency_servers := [server], minimum_combined_latency := combined\<rparr>)
         else if f_eq latency (minimum_latency b) \<and> f_eq combined (minimum_combined_latency b)
         then min_loop client1 client2 lat ks
                (b\<lparr>minimized_latency_servers := minimized_latency_servers b @ [server]\<rparr>)
         else min_loop client1 client2 lat ks b))"

definition server_latency ::
    "string list \<Rightarrow> string list \<Rightarrow> (string \<rightharpoonup> flt) \<Rightarrow> (string \<rightharpoonup> flt) \<Rightarrow> (string \<rightharpoonup> flt)" where
  "server_latency ks1 ks2 client1 client2 =
     max_latencies client2 ks2 (first_latencies client1 ks1 Map.empty)"

text \<open>
  \<^verbatim>\<open>r.Intn(n)\<close> returns some number below \<open>n\<close>, chosen by the seed.
\<close>

definition Intn :: "nat \<Rightarrow> nat \<Rightarrow> nat" where
  "Intn seed n = seed mod n"

record map_orders =
  order1 :: "string list"
  order2 :: "string list"
  order3 :: "string list"

definition compute_optimal_server ::
    "map_orders \<Rightarrow> nat \<Rightarrow> (string \<rightharpoonup> flt) \<Rightarrow> (string \<rightharpoonup> flt) \<Rightarrow> string result" where
  "compute_optimal_server ord seed client1 client2 =
     (let lat = server_latency (order1 ord) (order2 ord) client1 client2;
          servers = minimized_latency_servers
            (min_loop client1 client2 lat (order3 ord) init_best) in
      if length servers = 0 then Fail ''no server found''
      else if length servers = 1 then Ret (servers ! 0)
      else Ret (servers ! Intn seed (length servers)))"

section \<open>The specification\<close>

definition common_servers :: "(string \<rightharpoonup> flt) \<Rightarrow> (string \<rightharpoonup> flt) \<Rightarrow> string set" where
  "common_servers c1 c2 = dom c1 \<inter> dom c2"

definition cost :: "(string \<rightharpoonup> flt) \<Rightarrow> (string \<rightharpoonup> flt) \<Rightarrow> string \<Rightarrow> (int \<times> int) \<times> (int \<times> int)" where
  "cost c1 c2 s =
     (f_rank (f_max (get0 c1 s) (get0 c2 s)), f_rank (f32_add (get0 c1 s) (get0 c2 s)))"

definition minimizers :: "('a \<Rightarrow> 'b::linorder) \<Rightarrow> 'a set \<Rightarrow> 'a set" where
  "minimizers f D = {s \<in> D. \<forall>t\<in>D. f s \<le> f t}"

definition optimal_servers :: "(string \<rightharpoonup> flt) \<Rightarrow> (string \<rightharpoonup> flt) \<Rightarrow> string set" where
  "optimal_servers c1 c2 = minimizers (cost c1 c2) (common_servers c1 c2)"

text \<open>Delays as JSON delivers them are finite floats; the orders are orders of the maps.\<close>

definition finite_delays :: "(string \<rightharpoonup> flt) \<Rightarrow> bool" where
  "finite_delays c \<longleftrightarrow> (\<forall>s v. c s = Some v \<longrightarrow> f32_finite v)"

definition valid_orders :: "map_orders \<Rightarrow> (string \<rightharpoonup> flt) \<Rightarrow> (string \<rightharpoonup> flt) \<Rightarrow> bool" where
  "valid_orders ord c1 c2 \<longleftrightarrow> map_order c1 (order1 ord) \<and> map_order c2 (order2 ord) \<and>
     map_order (server_latency (order1 ord) (order2 ord) c1 c2) (order3 ord)"

section \<open>The latency table\<close>

lemma first_latencies_lookup:
  "first_latencies c ks lat s = (if s \<in> set ks then Some (get0 c s) else lat s)"
  by (induction ks arbitrary: lat) auto

lemma max_latencies_lookup:
  "distinct ks \<Longrightarrow> max_latencies c ks lat s =
    (if s \<in> set ks then Some (f_max (get0 lat s) (get0 c s)) else lat s)"
  by (induction ks arbitrary: lat) (auto simp: get0_def)

lemma server_latency_common:
  assumes "map_order c1 ks1" "map_order c2 ks2" "s \<in> common_servers c1 c2"
  shows "server_latency ks1 ks2 c1 c2 s = Some (f_max (get0 c1 s) (get0 c2 s))"
  using assms
  by (auto simp: server_latency_def common_servers_def map_order_def max_latencies_lookup
      first_latencies_lookup get0_def)

lemma server_latency_dom:
  "map_order c1 ks1 \<Longrightarrow> map_order c2 ks2 \<Longrightarrow>
    dom (server_latency ks1 ks2 c1 c2) = dom c1 \<union> dom c2"
  by (auto simp: server_latency_def map_order_def max_latencies_lookup first_latencies_lookup
      split: if_splits)

section \<open>The minimum loop\<close>

lemma minimizers_empty [simp]: "minimizers f {} = {}"
  by (simp add: minimizers_def)

lemma minimizers_insert_less:
  "m \<in> minimizers f D \<Longrightarrow> f s < f m \<Longrightarrow> minimizers f (insert s D) = {s}"
  by (fastforce simp: minimizers_def)

lemma minimizers_insert_equal:
  "m \<in> minimizers f D \<Longrightarrow> f s = f m \<Longrightarrow> minimizers f (insert s D) = insert s (minimizers f D)"
  by (auto simp: minimizers_def)

lemma minimizers_insert_greater:
  "m \<in> minimizers f D \<Longrightarrow> f m < f s \<Longrightarrow> minimizers f (insert s D) = minimizers f D"
  by (fastforce simp: minimizers_def)

text \<open>
  The invariant after the servers in \<open>D\<close> (the common ones among those visited): the kept
  list is the minimisers of \<open>D\<close>, and the two minima are their cost.
\<close>

definition best_inv :: "(string \<rightharpoonup> flt) \<Rightarrow> (string \<rightharpoonup> flt) \<Rightarrow> string set \<Rightarrow> best \<Rightarrow> bool" where
  "best_inv c1 c2 D b \<longleftrightarrow>
     (if D = {} then b = init_best
      else minimized_latency_servers b \<noteq> [] \<and> distinct (minimized_latency_servers b) \<and>
        set (minimized_latency_servers b) = minimizers (cost c1 c2) D \<and>
        (\<forall>s\<in>set (minimized_latency_servers b).
           minimum_latency b = f_max (get0 c1 s) (get0 c2 s) \<and>
           minimum_combined_latency b = f32_add (get0 c1 s) (get0 c2 s)))"

lemma common_values:
  assumes "finite_delays c1" "finite_delays c2" "s \<in> common_servers c1 c2"
  obtains a b where "get0 c1 s = Fin a" "get0 c2 s = Fin b"
    "c1 s = Some (Fin a)" "c2 s = Some (Fin b)" "\<bar>a\<bar> \<le> max_f32" "\<bar>b\<bar> \<le> max_f32"
    "f32_finite (Fin a)" "f32_finite (Fin b)"
proof -
  obtain v w where vw: "c1 s = Some v" "c2 s = Some w"
    using assms(3) by (auto simp: common_servers_def)
  then have f: "f32_finite v" "f32_finite w" using assms(1,2) by (auto simp: finite_delays_def)
  obtain a b where "v = Fin a" "\<bar>a\<bar> \<le> max_f32" "w = Fin b" "\<bar>b\<bar> \<le> max_f32"
    using f by (metis f32_finiteE)
  with f vw show thesis by (intro that [of a b]) (simp_all add: get0_def)
qed

lemma common_not_NaN:
  assumes "finite_delays c1" "finite_delays c2" "s \<in> common_servers c1 c2"
  shows "f_max (get0 c1 s) (get0 c2 s) \<noteq> NaN" and "f32_add (get0 c1 s) (get0 c2 s) \<noteq> NaN"
    and "f_lt (f_max (get0 c1 s) (get0 c2 s)) (Fin max_f64)"
proof -
  obtain a b where ab: "get0 c1 s = Fin a" "get0 c2 s = Fin b" "\<bar>a\<bar> \<le> max_f32" "\<bar>b\<bar> \<le> max_f32"
    using common_values [OF assms] by metis
  then show "f_max (get0 c1 s) (get0 c2 s) \<noteq> NaN" "f32_add (get0 c1 s) (get0 c2 s) \<noteq> NaN"
    by simp_all
  have "max a b \<le> max_f32" using ab(3,4) by auto
  then show "f_lt (f_max (get0 c1 s) (get0 c2 s)) (Fin max_f64)"
    using max_f32_less_max_f64 ab(1,2) by simp
qed

text \<open>The body of the loop for a server both clients have.\<close>

definition consider_server :: "flt \<Rightarrow> flt \<Rightarrow> string \<Rightarrow> best \<Rightarrow> best" where
  "consider_server latency combined server b =
     (if f_lt latency (minimum_latency b)
      then \<lparr>minimized_latency_servers = [server], minimum_latency = latency,
            minimum_combined_latency = combined\<rparr>
      else if f_eq latency (minimum_latency b) \<and> f_lt combined (minimum_combined_latency b)
      then b\<lparr>minimized_latency_servers := [server], minimum_combined_latency := combined\<rparr>
      else if f_eq latency (minimum_latency b) \<and> f_eq combined (minimum_combined_latency b)
      then b\<lparr>minimized_latency_servers := minimized_latency_servers b @ [server]\<rparr>
      else b)"

lemma min_loop_common:
  "s \<in> common_servers c1 c2 \<Longrightarrow> min_loop c1 c2 lat (s # ks) b =
    min_loop c1 c2 lat ks (consider_server (get0 lat s) (f32_add (get0 c1 s) (get0 c2 s)) s b)"
  by (auto simp: common_servers_def consider_server_def Let_def)

lemma min_loop_other:
  "s \<notin> common_servers c1 c2 \<Longrightarrow> min_loop c1 c2 lat (s # ks) b = min_loop c1 c2 lat ks b"
  by (auto simp: common_servers_def)

lemma consider_server_inv:
  assumes fin: "finite_delays c1" "finite_delays c2" and D: "D \<subseteq> common_servers c1 c2"
    and s: "s \<in> common_servers c1 c2" "s \<notin> D" and inv: "best_inv c1 c2 D b"
  shows "best_inv c1 c2 (insert s D)
    (consider_server (f_max (get0 c1 s) (get0 c2 s)) (f32_add (get0 c1 s) (get0 c2 s)) s b)"
proof (cases "D = {}")
  case True
  with inv have "b = init_best" by (simp add: best_inv_def)
  with True common_not_NaN(3) [OF fin s(1)] show ?thesis
    by (auto simp: best_inv_def consider_server_def init_best_def minimizers_def)
next
  case False
  let ?L = "f_max (get0 c1 s) (get0 c2 s)" and ?C = "f32_add (get0 c1 s) (get0 c2 s)"
  let ?S = "minimized_latency_servers b"
  from False inv have b: "?S \<noteq> []" "distinct ?S" "set ?S = minimizers (cost c1 c2) D"
      "\<forall>m\<in>set ?S. minimum_latency b = f_max (get0 c1 m) (get0 c2 m) \<and>
         minimum_combined_latency b = f32_add (get0 c1 m) (get0 c2 m)"
    by (simp_all add: best_inv_def)
  obtain m where m: "m \<in> minimizers (cost c1 c2) D" using b(1,3) by (cases ?S) auto
  then have mm: "m \<in> set ?S" "m \<in> common_servers c1 c2"
    using b(3) D by (auto simp: minimizers_def)
  have mins: "minimum_latency b \<noteq> NaN" "minimum_combined_latency b \<noteq> NaN"
      and cm: "cost c1 c2 m = (f_rank (minimum_latency b), f_rank (minimum_combined_latency b))"
    using b(4) mm common_not_NaN [OF fin mm(2)] by (auto simp: cost_def)
  have cs: "cost c1 c2 s = (f_rank ?L, f_rank ?C)" by (simp add: cost_def)
  note nan = common_not_NaN(1,2) [OF fin s(1)]
  have new: "s \<notin> set ?S" using s(2) b(3) by (auto simp: minimizers_def)
  consider (less) "cost c1 c2 s < cost c1 c2 m" | (eq) "cost c1 c2 s = cost c1 c2 m"
    | (greater) "cost c1 c2 m < cost c1 c2 s" by fastforce
  then show ?thesis
  proof cases
    case less
    note M = minimizers_insert_less [OF m less]
    from less show ?thesis
      by (auto simp: best_inv_def consider_server_def M cs cm f_lt_rank f_eq_rank f_rank_inj nan mins)
  next
    case eq
    note M = minimizers_insert_equal [OF m eq]
    from eq show ?thesis
      using b new
      by (auto simp: best_inv_def consider_server_def M cs cm f_lt_rank f_eq_rank f_rank_inj nan mins)
  next
    case greater
    note M = minimizers_insert_greater [OF m greater]
    from greater have "consider_server ?L ?C s b = b"
      by (auto simp: consider_server_def cs cm f_lt_rank f_eq_rank nan mins)
    with b show ?thesis by (simp add: best_inv_def M)
  qed
qed

lemma min_loop_inv:
  assumes fin: "finite_delays c1" "finite_delays c2"
    and lat: "\<forall>s\<in>common_servers c1 c2. get0 lat s = f_max (get0 c1 s) (get0 c2 s)"
  shows "distinct ks \<Longrightarrow> D \<subseteq> common_servers c1 c2 \<Longrightarrow> D \<inter> set ks = {} \<Longrightarrow> best_inv c1 c2 D b \<Longrightarrow>
    best_inv c1 c2 (D \<union> (set ks \<inter> common_servers c1 c2)) (min_loop c1 c2 lat ks b)"
proof (induction ks arbitrary: D b)
  case Nil
  then show ?case by simp
next
  case (Cons s ks)
  show ?case
  proof (cases "s \<in> common_servers c1 c2")
    case True
    let ?b = "consider_server (get0 lat s) (f32_add (get0 c1 s) (get0 c2 s)) s b"
    have "best_inv c1 c2 (insert s D) ?b"
      using consider_server_inv [OF fin Cons.prems(2) True _ Cons.prems(4)] Cons.prems(3) lat True by simp
    then have "best_inv c1 c2 (insert s D \<union> (set ks \<inter> common_servers c1 c2)) (min_loop c1 c2 lat ks ?b)"
      using Cons.prems True by (intro Cons.IH) auto
    with True show ?thesis by (simp add: min_loop_common del: min_loop.simps)
  next
    case False
    with Cons.IH [of D b] Cons.prems show ?thesis by (simp add: min_loop_other del: min_loop.simps)
  qed
qed

text \<open>The candidates when the loop ends are exactly the optimal servers.\<close>

definition candidates :: "map_orders \<Rightarrow> (string \<rightharpoonup> flt) \<Rightarrow> (string \<rightharpoonup> flt) \<Rightarrow> string list" where
  "candidates ord c1 c2 = minimized_latency_servers
     (min_loop c1 c2 (server_latency (order1 ord) (order2 ord) c1 c2) (order3 ord) init_best)"

lemma candidates_optimal:
  assumes "finite_delays c1" "finite_delays c2" "valid_orders ord c1 c2"
  shows "set (candidates ord c1 c2) = optimal_servers c1 c2"
    and "distinct (candidates ord c1 c2)"
    and "candidates ord c1 c2 = [] \<longleftrightarrow> common_servers c1 c2 = {}"
proof -
  let ?lat = "server_latency (order1 ord) (order2 ord) c1 c2"
  let ?b = "min_loop c1 c2 ?lat (order3 ord) init_best"
  have o: "map_order c1 (order1 ord)" "map_order c2 (order2 ord)" "distinct (order3 ord)"
      "set (order3 ord) = dom c1 \<union> dom c2"
    using assms(3) server_latency_dom [of c1 "order1 ord" c2 "order2 ord"]
    by (auto simp: valid_orders_def map_order_def)
  have "\<forall>s\<in>common_servers c1 c2. get0 ?lat s = f_max (get0 c1 s) (get0 c2 s)"
    using server_latency_common [OF o(1,2)] by (simp add: get0_def)
  from min_loop_inv [OF assms(1,2) this o(3), of "{}" init_best]
  have "best_inv c1 c2 (set (order3 ord) \<inter> common_servers c1 c2) ?b"
    by (simp add: best_inv_def)
  moreover have "set (order3 ord) \<inter> common_servers c1 c2 = common_servers c1 c2"
    by (auto simp: o(4) common_servers_def)
  ultimately have inv: "best_inv c1 c2 (common_servers c1 c2) ?b" by simp
  then show "set (candidates ord c1 c2) = optimal_servers c1 c2" "distinct (candidates ord c1 c2)"
    "candidates ord c1 c2 = [] \<longleftrightarrow> common_servers c1 c2 = {}"
    by (auto simp: best_inv_def candidates_def optimal_servers_def init_best_def split: if_splits)
qed

lemma compute_optimal_server_candidates:
  "compute_optimal_server ord seed c1 c2 =
    (if candidates ord c1 c2 = [] then Fail ''no server found''
     else Ret (candidates ord c1 c2 ! Intn seed (length (candidates ord c1 c2))))"
  by (auto simp: compute_optimal_server_def candidates_def Let_def Intn_def)

lemma Intn_less: "0 < n \<Longrightarrow> Intn seed n < n"
  by (simp add: Intn_def)

lemma compute_optimal_server_mem:
  assumes "finite_delays c1" "finite_delays c2" "valid_orders ord c1 c2"
    and "compute_optimal_server ord seed c1 c2 = Ret s"
  shows "s \<in> optimal_servers c1 c2"
proof -
  have "candidates ord c1 c2 \<noteq> []"
    and s: "s = candidates ord c1 c2 ! Intn seed (length (candidates ord c1 c2))"
    using assms(4) by (auto simp: compute_optimal_server_candidates split: if_splits)
  then have "s \<in> set (candidates ord c1 c2)" by (simp add: s Intn_less)
  with candidates_optimal(1) [OF assms(1-3)] show ?thesis by simp
qed


section \<open>Properties\<close>

text \<open>C2. The chosen server is one both clients report, and no other common server has a
  smaller worst latency; among those of equal worst latency none has a smaller sum
  (as \<^verbatim>\<open>float32\<close> adds it). This holds in whatever order the maps are visited and whatever
  the random draw. The comment of the function has a random choice among all servers of equal
  worst latency; the code draws among those of them with the smallest sum only.\<close>

theorem optimal_server_minimax:
  assumes "finite_delays c1" "finite_delays c2" "valid_orders ord c1 c2"
    and "compute_optimal_server ord seed c1 c2 = Ret s"
  shows "\<exists>a b. c1 s = Some (Fin a) \<and> c2 s = Some (Fin b) \<and>
    (\<forall>t a' b'. c1 t = Some (Fin a') \<and> c2 t = Some (Fin b') \<longrightarrow>
       max a b \<le> max a' b' \<and>
       (max a b = max a' b' \<longrightarrow> \<not> f_lt (f32_round (a' + b')) (f32_round (a + b))))"
proof -
  have opt: "s \<in> common_servers c1 c2" "\<forall>t\<in>common_servers c1 c2. cost c1 c2 s \<le> cost c1 c2 t"
    using compute_optimal_server_mem [OF assms] by (auto simp: optimal_servers_def minimizers_def)
  obtain a b where ab: "get0 c1 s = Fin a" "get0 c2 s = Fin b" "c1 s = Some (Fin a)" "c2 s = Some (Fin b)"
    using common_values [OF assms(1,2) opt(1)] by metis
  have "max a b \<le> max a' b' \<and>
      (max a b = max a' b' \<longrightarrow> \<not> f_lt (f32_round (a' + b')) (f32_round (a + b)))"
    if "c1 t = Some (Fin a')" "c2 t = Some (Fin b')" for t a' b'
  proof -
    have "t \<in> common_servers c1 c2" using that by (auto simp: common_servers_def)
    with opt(2) have "cost c1 c2 s \<le> cost c1 c2 t" by blast
    moreover have "get0 c1 t = Fin a'" "get0 c2 t = Fin b'" using that by (simp_all add: get0_def)
    ultimately show ?thesis using ab by (auto simp: cost_def f_lt_rank)
  qed
  with ab show ?thesis by blast
qed

lemma example_delays:
  "finite_delays [''s1'' \<mapsto> Fin 30, ''s2'' \<mapsto> Fin 50]"
  "finite_delays [''s1'' \<mapsto> Fin 70, ''s2'' \<mapsto> Fin 20]"
  "valid_orders \<lparr>order1 = [''s1'', ''s2''], order2 = [''s2'', ''s1''], order3 = [''s2'', ''s1'']\<rparr>
     [''s1'' \<mapsto> Fin 30, ''s2'' \<mapsto> Fin 50] [''s1'' \<mapsto> Fin 70, ''s2'' \<mapsto> Fin 20]"
  "compute_optimal_server
     \<lparr>order1 = [''s1'', ''s2''], order2 = [''s2'', ''s1''], order3 = [''s2'', ''s1'']\<rparr> 0
     [''s1'' \<mapsto> Fin 30, ''s2'' \<mapsto> Fin 50] [''s1'' \<mapsto> Fin 70, ''s2'' \<mapsto> Fin 20] = Ret ''s2''"
  by (auto simp: finite_delays_def f32_finite_small valid_orders_def map_order_def
      server_latency_def get0_def compute_optimal_server_def init_best_def Let_def max_f64_def
      split: if_splits)

theorem optimal_server_minimax_witness:
  "\<exists>a b. [''s1'' \<mapsto> Fin 30, ''s2'' \<mapsto> Fin 50] ''s2'' = Some (Fin a) \<and>
    [''s1'' \<mapsto> Fin 70, ''s2'' \<mapsto> Fin 20] ''s2'' = Some (Fin b) \<and>
    (\<forall>t a' b'. [''s1'' \<mapsto> Fin 30, ''s2'' \<mapsto> Fin 50] t = Some (Fin a') \<and>
       [''s1'' \<mapsto> Fin 70, ''s2'' \<mapsto> Fin 20] t = Some (Fin b') \<longrightarrow>
       max a b \<le> max a' b' \<and>
       (max a b = max a' b' \<longrightarrow> \<not> f_lt (f32_round (a' + b')) (f32_round (a + b))))"
  by (rule optimal_server_minimax [OF example_delays])

text \<open>C29. A server is returned exactly when the two delay lists have a server in common,
  and every optimal server is returned for some random draw; otherwise the error is
  ``no server found''.\<close>

theorem optimal_server_complete:
  assumes "finite_delays c1" "finite_delays c2" "valid_orders ord c1 c2"
  shows "(if dom c1 \<inter> dom c2 = {}
     then compute_optimal_server ord seed c1 c2 = Fail ''no server found''
     else \<exists>s\<in>optimal_servers c1 c2. compute_optimal_server ord seed c1 c2 = Ret s) \<and>
    (\<forall>s\<in>optimal_servers c1 c2. \<exists>seed'. compute_optimal_server ord seed' c1 c2 = Ret s)"
proof -
  let ?cs = "candidates ord c1 c2"
  note cand = candidates_optimal [OF assms]
  have "if dom c1 \<inter> dom c2 = {}
     then compute_optimal_server ord seed c1 c2 = Fail ''no server found''
     else \<exists>s\<in>optimal_servers c1 c2. compute_optimal_server ord seed c1 c2 = Ret s"
  proof (cases "?cs = []")
    case True
    with cand(3) show ?thesis by (simp add: compute_optimal_server_candidates common_servers_def)
  next
    case False
    then have "?cs ! Intn seed (length ?cs) \<in> optimal_servers c1 c2"
      using cand(1) Intn_less [of "length ?cs" seed] by (metis length_greater_0_conv nth_mem)
    with False cand(3) show ?thesis
      by (simp add: compute_optimal_server_candidates common_servers_def)
  qed
  moreover have "\<exists>seed'. compute_optimal_server ord seed' c1 c2 = Ret s"
    if "s \<in> optimal_servers c1 c2" for s
  proof -
    obtain i where "i < length ?cs" "?cs ! i = s"
      using \<open>s \<in> optimal_servers c1 c2\<close> cand(1) by (metis in_set_conv_nth)
    then show ?thesis
      by (intro exI [of _ i]) (auto simp: compute_optimal_server_candidates Intn_def)
  qed
  ultimately show ?thesis by blast
qed

theorem optimal_server_complete_witness:
  "\<exists>s\<in>optimal_servers [''s1'' \<mapsto> Fin 30, ''s2'' \<mapsto> Fin 50] [''s1'' \<mapsto> Fin 70, ''s2'' \<mapsto> Fin 20].
     compute_optimal_server
       \<lparr>order1 = [''s1'', ''s2''], order2 = [''s2'', ''s1''], order3 = [''s2'', ''s1'']\<rparr> 7
       [''s1'' \<mapsto> Fin 30, ''s2'' \<mapsto> Fin 50] [''s1'' \<mapsto> Fin 70, ''s2'' \<mapsto> Fin 20] = Ret s"
  using optimal_server_complete [OF example_delays(1-3), of 7] by auto

text \<open>A client records \<^verbatim>\<open>math.MaxFloat32\<close> for a server it cannot reach. Such a server
  is chosen only when every common server is out of reach of one of the two clients.\<close>

lemma unreachable_only_as_last_resort:
  assumes "finite_delays c1" "finite_delays c2" "valid_orders ord c1 c2"
    and "compute_optimal_server ord seed c1 c2 = Ret s"
    and "c1 s = Some (Fin max_f32) \<or> c2 s = Some (Fin max_f32)"
    and "t \<in> dom c1 \<inter> dom c2"
  shows "c1 t = Some (Fin max_f32) \<or> c2 t = Some (Fin max_f32)"
proof -
  have opt: "s \<in> common_servers c1 c2" "\<forall>t\<in>common_servers c1 c2. cost c1 c2 s \<le> cost c1 c2 t"
    using compute_optimal_server_mem [OF assms(1-4)] by (auto simp: optimal_servers_def minimizers_def)
  have t: "t \<in> common_servers c1 c2" using assms(6) by (simp add: common_servers_def)
  obtain a b where ab: "get0 c1 s = Fin a" "get0 c2 s = Fin b" "c1 s = Some (Fin a)" "c2 s = Some (Fin b)"
    using common_values [OF assms(1,2) opt(1)] by metis
  obtain a' b' where ab': "get0 c1 t = Fin a'" "get0 c2 t = Fin b'" "c1 t = Some (Fin a')"
      "c2 t = Some (Fin b')" "\<bar>a'\<bar> \<le> max_f32" "\<bar>b'\<bar> \<le> max_f32"
    using common_values [OF assms(1,2) t] by metis
  have "max a b \<le> max a' b'"
    using opt(2) t ab ab' by (auto simp: cost_def)
  moreover have "max_f32 \<le> max a b" using assms(5) ab by auto
  ultimately have "a' = max_f32 \<or> b' = max_f32" using ab'(5,6) by linarith
  with ab' show ?thesis by simp
qed

lemma example_unreachable:
  "finite_delays [''s1'' \<mapsto> Fin max_f32]"
  "valid_orders \<lparr>order1 = [''s1''], order2 = [''s1''], order3 = [''s1'']\<rparr>
     [''s1'' \<mapsto> Fin max_f32] [''s1'' \<mapsto> Fin max_f32]"
  "compute_optimal_server \<lparr>order1 = [''s1''], order2 = [''s1''], order3 = [''s1'']\<rparr> 0
     [''s1'' \<mapsto> Fin max_f32] [''s1'' \<mapsto> Fin max_f32] = Ret ''s1''"
  using f32_finite_max max_f32_less_max_f64
  by (auto simp: finite_delays_def valid_orders_def map_order_def server_latency_def get0_def
      compute_optimal_server_def init_best_def Let_def split: if_splits)

end
