(* ===== verification/Matchmaking.thy ===== *)
theory Matchmaking
  imports Client_Store Optimal_Server
begin

text \<open>
  The matchmaking server, \<^verbatim>\<open>Central/internal/matchmaking/matchmaking.go\<close>: one TCP session
  per requesting client (\<^verbatim>\<open>handleConnection\<close>) with the goroutine that asks the requested
  client (\<^verbatim>\<open>requestMatch\<close>), and the room identifiers.

  What a session takes from its environment is a record \<open>conn_env\<close>: what its reads deliver,
  whether the dial succeeds, how often the poll loop finds the channel empty, the random
  draws, and what the other goroutines do to the shared store before each of its accesses
  (\<open>interf\<close>, an arbitrary store transformer). What it writes to the two connections is
  recorded in order.
\<close>

section \<open>Messages\<close>

abbreviation nl :: string where "nl \<equiv> [CHR 0x0A]"

definition ACK_CONN :: string where "ACK_CONN = ''ACK'' @ nl"
definition MSG_REQ_SENT :: string where "MSG_REQ_SENT = ''REQ_SENT'' @ nl"
definition AWAITING_REQ :: string where "AWAITING_REQ = ''AWAITING_REQ'' @ nl"
definition USER_NOT_FOUND :: string where "USER_NOT_FOUND = ''USER_NOT_FOUND'' @ nl"
definition REQ_ACCEPTED :: string where "REQ_ACCEPTED = ''REQ_ACCEPTED'' @ nl"
definition ACCEPT_REQ :: string where "ACCEPT_REQ = ''ACCEPT_REQ''"
definition SERVER_ERROR :: string where "SERVER_ERROR = ''SERVER_ERROR'' @ nl"
definition UNAUTHORIZED :: string where "UNAUTHORIZED = ''Unauthorized'' @ nl"
definition MATCH_DECLINED :: string where "MATCH_DECLINED = ''Match declined''"

lemmas message_defs = ACK_CONN_def MSG_REQ_SENT_def AWAITING_REQ_def USER_NOT_FOUND_def
  REQ_ACCEPTED_def ACCEPT_REQ_def SERVER_ERROR_def UNAUTHORIZED_def MATCH_DECLINED_def

section \<open>Addresses and room identifiers\<close>

definition remote_ip :: "string \<Rightarrow> string" where
  "remote_ip clientAddr =
     (if contains_char clientAddr (CHR ''['')
      then trim_char (hd (split_on (CHR '']'') clientAddr)) (CHR ''['')
      else hd (split_on (CHR '':'') clientAddr))"

text \<open>Decimal digits, padded with zeros to a width, as \<^verbatim>\<open>time.Format\<close> prints them.\<close>

definition digit :: "nat \<Rightarrow> char" where
  "digit d = ''0123456789'' ! d"

fun pad_dec :: "nat \<Rightarrow> nat \<Rightarrow> string" where
  "pad_dec 0 n = []"
| "pad_dec (Suc w) n = pad_dec w (n div 10) @ [digit (n mod 10)]"

record civil_time =
  year :: nat
  month :: nat
  day :: nat
  hour :: nat
  minute :: nat
  sec :: nat

definition format_time :: "civil_time \<Rightarrow> string" where
  "format_time t = pad_dec 4 (year t) @ pad_dec 2 (month t) @ pad_dec 2 (day t) @
     pad_dec 2 (hour t) @ pad_dec 2 (minute t) @ pad_dec 2 (sec t)"

definition hex_digit :: "8 word \<Rightarrow> char" where
  "hex_digit w = ''0123456789abcdef'' ! unat w"

definition hex_encode :: "8 word list \<Rightarrow> string" where
  "hex_encode bs = concat (map (\<lambda>b. [hex_digit (b div 16), hex_digit (b mod 16)]) bs)"

text \<open>\<open>rnd\<close> is what \<^verbatim>\<open>rand.Read\<close> filled in, \<^term>\<open>None\<close> when it failed.\<close>

definition generateRoomId :: "civil_time \<Rightarrow> 8 word list option \<Rightarrow> string result" where
  "generateRoomId now rnd = (case rnd of
       None \<Rightarrow> Panic
     | Some randomBytes \<Rightarrow> Ret (format_time now @ ''-'' @ hex_encode randomBytes))"

definition match_response :: "string \<Rightarrow> string \<Rightarrow> string" where
  "match_response serverIP roomId = ''IP:'' @ serverIP @ nl @ ''RoomID:'' @ roomId @ nl"

section \<open>A session\<close>

record session =
  store :: client_store
  sent_conn :: "string list"
  sent_peer :: "string list"

definition send_conn :: "string \<Rightarrow> session \<Rightarrow> session" where
  "send_conn m s = s\<lparr>sent_conn := sent_conn s @ [m]\<rparr>"

definition send_peer :: "string \<Rightarrow> session \<Rightarrow> session" where
  "send_peer m s = s\<lparr>sent_peer := sent_peer s @ [m]\<rparr>"

text \<open>The one-line senders; \<^verbatim>\<open>ServerError\<close> is used on both connections.\<close>

definition AcknowledgeConnection :: "session \<Rightarrow> session" where
  [simp]: "AcknowledgeConnection = send_conn ACK_CONN"

definition RequestSent :: "session \<Rightarrow> session" where
  [simp]: "RequestSent = send_conn MSG_REQ_SENT"

definition AwaitingRequest :: "session \<Rightarrow> session" where
  [simp]: "AwaitingRequest = send_conn AWAITING_REQ"

definition UserNotFound :: "session \<Rightarrow> session" where
  [simp]: "UserNotFound = send_conn USER_NOT_FOUND"

definition RequestAccepted :: "session \<Rightarrow> session" where
  [simp]: "RequestAccepted = send_conn REQ_ACCEPTED"

definition ServerError :: "(string \<Rightarrow> session \<Rightarrow> session) \<Rightarrow> session \<Rightarrow> session" where
  [simp]: "ServerError conn = conn SERVER_ERROR"

record match_reply =
  write_ok :: bool
  response :: "string result"

record conn_env =
  remote_addr :: string
  name_read :: "string result"
  interf :: "nat \<Rightarrow> client_store \<Rightarrow> client_store"
  by_name_order :: "client_store \<Rightarrow> string list"
  dial_ok :: "string \<Rightarrow> bool"
  polls :: nat
  reply :: "match_reply option"
  env_orders :: map_orders
  env_seed :: nat
  env_time :: civil_time
  env_random :: "8 word list option"
  env_growth :: nat

definition interfere :: "conn_env \<Rightarrow> nat \<Rightarrow> session \<Rightarrow> session" where
  "interfere env k s = s\<lparr>store := interf env k (store s)\<rparr>"

definition GetRequestedUsername :: "string result \<Rightarrow> string" where
  "GetRequestedUsername rd = (case rd of Ret buf \<Rightarrow> trim_space buf | Fail e \<Rightarrow> '''' | Panic \<Rightarrow> '''')"

text \<open>
  \<^verbatim>\<open>requestMatch\<close>: what it writes to the requested client, and what it sends on the
  channel once that client has answered.
\<close>

definition requestMatch :: "string \<Rightarrow> match_reply \<Rightarrow> string list \<times> string" where
  "requestMatch username r =
     (if \<not> write_ok r then ([], MATCH_DECLINED)
      else ([username @ nl],
        (case response r of
           Ret buf \<Rightarrow> if trim_space buf = ACCEPT_REQ then ACCEPT_REQ else MATCH_DECLINED
         | Fail e \<Rightarrow> MATCH_DECLINED
         | Panic \<Rightarrow> MATCH_DECLINED)))"

datatype handler_end = Returned | Waiting

text \<open>
  The poll loop: \<open>n\<close> times the channel is empty, then it delivers \<open>r\<close>; with no answer
  from the peer the loop goes on, and the session is still \<open>Waiting\<close> after \<open>n\<close> turns.
\<close>

fun await_result :: "nat \<Rightarrow> string option \<Rightarrow> session \<Rightarrow> handler_end \<times> session" where
  "await_result (Suc n) r s = await_result n r (AwaitingRequest s)"
| "await_result 0 None s = (Waiting, s)"
| "await_result 0 (Some result) s =
     (if result = ACCEPT_REQ then (Returned, RequestAccepted s)
      else (Returned, UserNotFound s))"

text \<open>The end of the handler: routing both clients to a server.\<close>

definition server_error :: "session \<Rightarrow> session" where
  "server_error s = ServerError send_peer (ServerError send_conn s)"

definition route_match ::
    "conn_env \<Rightarrow> string \<Rightarrow> string \<Rightarrow> session \<Rightarrow> handler_end result \<times> session" where
  "route_match env username req_user s =
     (let s1 = interfere env 2 s;
          client1Delay = cs_GetDelayList username (store s1);
          s2 = interfere env 3 s1;
          client2Delay = cs_GetDelayList req_user (store s2) in
      case (client1Delay, client2Delay) of
        (Ret c1, Ret c2) \<Rightarrow>
          (case compute_optimal_server (env_orders env) (env_seed env) c1 c2 of
             Ret serverIP \<Rightarrow>
               (case generateRoomId (env_time env) (env_random env) of
                  Ret roomId \<Rightarrow>
                    (let msg = match_response serverIP roomId;
                         s3 = interfere env 4 (send_peer msg (send_conn msg s2)) in
                     (Ret Returned, s3\<lparr>store := snd (cs_InsertChatInstance (env_growth env)
                         roomId serverIP [username, req_user] (store s3))\<rparr>))
                | Fail e \<Rightarrow> (Fail e, s2)
                | Panic \<Rightarrow> (Panic, s2))
           | _ \<Rightarrow> (Ret Returned, server_error s2))
      | _ \<Rightarrow> (Ret Returned, server_error s2))"

text \<open>From the established connection to the requested client on.\<close>

definition ask_peer ::
    "conn_env \<Rightarrow> string \<Rightarrow> string \<Rightarrow> session \<Rightarrow> handler_end result \<times> session" where
  "ask_peer env username req_user s =
     (let goroutine = map_option (requestMatch username) (reply env);
          s1 = (case goroutine of Some (ws, _) \<Rightarrow> fold send_peer ws s
                | None \<Rightarrow> send_peer (username @ nl) s) in
      case await_result (polls env) (map_option snd goroutine) (RequestSent s1) of
        (Waiting, s2) \<Rightarrow> (Ret Waiting, s2)
      | (Returned, s2) \<Rightarrow> route_match env username req_user s2)"

definition handleConnection :: "conn_env \<Rightarrow> session \<Rightarrow> handler_end result \<times> session" where
  "handleConnection env s0 =
     (let clientIP = remote_ip (remote_addr env); s1 = interfere env 0 s0 in
      case cs_Read clientIP (store s1) of
        Ret username \<Rightarrow>
          if username = '''' then (Ret Returned, send_conn UNAUTHORIZED s1) else
          (let req_user = GetRequestedUsername (name_read env) in
           if req_user = '''' then (Ret Returned, UserNotFound s1) else
           (let s2 = interfere env 1 (AcknowledgeConnection s1) in
            case cs_ReadByUsername (by_name_order env (store s2)) req_user (store s2) of
              Ret ip \<Rightarrow>
                (let req_user_ip = (if ip = ''::1'' then ''localhost'' else ip) in
                 if \<not> dial_ok env (req_user_ip @ '':3001'') then (Ret Returned, s2) else
                 ask_peer env username req_user s2)
            | _ \<Rightarrow> (Ret Returned, UserNotFound s2)))
      | _ \<Rightarrow> (Ret Returned, send_conn UNAUTHORIZED s1))"


section \<open>Identifiers\<close>

lemma length_pad_dec [simp]: "length (pad_dec w n) = w"
  by (induction w arbitrary: n) auto

lemma digit_in: "d < 10 \<Longrightarrow> digit d \<in> set ''0123456789''"
  unfolding digit_def by (rule nth_mem) simp

lemma set_pad_dec: "set (pad_dec w n) \<subseteq> set ''0123456789''"
proof (induction w arbitrary: n)
  case (Suc w)
  have "digit (n mod 10) \<in> set ''0123456789''" by (rule digit_in) simp
  with Suc show ?case by simp
qed simp

lemma hex_nibbles: "unat (b div 16 :: 8 word) < 16" "unat (b mod 16 :: 8 word) < 16"
proof -
  have "unat b < 256" using unsigned_less [where 'a = nat, of b] by simp
  then show "unat (b div 16 :: 8 word) < 16" "unat (b mod 16 :: 8 word) < 16"
    by (simp_all add: unat_div unat_mod less_mult_imp_div_less)
qed

lemma hex_digit_in: "unat w < 16 \<Longrightarrow> hex_digit w \<in> set ''0123456789abcdef''"
  unfolding hex_digit_def by (rule nth_mem) simp

lemma hex_digit_inj: "unat v < 16 \<Longrightarrow> unat w < 16 \<Longrightarrow> hex_digit v = hex_digit w \<Longrightarrow> v = w"
proof -
  have "distinct ''0123456789abcdef''" by simp
  then show "unat v < 16 \<Longrightarrow> unat w < 16 \<Longrightarrow> hex_digit v = hex_digit w \<Longrightarrow> v = w"
    unfolding hex_digit_def by (subst (asm) nth_eq_iff_index_eq) (auto intro: unsigned_word_eqI)
qed

lemma length_hex_encode [simp]: "length (hex_encode bs) = 2 * length bs"
  by (induction bs) (simp_all add: hex_encode_def)

lemma set_hex_encode: "set (hex_encode bs) \<subseteq> set ''0123456789abcdef''"
proof (induction bs)
  case (Cons b bs)
  have "hex_digit (b div 16) \<in> set ''0123456789abcdef''" "hex_digit (b mod 16) \<in> set ''0123456789abcdef''"
    using hex_digit_in hex_nibbles by blast+
  with Cons show ?case by (simp add: hex_encode_def)
qed (simp add: hex_encode_def)

lemma hex_encode_inj: "hex_encode bs = hex_encode cs \<Longrightarrow> bs = cs"
proof (induction bs arbitrary: cs)
  case Nil
  then show ?case by (cases cs) (simp_all add: hex_encode_def)
next
  case (Cons b bs)
  then obtain c cs' where cs: "cs = c # cs'" by (cases cs) (simp_all add: hex_encode_def)
  with Cons.prems have "hex_digit (b div 16) = hex_digit (c div 16)"
      "hex_digit (b mod 16) = hex_digit (c mod 16)" "hex_encode bs = hex_encode cs'"
    by (simp_all add: hex_encode_def)
  then have "b div 16 = c div 16" "b mod 16 = c mod 16" "bs = cs'"
    using hex_digit_inj hex_nibbles Cons.IH by blast+
  then show ?case using cs by (metis div_mult_mod_eq)
qed

section \<open>Sessions\<close>

lemma await_result_eq:
  "await_result n r s =
    (let s' = s\<lparr>sent_conn := sent_conn s @ replicate n AWAITING_REQ\<rparr> in
     case r of None \<Rightarrow> (Waiting, s')
     | Some res \<Rightarrow> (Returned,
         send_conn (if res = ACCEPT_REQ then REQ_ACCEPTED else USER_NOT_FOUND) s'))"
proof (induction n arbitrary: s)
  case 0
  then show ?case by (cases r) (simp_all add: Let_def)
next
  case (Suc n)
  then show ?case by (cases r) (simp_all add: send_conn_def Let_def)
qed

lemma send_frames [simp]:
  "store (send_conn m s) = store s" "sent_conn (send_conn m s) = sent_conn s @ [m]"
  "sent_peer (send_conn m s) = sent_peer s" "store (send_peer m s) = store s"
  "sent_conn (send_peer m s) = sent_conn s" "sent_peer (send_peer m s) = sent_peer s @ [m]"
  "sent_conn (interfere env k s) = sent_conn s" "sent_peer (interfere env k s) = sent_peer s"
  by (simp_all add: send_conn_def send_peer_def interfere_def)

lemma send_peers [simp]:
  "store (fold send_peer ws s) = store s" "sent_conn (fold send_peer ws s) = sent_conn s"
  "sent_peer (fold send_peer ws s) = sent_peer s @ ws"
  by (induction ws arbitrary: s) simp_all

text \<open>What \<open>route_match\<close> adds to what the requester has been sent.\<close>

lemma route_match_sent:
  assumes "route_match env u v s = (r, s')"
  shows "(r = Ret Returned \<and> (sent_conn s' = sent_conn s @ [SERVER_ERROR] \<or>
      (\<exists>srv room. sent_conn s' = sent_conn s @ [match_response srv room]))) \<or>
    (r \<noteq> Ret Returned \<and> r \<noteq> Ret Waiting \<and> sent_conn s' = sent_conn s)"
  using assms
  by (auto simp: route_match_def server_error_def Let_def split: result.splits; blast)

text \<open>
  The words of the protocol: what a session has written to the requester when it ends,
  or while it still waits for the requested client.
\<close>

definition verdict_tail :: "string list \<Rightarrow> bool" where
  "verdict_tail rest \<longleftrightarrow> rest = [] \<or>
     (\<exists>v\<in>{REQ_ACCEPTED, USER_NOT_FOUND}. rest = [v] \<or> rest = [v, SERVER_ERROR] \<or>
        (\<exists>srv room. rest = [v, match_response srv room]))"

definition session_trace :: "string list \<Rightarrow> bool" where
  "session_trace tr \<longleftrightarrow>
     tr \<in> {[UNAUTHORIZED], [USER_NOT_FOUND], [ACK_CONN], [ACK_CONN, USER_NOT_FOUND]} \<or>
     (\<exists>n rest. tr = ACK_CONN # MSG_REQ_SENT # replicate n AWAITING_REQ @ rest \<and> verdict_tail rest)"

definition fresh_session :: "client_store \<Rightarrow> session" where
  "fresh_session st = \<lparr>store = st, sent_conn = [], sent_peer = []\<rparr>"

lemma fresh_session_simps [simp]:
  "store (fresh_session st) = st" "sent_conn (fresh_session st) = []"
  "sent_peer (fresh_session st) = []"
  by (simp_all add: fresh_session_def)

text \<open>The session of a peer that answers, with the answer's verdict.\<close>

definition verdict :: "string \<Rightarrow> match_reply \<Rightarrow> string" where
  "verdict u rep = (if snd (requestMatch u rep) = ACCEPT_REQ then REQ_ACCEPTED else USER_NOT_FOUND)"

lemma fold_send_peer: "fold send_peer ws s = s\<lparr>sent_peer := sent_peer s @ ws\<rparr>"
  by (induction ws arbitrary: s) (simp_all add: send_peer_def)

lemma ask_peer_answered:
  assumes "reply env = Some rep"
  shows "ask_peer env u v s = route_match env u v
    (s\<lparr>sent_conn := sent_conn s @ MSG_REQ_SENT # replicate (polls env) AWAITING_REQ @ [verdict u rep],
       sent_peer := sent_peer s @ fst (requestMatch u rep)\<rparr>)"
proof -
  obtain ws ch where rm: "requestMatch u rep = (ws, ch)" by fastforce
  have swap: "s\<lparr>sent_peer := p, sent_conn := c\<rparr> = s\<lparr>sent_conn := c, sent_peer := p\<rparr>" for p c
    by (cases s) simp
  from assms rm show ?thesis
    by (simp add: ask_peer_def await_result_eq verdict_def send_conn_def fold_send_peer swap Let_def)
qed

lemma ask_peer_waiting:
  "reply env = None \<Longrightarrow> ask_peer env u v s = (Ret Waiting,
    s\<lparr>sent_conn := sent_conn s @ MSG_REQ_SENT # replicate (polls env) AWAITING_REQ,
      sent_peer := sent_peer s @ [u @ nl]\<rparr>)"
  by (simp add: ask_peer_def await_result_eq send_conn_def send_peer_def Let_def)

lemma ask_peer_trace:
  assumes "ask_peer env u v s = (r, s')" "sent_conn s = [ACK_CONN]"
  shows "session_trace (sent_conn s')"
proof -
  have "\<exists>n rest. sent_conn s' = ACK_CONN # MSG_REQ_SENT # replicate n AWAITING_REQ @ rest \<and> verdict_tail rest"
  proof (cases "reply env")
    case None
    with assms have "sent_conn s' = ACK_CONN # MSG_REQ_SENT # replicate (polls env) AWAITING_REQ @ []"
      by (auto simp: ask_peer_waiting)
    moreover have "verdict_tail []" by (simp add: verdict_tail_def)
    ultimately show ?thesis by blast
  next
    case (Some rep)
    let ?v = "verdict u rep"
    let ?s = "s\<lparr>sent_conn := sent_conn s @ MSG_REQ_SENT # replicate (polls env) AWAITING_REQ @ [?v],
       sent_peer := sent_peer s @ fst (requestMatch u rep)\<rparr>"
    have "route_match env u v ?s = (r, s')"
      using assms(1) ask_peer_answered [OF Some] by simp
    from route_match_sent [OF this] obtain rest where
      rest: "sent_conn s' = sent_conn ?s @ rest" "rest = [] \<or> rest = [SERVER_ERROR] \<or> (\<exists>srv room. rest = [match_response srv room])"
      by (metis append.right_neutral)
    then have "sent_conn s' = ACK_CONN # MSG_REQ_SENT # replicate (polls env) AWAITING_REQ @ ?v # rest"
      using assms(2) by simp
    moreover have "verdict_tail (?v # rest)"
      using rest(2) by (auto simp: verdict_tail_def verdict_def)
    ultimately show ?thesis by blast
  qed
  then show ?thesis by (simp add: session_trace_def)
qed

text \<open>A session without interference that reaches the routing.\<close>

lemma handleConnection_to_peer:
  assumes "interf env = (\<lambda>_ s. s)" "store_inv st" "map_order (data st) (by_name_order env st)"
    and "data st (remote_ip (remote_addr env)) = Some u" "u \<noteq> ''''"
    and "GetRequestedUsername (name_read env) = v" "v \<noteq> ''''" "data st ip = Some v"
    and "dial_ok env ((if ip = ''::1'' then ''localhost'' else ip) @ '':3001'')"
  shows "handleConnection env (fresh_session st) =
    ask_peer env u v ((fresh_session st)\<lparr>sent_conn := [ACK_CONN]\<rparr>)"
proof -
  have id: "interfere env k s = s" for k s using assms(1) by (simp add: interfere_def)
  have "cs_ReadByUsername (by_name_order env st) v st = Ret ip"
    using cs_ReadByUsername_iff [OF assms(2,3)] assms(8) by simp
  with assms(4-9) show ?thesis
    by (simp add: handleConnection_def id Let_def cs_Read_def send_conn_def)
qed

lemma route_match_success:
  assumes "interf env = (\<lambda>_ s. s)" "store_inv (store s)"
    and "delay_lists (store s) u = Some c1" "delay_lists (store s) v = Some c2"
    and "compute_optimal_server (env_orders env) (env_seed env) c1 c2 = Ret srv"
    and "generateRoomId (env_time env) (env_random env) = Ret room"
  obtains st' where "route_match env u v s = (Ret Returned,
      s\<lparr>store := st', sent_conn := sent_conn s @ [match_response srv room],
        sent_peer := sent_peer s @ [match_response srv room]\<rparr>)"
    and "store_inv st'" "rooms st' = rooms (store s) @ [new_instance room srv [u, v]]"
    and "data st' = data (store s)" "delay_lists st' = delay_lists (store s)"
proof -
  have id: "interfere env k s = s" for k s using assms(1) by (simp add: interfere_def)
  obtain st' where st': "cs_InsertChatInstance (env_growth env) room srv [u, v] (store s) = (Ret room, st')"
      "store_inv st'" "rooms st' = rooms (store s) @ [new_instance room srv [u, v]]"
      "data st' = data (store s)" "delay_lists st' = delay_lists (store s)"
    using cs_InsertChatInstance_spec [OF assms(2)] unfolding new_instance_def by metis
  show thesis
  proof (rule that [of st'])
    show "route_match env u v s = (Ret Returned,
      s\<lparr>store := st', sent_conn := sent_conn s @ [match_response srv room],
        sent_peer := sent_peer s @ [match_response srv room]\<rparr>)"
      using assms(3-6) st'(1)
      by (simp add: route_match_def id Let_def cs_GetDelayList_def send_conn_def send_peer_def)
  qed (use st' in auto)
qed

section \<open>A concrete session\<close>

definition example_store :: client_store where
  "example_store = new_client_store
     \<lparr>data := [''10.0.0.1'' \<mapsto> ''alice'', ''10.0.0.2'' \<mapsto> ''bob''],
      delay_lists := [''alice'' \<mapsto> [''10.0.0.3'' \<mapsto> Fin 30], ''bob'' \<mapsto> [''10.0.0.3'' \<mapsto> Fin 20]]\<rparr>"

definition example_env :: "string \<Rightarrow> conn_env" where
  "example_env answer =
     \<lparr>remote_addr = ''10.0.0.1:51234'', name_read = Ret ''bob'', interf = (\<lambda>_ s. s),
      by_name_order = (\<lambda>_. [''10.0.0.1'', ''10.0.0.2'']), dial_ok = (\<lambda>_. True), polls = 2,
      reply = Some \<lparr>write_ok = True, response = Ret answer\<rparr>,
      env_orders = \<lparr>order1 = [''10.0.0.3''], order2 = [''10.0.0.3''], order3 = [''10.0.0.3'']\<rparr>,
      env_seed = 0, env_time = \<lparr>year = 2024, month = 12, day = 5, hour = 9, minute = 30, sec = 0\<rparr>,
      env_random = Some (replicate 16 7), env_growth = 0\<rparr>"

lemma example_store_inv: "store_inv example_store"
  and example_store_order: "map_order (data example_store) [''10.0.0.1'', ''10.0.0.2'']"
proof -
  have "store_inv (new_client_store\<lparr>data := [''10.0.0.1'' \<mapsto> ''alice'', ''10.0.0.2'' \<mapsto> ''bob'']\<rparr>)"
    using slice_wf_new by (auto simp: store_inv_def inj_on_def)
  then show "store_inv example_store" by (simp add: example_store_def)
  show "map_order (data example_store) [''10.0.0.1'', ''10.0.0.2'']"
    by (auto simp: example_store_def map_order_def)
qed

lemma example_delay_lists:
  "delay_lists example_store ''alice'' = Some [''10.0.0.3'' \<mapsto> Fin 30]"
  "delay_lists example_store ''bob'' = Some [''10.0.0.3'' \<mapsto> Fin 20]"
  "finite_delays [''10.0.0.3'' \<mapsto> Fin 30]" "finite_delays [''10.0.0.3'' \<mapsto> Fin 20]"
  "valid_orders (env_orders (example_env a)) [''10.0.0.3'' \<mapsto> Fin 30] [''10.0.0.3'' \<mapsto> Fin 20]"
  by (auto simp: example_store_def example_env_def finite_delays_def f32_finite_small
      valid_orders_def map_order_def server_latency_def get0_def split: if_splits)

lemma example_env_simps:
  "interf (example_env a) = (\<lambda>_ s. s)"
  "by_name_order (example_env a) example_store = [''10.0.0.1'', ''10.0.0.2'']"
  "data example_store (remote_ip (remote_addr (example_env a))) = Some ''alice''"
  "GetRequestedUsername (name_read (example_env a)) = ''bob''"
  "data example_store ''10.0.0.2'' = Some ''bob''"
  "dial_ok (example_env a) x"
  "reply (example_env a) = Some \<lparr>write_ok = True, response = Ret a\<rparr>"
  "env_random (example_env a) = Some (replicate 16 7)"
  by (simp_all add: example_env_def example_store_def remote_ip_def contains_char_def
      GetRequestedUsername_def go_string plain_first_def plain_last_def space_encodings_def)

lemma example_accept: "snd (requestMatch ''alice'' \<lparr>write_ok = True, response = Ret (ACCEPT_REQ @ nl)\<rparr>) = ACCEPT_REQ"
  and example_decline: "snd (requestMatch ''alice'' \<lparr>write_ok = True, response = Ret ''no''\<rparr>) \<noteq> ACCEPT_REQ"
proof -
  have "trim_space (ACCEPT_REQ @ nl) = ACCEPT_REQ"
    by (rule trim_space_newline)
      (simp_all add: ACCEPT_REQ_def plain_first_def plain_last_def space_encodings_def)
  moreover have "trim_space ''no'' = ''no''"
    by (rule trim_space_plain) (simp_all add: plain_first_def plain_last_def space_encodings_def)
  ultimately show "snd (requestMatch ''alice'' \<lparr>write_ok = True, response = Ret (ACCEPT_REQ @ nl)\<rparr>) = ACCEPT_REQ"
    "snd (requestMatch ''alice'' \<lparr>write_ok = True, response = Ret ''no''\<rparr>) \<noteq> ACCEPT_REQ"
    by (simp_all add: requestMatch_def ACCEPT_REQ_def MATCH_DECLINED_def)
qed

text \<open>A session whose peer answers, from the first read to the inserted room.\<close>

lemma answered_session:
  assumes "interf env = (\<lambda>_ s. s)" "store_inv st" "map_order (data st) (by_name_order env st)"
    and "data st (remote_ip (remote_addr env)) = Some u" "u \<noteq> ''''"
    and "GetRequestedUsername (name_read env) = v" "v \<noteq> ''''" "data st ip = Some v"
    and "dial_ok env ((if ip = ''::1'' then ''localhost'' else ip) @ '':3001'')"
    and "reply env = Some rep"
    and "delay_lists st u = Some c1" "delay_lists st v = Some c2"
    and "finite_delays c1" "finite_delays c2" "valid_orders (env_orders env) c1 c2"
    and "dom c1 \<inter> dom c2 \<noteq> {}" "env_random env = Some bytes"
  shows "\<exists>srv room st'. srv \<in> optimal_servers c1 c2 \<and>
    generateRoomId (env_time env) (Some bytes) = Ret room \<and>
    handleConnection env (fresh_session st) = (Ret Returned,
      \<lparr>store = st',
       sent_conn = ACK_CONN # MSG_REQ_SENT # replicate (polls env) AWAITING_REQ @
         [verdict u rep, match_response srv room],
       sent_peer = fst (requestMatch u rep) @ [match_response srv room]\<rparr>) \<and>
    rooms st' = rooms st @ [new_instance room srv [u, v]] \<and> data st' = data st"
proof -
  obtain srv where srv: "srv \<in> optimal_servers c1 c2"
      "compute_optimal_server (env_orders env) (env_seed env) c1 c2 = Ret srv"
  proof -
    have "candidates (env_orders env) c1 c2 \<noteq> []"
      using candidates_optimal(3) [OF assms(13-15)] assms(16) by (simp add: common_servers_def)
    then show thesis
      using that compute_optimal_server_mem [OF assms(13-15)]
      by (auto simp: compute_optimal_server_candidates)
  qed
  obtain room where room: "generateRoomId (env_time env) (env_random env) = Ret room"
    using assms(17) by (simp add: generateRoomId_def)
  let ?s = "(fresh_session st)\<lparr>sent_conn := [ACK_CONN]\<rparr>"
  let ?t = "?s\<lparr>sent_conn := sent_conn ?s @ MSG_REQ_SENT # replicate (polls env) AWAITING_REQ @ [verdict u rep],
       sent_peer := sent_peer ?s @ fst (requestMatch u rep)\<rparr>"
  have t: "store_inv (store ?t)" "delay_lists (store ?t) u = Some c1" "delay_lists (store ?t) v = Some c2"
    using assms(2,11,12) by simp_all
  have "handleConnection env (fresh_session st) = route_match env u v ?t"
    using handleConnection_to_peer [OF assms(1-9)] ask_peer_answered [OF assms(10)] by simp
  moreover obtain st' where "route_match env u v ?t = (Ret Returned,
      ?t\<lparr>store := st', sent_conn := sent_conn ?t @ [match_response srv room],
        sent_peer := sent_peer ?t @ [match_response srv room]\<rparr>)"
    and "rooms st' = rooms (store ?t) @ [new_instance room srv [u, v]]" "data st' = data (store ?t)"
    using route_match_success [OF assms(1) t srv(2) room] by metis
  ultimately show ?thesis
    using srv(1) room assms(17)
    by (intro exI [of _ srv] exI [of _ room] exI [of _ st']) (simp add: fresh_session_def)
qed

lemma handleConnection_trace:
  "session_trace (sent_conn (snd (handleConnection env (fresh_session st))))"
proof -
  let ?s = "interfere env 1 (send_conn ACK_CONN (interfere env 0 (fresh_session st)))"
  have ack: "sent_conn ?s = [ACK_CONN]" by simp
  have "session_trace (sent_conn (snd (ask_peer env u v ?s)))" for u v
    by (rule ask_peer_trace [OF _ ack, where r = "fst (ask_peer env u v ?s)"]) (rule prod.collapse [symmetric])
  then show ?thesis
    by (simp add: handleConnection_def Let_def session_trace_def [of "[_]"] session_trace_def [of "[_, _]"]
        split: result.split)
qed

lemma room_id_chars:
  assumes "generateRoomId now (Some bs) = Ret room"
  shows "set room \<subseteq> set ''0123456789abcdef-''"
proof -
  have room: "room = format_time now @ ''-'' @ hex_encode bs"
    using assms by (simp add: generateRoomId_def)
  have "set (format_time now) \<subseteq> set ''0123456789''"
    unfolding format_time_def set_append by (intro Un_least set_pad_dec)
  moreover have "set ''0123456789'' \<subseteq> set ''0123456789abcdef-''" by simp
  moreover have "set ''0123456789abcdef'' \<subseteq> set ''0123456789abcdef-''" by simp
  moreover have "set ''-'' \<subseteq> set ''0123456789abcdef-''" by simp
  ultimately show ?thesis
    unfolding room set_append using set_hex_encode [of bs] by (meson Un_least subset_trans)
qed

section \<open>Properties\<close>

text \<open>Whatever the environment and the other goroutines do, what a session writes to the
  requester is a word of the protocol: a refusal, or \<^verbatim>\<open>ACK\<close> and then either a failed lookup or
  dial, or \<^verbatim>\<open>REQ_SENT\<close>, some number of \<^verbatim>\<open>AWAITING_REQ\<close>, one verdict and one routing
  message.\<close>

lemma session_follows_protocol:
  "session_trace (sent_conn (snd (handleConnection env (fresh_session st))))"
  by (rule handleConnection_trace)

text \<open>A connection from an address that is not registered (or registered with an empty
  name) is told so and nothing else happens: no peer is contacted and the session leaves
  the store as it finds it.\<close>

lemma unregistered_is_refused:
  assumes "data (interf env 0 st) (remote_ip (remote_addr env)) \<in> {None, Some ''''}"
  shows "handleConnection env (fresh_session st) =
    (Ret Returned, \<lparr>store = interf env 0 st, sent_conn = [UNAUTHORIZED], sent_peer = []\<rparr>)"
  using assms
  by (auto simp: handleConnection_def Let_def cs_Read_def interfere_def send_conn_def fresh_session_def)

text \<open>C12. A match that the requested client accepts routes both clients to the same server
  and room: the server is optimal for their two delay lists, both connections carry the
  same response, and exactly that room of exactly these two users is added to the store.\<close>

theorem accepted_match_routes_both:
  assumes "interf env = (\<lambda>_ s. s)" "store_inv st" "map_order (data st) (by_name_order env st)"
    and "data st (remote_ip (remote_addr env)) = Some u" "u \<noteq> ''''"
    and "GetRequestedUsername (name_read env) = v" "v \<noteq> ''''" "data st ip = Some v"
    and "dial_ok env ((if ip = ''::1'' then ''localhost'' else ip) @ '':3001'')"
    and "reply env = Some rep" "snd (requestMatch u rep) = ACCEPT_REQ"
    and "delay_lists st u = Some c1" "delay_lists st v = Some c2"
    and "finite_delays c1" "finite_delays c2" "valid_orders (env_orders env) c1 c2"
    and "dom c1 \<inter> dom c2 \<noteq> {}" "env_random env = Some bytes"
  shows "\<exists>srv room st'. srv \<in> optimal_servers c1 c2 \<and>
    handleConnection env (fresh_session st) = (Ret Returned,
      \<lparr>store = st',
       sent_conn = ACK_CONN # MSG_REQ_SENT # replicate (polls env) AWAITING_REQ @
         [REQ_ACCEPTED, match_response srv room],
       sent_peer = [u @ nl, match_response srv room]\<rparr>) \<and>
    rooms st' = rooms st @ [new_instance room srv [u, v]] \<and> data st' = data st"
proof -
  have "verdict u rep = REQ_ACCEPTED" "fst (requestMatch u rep) = [u @ nl]"
    using assms(11) by (auto simp: verdict_def requestMatch_def ACCEPT_REQ_def MATCH_DECLINED_def split: if_splits)
  with answered_session [OF assms(1-10) assms(12-18)] show ?thesis by auto
qed

theorem accepted_match_routes_both_witness:
  "\<exists>srv room st'. srv \<in> optimal_servers [''10.0.0.3'' \<mapsto> Fin 30] [''10.0.0.3'' \<mapsto> Fin 20] \<and>
    handleConnection (example_env (ACCEPT_REQ @ nl)) (fresh_session example_store) = (Ret Returned,
      \<lparr>store = st',
       sent_conn = ACK_CONN # MSG_REQ_SENT # replicate (polls (example_env (ACCEPT_REQ @ nl))) AWAITING_REQ @
         [REQ_ACCEPTED, match_response srv room],
       sent_peer = [''alice'' @ nl, match_response srv room]\<rparr>) \<and>
    rooms st' = rooms example_store @ [new_instance room srv [''alice'', ''bob'']] \<and>
    data st' = data example_store"
  by (rule accepted_match_routes_both [OF example_env_simps(1) example_store_inv _ example_env_simps(3) _
        example_env_simps(4) _ example_env_simps(5,6,7) example_accept example_delay_lists(1-5) _
        example_env_simps(8)])
    (simp_all add: example_env_simps(2) example_store_order)

text \<open>C36. A match that the requested client declines, or that never reaches it, is routed all
  the same: after \<^verbatim>\<open>USER_NOT_FOUND\<close> the requester still gets a server and a room, and the
  room is added to the store.\<close>

theorem declined_match_still_opens_room:
  assumes "interf env = (\<lambda>_ s. s)" "store_inv st" "map_order (data st) (by_name_order env st)"
    and "data st (remote_ip (remote_addr env)) = Some u" "u \<noteq> ''''"
    and "GetRequestedUsername (name_read env) = v" "v \<noteq> ''''" "data st ip = Some v"
    and "dial_ok env ((if ip = ''::1'' then ''localhost'' else ip) @ '':3001'')"
    and "reply env = Some rep" "snd (requestMatch u rep) \<noteq> ACCEPT_REQ"
    and "delay_lists st u = Some c1" "delay_lists st v = Some c2"
    and "finite_delays c1" "finite_delays c2" "valid_orders (env_orders env) c1 c2"
    and "dom c1 \<inter> dom c2 \<noteq> {}" "env_random env = Some bytes"
  shows "\<exists>srv room s'. handleConnection env (fresh_session st) = (Ret Returned, s') \<and>
    sent_conn s' = ACK_CONN # MSG_REQ_SENT # replicate (polls env) AWAITING_REQ @
         [USER_NOT_FOUND, match_response srv room] \<and>
    rooms (store s') = rooms st @ [new_instance room srv [u, v]]"
proof -
  have v: "verdict u rep = USER_NOT_FOUND" using assms(11) by (simp add: verdict_def)
  obtain srv room st' where h: "handleConnection env (fresh_session st) = (Ret Returned,
      \<lparr>store = st',
       sent_conn = ACK_CONN # MSG_REQ_SENT # replicate (polls env) AWAITING_REQ @
         [verdict u rep, match_response srv room],
       sent_peer = fst (requestMatch u rep) @ [match_response srv room]\<rparr>)"
    and st': "rooms st' = rooms st @ [new_instance room srv [u, v]]"
    using answered_session [OF assms(1-10) assms(12-18)] by blast
  show ?thesis
    by (rule exI [of _ srv], rule exI [of _ room], intro exI conjI, rule h) (simp_all add: v st')
qed

theorem declined_match_still_opens_room_witness:
  "\<exists>srv room s'. handleConnection (example_env ''no'') (fresh_session example_store) = (Ret Returned, s') \<and>
    sent_conn s' = ACK_CONN # MSG_REQ_SENT # replicate (polls (example_env ''no'')) AWAITING_REQ @
         [USER_NOT_FOUND, match_response srv room] \<and>
    rooms (store s') = rooms example_store @ [new_instance room srv [''alice'', ''bob'']]"
  by (rule declined_match_still_opens_room [OF example_env_simps(1) example_store_inv _ example_env_simps(3) _
        example_env_simps(4) _ example_env_simps(5,6,7) example_decline example_delay_lists(1-5) _
        example_env_simps(8)])
    (simp_all add: example_env_simps(2) example_store_order)

text \<open>A room identifier consists of decimal digits, hexadecimal digits and one dash, so it
  carries none of the separators of the two wire formats (newline, hash, colon), and two
  sessions get the same identifier only if they drew the same random bytes.\<close>

lemma room_id_format:
  assumes "generateRoomId now (Some bs) = Ret room"
  shows "length room = 15 + 2 * length bs \<and> set room \<subseteq> set ''0123456789abcdef-'' \<and>
    (\<forall>now' bs'. generateRoomId now' (Some bs') = Ret room \<longrightarrow> bs' = bs)"
proof -
  have room: "room = format_time now @ ''-'' @ hex_encode bs"
    using assms by (simp add: generateRoomId_def)
  have len: "length (format_time t) = 14" for t by (simp add: format_time_def)
  have chars: "set room \<subseteq> set ''0123456789abcdef-''" using assms by (rule room_id_chars)
  have "bs' = bs" if "generateRoomId now' (Some bs') = Ret room" for now' bs'
  proof -
    have "format_time now' @ ''-'' @ hex_encode bs' = format_time now @ ''-'' @ hex_encode bs"
      using that room by (simp add: generateRoomId_def)
    then have "hex_encode bs' = hex_encode bs"
      by (simp add: append_eq_append_conv len)
    then show ?thesis by (rule hex_encode_inj)
  qed
  with room len chars show ?thesis by simp
qed

text \<open>The address of a connection, \<^verbatim>\<open>a.b.c.d:port\<close> or \<^verbatim>\<open>[v6]:port\<close>, is reduced to the IP
  alone, the form under which clients register.\<close>

lemma remote_ip_strips_port:
  assumes "CHR ''['' \<notin> set ip" "CHR ''['' \<notin> set port"
  shows "(CHR '':'' \<notin> set ip \<longrightarrow> remote_ip (ip @ '':'' @ port) = ip) \<and>
    (CHR '']'' \<notin> set ip \<longrightarrow> remote_ip (''['' @ ip @ '']:'' @ port) = ip)"
proof -
  have "remote_ip (ip @ '':'' @ port) = ip" if "CHR '':'' \<notin> set ip"
    using assms that split_on_append_sep [of "CHR '':''" ip port]
    by (simp add: remote_ip_def contains_char_iff)
  moreover have "remote_ip (''['' @ ip @ '']:'' @ port) = ip" if "CHR '']'' \<notin> set ip"
    using assms that split_on_append_sep [of "CHR '']''" "''['' @ ip" "'':'' @ port"]
    by (simp add: remote_ip_def contains_char_iff trim_char_cons_absent)
  ultimately show ?thesis by blast
qed

end
