(* ===== verification/Background.thy ===== *)
theory Background
  imports Client_API Matchmaking
begin

text \<open>
  The background job of the matchmaking server (\<^verbatim>\<open>backgroundAnalysis\<close> in
  \<^verbatim>\<open>Central/internal/matchmaking/matchmaking.go\<close>): on every tick it walks through the chat
  rooms and moves each whose best server has changed, telling both clients the new address.

  One tick is \<open>bg_tick\<close>. It ranges over the slice header that \<^verbatim>\<open>GetAllChatInstances\<close> handed
  out; the removals and insertions of its own body, and of other goroutines, move the
  rooms inside the array under that header, so every element is read from the array as it
  is then. \<open>bg_interf i k\<close> is what other goroutines do to the store before the \<open>k\<close>-th
  access of iteration \<open>i\<close>, by whole calls on it.
\<close>

record bg_env =
  bg_interf :: "nat \<Rightarrow> nat \<Rightarrow> client_store \<Rightarrow> client_store"
  bg_orders :: "nat \<Rightarrow> map_orders"
  bg_seed :: "nat \<Rightarrow> nat"
  bg_growth :: "nat \<Rightarrow> nat"
  bg_name_order :: "client_store \<Rightarrow> string list"
  bg_dial :: "nat \<Rightarrow> string \<Rightarrow> bool"

record bg_state =
  bg_store :: client_store
  redirects :: "(string \<times> string) list"

text \<open>\<^verbatim>\<open>instance.Users[k]\<close>\<close>

definition user_at :: "chat_instance \<Rightarrow> nat \<Rightarrow> string result" where
  "user_at c k = (if k < length (users c) then Ret (users c ! k) else Panic)"

text \<open>The three store calls that move a room; the first two outcomes are ignored.\<close>

definition relocate ::
    "(nat \<Rightarrow> client_store \<Rightarrow> client_store) \<Rightarrow> nat \<Rightarrow> string \<Rightarrow> string \<Rightarrow> string \<Rightarrow> string \<Rightarrow>
      (client_store, string) op" where
  "relocate intf e room srv client1 client2 s =
     (case cs_RemoveChatInstancesForUser client1 (intf 3 s) of
        (Panic, s1) \<Rightarrow> (Panic, s1)
      | (_, s1) \<Rightarrow>
          (case cs_RemoveChatInstancesForUser client2 (intf 4 s1) of
             (Panic, s2) \<Rightarrow> (Panic, s2)
           | (_, s2) \<Rightarrow> cs_InsertChatInstance e room srv [client1, client2] (intf 5 s2)))"

text \<open>Telling both clients: both dials are made before either outcome is looked at.\<close>

definition redirect_clients ::
    "bg_env \<Rightarrow> nat \<Rightarrow> string \<Rightarrow> string \<Rightarrow> string \<Rightarrow> bg_state \<Rightarrow> bg_state" where
  "redirect_clients env i srv client1 client2 b =
     (let s6 = bg_interf env i 6 (bg_store b);
          ip1 = cs_ReadByUsername (bg_name_order env s6) client1 s6;
          s7 = bg_interf env i 7 s6;
          ip2 = cs_ReadByUsername (bg_name_order env s7) client2 s7;
          b7 = b\<lparr>bg_store := s7\<rparr> in
      case (ip1, ip2) of
        (Ret client1IP, Ret client2IP) \<Rightarrow>
          if bg_dial env i (client1IP @ '':3003'') \<and> bg_dial env i (client2IP @ '':3003'')
          then b7\<lparr>redirects := redirects b7 @ [(client1IP, srv), (client2IP, srv)]\<rparr>
          else b7
      | _ \<Rightarrow> b7)"

text \<open>The body of the loop for the element read at index \<open>i\<close>.\<close>

definition reroute :: "bg_env \<Rightarrow> nat \<Rightarrow> chat_instance \<Rightarrow> (bg_state, unit) op" where
  "reroute env i inst b =
     (case user_at inst 0 of
        Ret client1 \<Rightarrow>
          (case user_at inst 1 of
             Ret client2 \<Rightarrow>
               (let s1 = bg_interf env i 1 (bg_store b);
                    client1Delay = cs_GetDelayList client1 s1;
                    s2 = bg_interf env i 2 s1;
                    client2Delay = cs_GetDelayList client2 s2;
                    b2 = b\<lparr>bg_store := s2\<rparr> in
                case (client1Delay, client2Delay) of
                  (Ret c1, Ret c2) \<Rightarrow>
                    (case compute_optimal_server (bg_orders env i) (bg_seed env i) c1 c2 of
                       Ret serverIP \<Rightarrow>
                         if serverIP = chat_server inst then (Ret (), b2)
                         else
                           (case relocate (bg_interf env i) (bg_growth env i) (room_id inst)
                                   serverIP client1 client2 s2 of
                              (Panic, s3) \<Rightarrow> (Panic, b\<lparr>bg_store := s3\<rparr>)
                            | (_, s3) \<Rightarrow> (Ret (),
                                redirect_clients env i serverIP client1 client2 (b\<lparr>bg_store := s3\<rparr>)))
                     | _ \<Rightarrow> (Ret (), b2))
                | _ \<Rightarrow> (Ret (), b2))
           | _ \<Rightarrow> (Panic, b))
      | _ \<Rightarrow> (Panic, b))"

fun bg_loop :: "bg_env \<Rightarrow> slice \<Rightarrow> nat list \<Rightarrow> (bg_state, unit) op" where
  "bg_loop env hdr [] b = (Ret (), b)"
| "bg_loop env hdr (i # is) b =
     (let b0 = b\<lparr>bg_store := bg_interf env i 0 (bg_store b)\<rparr> in
      case slice_get (store_arrays (bg_store b0)) hdr i of
        Ret inst \<Rightarrow> then_op (reroute env i inst) (bg_loop env hdr is) b0
      | _ \<Rightarrow> (Panic, b0))"

definition bg_tick :: "bg_env \<Rightarrow> (bg_state, unit) op" where
  "bg_tick env b = (case cs_GetAllChatInstances (bg_store b) of
       Ret hdr \<Rightarrow> bg_loop env hdr [0..<sl_len hdr] b
     | _ \<Rightarrow> (Ret (), b))"

section \<open>Headers that outlive a change\<close>

text \<open>
  What the job needs of the header it holds: its cells lie in an allocated array and hold
  good rooms, even when the rooms in them have been moved. Good are here the rooms with two
  users.
\<close>

definition header_cells :: "(chat_instance \<Rightarrow> bool) \<Rightarrow> slice \<Rightarrow> client_store \<Rightarrow> bool" where
  "header_cells P hdr s \<longleftrightarrow> sl_arr hdr < next_arr (store_arrays s) \<and>
     sl_off hdr + sl_len hdr \<le> length (arr (store_arrays s) (sl_arr hdr)) \<and>
     (\<forall>j. j < sl_len hdr \<longrightarrow> P (arr (store_arrays s) (sl_arr hdr) ! (sl_off hdr + j)))"

abbreviation header_ok :: "slice \<Rightarrow> client_store \<Rightarrow> bool" where
  "header_ok \<equiv> header_cells (\<lambda>c. length (users c) = 2)"

lemma header_cells_get:
  "header_cells P hdr s \<Longrightarrow> i < sl_len hdr \<Longrightarrow> \<exists>c. slice_get (store_arrays s) hdr i = Ret c \<and> P c"
  by (simp add: header_cells_def slice_get_def)

lemma header_cells_mono: "header_cells P hdr s \<Longrightarrow> (\<And>c. P c \<Longrightarrow> Q c) \<Longrightarrow> header_cells Q hdr s"
  by (simp add: header_cells_def)

lemma header_cells_own: "store_inv s \<Longrightarrow> \<forall>c\<in>set (rooms s). P c \<Longrightarrow> header_cells P (chat_instances s) s"
proof -
  assume inv: "store_inv s" and P: "\<forall>c\<in>set (rooms s). P c"
  have "P (arr (store_arrays s) (sl_arr (chat_instances s)) ! (sl_off (chat_instances s) + j))"
    if "j < sl_len (chat_instances s)" for j
  proof -
    have j: "j < length (rooms s)" using that inv by (simp add: sl_len_rooms)
    then have "rooms s ! j \<in> set (rooms s)" by (rule nth_mem)
    moreover have "arr (store_arrays s) (sl_arr (chat_instances s)) ! (sl_off (chat_instances s) + j) = rooms s ! j"
      using own_header_nth [OF inv j] that by (simp add: slice_get_def)
    ultimately show ?thesis using P by simp
  qed
  with inv show ?thesis by (auto simp: header_cells_def store_inv_def slice_wf_def)
qed

lemma header_ok_own: "server_inv s \<Longrightarrow> header_ok (chat_instances s) s"
  by (rule header_cells_own) (simp_all add: server_inv_def)

text \<open>Writing good rooms anywhere in an array keeps every header of it good.\<close>

lemma header_cells_overwrite:
  assumes "header_cells P hdr s" "p + length ys \<le> length (arr (store_arrays s) a)"
    and "\<forall>c\<in>set ys. P c"
    and "store_arrays s' = (store_arrays s)\<lparr>arr := (arr (store_arrays s))(a := overwrite (arr (store_arrays s) a) p ys)\<rparr>"
  shows "header_cells P hdr s'"
proof (cases "a = sl_arr hdr")
  case True
  let ?a = "arr (store_arrays s) a"
  have "P (overwrite ?a p ys ! (sl_off hdr + j))" if "j < sl_len hdr" for j
  proof -
    have b: "sl_off hdr + j < length ?a" using assms(1) that True by (simp add: header_cells_def)
    have "P (?a ! (sl_off hdr + j))"
      using assms(1) that True by (simp add: header_cells_def)
    then show ?thesis
      unfolding nth_overwrite [OF assms(2) b] using assms(3) by (auto simp: all_set_conv_all_nth)
  qed
  with assms(1,4) True length_overwrite [OF assms(2)] show ?thesis by (simp add: header_cells_def)
qed (use assms(1,4) in \<open>simp add: header_cells_def\<close>)

lemma header_cells_fresh:
  assumes "header_cells P hdr s"
    and "store_arrays s' = \<lparr>arr = (arr (store_arrays s))(next_arr (store_arrays s) := xs),
       next_arr = Suc (next_arr (store_arrays s))\<rparr>"
  shows "header_cells P hdr s'"
  using assms by (simp add: header_cells_def)

lemma header_cells_same: "store_arrays s' = store_arrays s \<Longrightarrow> header_cells P hdr s' = header_cells P hdr s"
  by (simp add: header_cells_def)


section \<open>The store's operations keep every header good\<close>

lemma snd_then_ret [simp]: "snd (then_op m (ret_op r) s) = snd (m s)"
  by (cases "m s"; cases "fst (m s)") (auto simp: then_op_def bind_op_def ret_op_def split: result.splits)

lemma remove_room_loop_snd:
  "snd (remove_room_loop r hdr is s) \<in> {s} \<union> (\<lambda>i. snd (delete_at i s)) ` set is"
  by (induction "is") (auto split: result.splits)

lemma remove_user_loop_snd:
  "snd (remove_user_loop u hdr is s) \<in>
     {s} \<union> (\<lambda>i. snd (delete_at i s)) ` set is \<union> (\<lambda>i. snd (truncate_at i s)) ` set is"
  by (induction "is") (auto split: result.splits)

lemma truncate_at_arrays [simp]: "store_arrays (snd (truncate_at i s)) = store_arrays s"
  by (simp add: truncate_at_def split: result.splits)

lemma header_cells_delete:
  assumes "store_inv s" "\<forall>c\<in>set (rooms s). P c" "header_cells P hdr s" "i < sl_len (chat_instances s)"
  shows "header_cells P hdr (snd (delete_at i s))"
proof -
  let ?h = "store_arrays s" and ?c = "chat_instances s"
  have wf: "slice_wf ?h ?c" using assms(1) by (simp add: store_inv_def)
  let ?d = "drop (Suc i) (slice_elems ?h ?c)"
  show ?thesis
  proof (rule header_cells_overwrite [OF assms(3)])
    have "length ?d = sl_len ?c - Suc i" using slice_wf_length [OF wf] by simp
    moreover have "sl_len ?c \<le> sl_cap ?c" "sl_off ?c + sl_cap ?c \<le> length (arr ?h (sl_arr ?c))"
      using wf unfolding slice_wf_def by blast+
    ultimately show "sl_off ?c + i + length ?d \<le> length (arr ?h (sl_arr ?c))"
      using assms(4) by linarith
    show "\<forall>c\<in>set ?d. P c"
      using assms(2) by (auto simp: rooms_def dest: in_set_dropD)
    show "store_arrays (snd (delete_at i s)) = ?h\<lparr>arr := (arr ?h)(sl_arr ?c :=
        overwrite (arr ?h (sl_arr ?c)) (sl_off ?c + i) ?d)\<rparr>"
      by (simp add: delete_at_def slice_delete_eq [OF wf assms(4)])
  qed
qed

lemma header_cells_insert:
  assumes "store_inv s" "header_cells P hdr s" "P (new_instance r srv us)"
  shows "header_cells P hdr (snd (cs_InsertChatInstance e r srv us s))"
proof -
  let ?h = "store_arrays s" and ?c = "chat_instances s"
  let ?r = "\<lparr>chat_server = srv, users = us, room_id = r, active = True\<rparr>"
  have wf: "slice_wf ?h ?c" using assms(1) by (simp add: store_inv_def)
  have P: "P ?r" using assms(3) by (simp add: new_instance_def)
  have arrays: "store_arrays (snd (cs_InsertChatInstance e r srv us s)) =
      snd (slice_append zero_instance e ?h ?c [?r])"
    by (simp add: cs_InsertChatInstance_def split: prod.splits)
  show ?thesis
  proof (cases "sl_len ?c + 1 \<le> sl_cap ?c")
    case True
    then have "store_arrays (snd (cs_InsertChatInstance e r srv us s)) =
        ?h\<lparr>arr := (arr ?h)(sl_arr ?c := overwrite (arr ?h (sl_arr ?c)) (sl_off ?c + sl_len ?c) [?r])\<rparr>"
      unfolding arrays by (simp add: slice_append_def)
    then show ?thesis
      using wf True P by (intro header_cells_overwrite [OF assms(2)]) (auto simp: slice_wf_def)
  next
    case False
    then show ?thesis
      by (intro header_cells_fresh [OF assms(2)]) (simp add: arrays slice_append_def)
  qed
qed

lemma header_cells_remove_user:
  assumes "store_inv s" "\<forall>c\<in>set (rooms s). P c" "header_cells P hdr s"
  shows "header_cells P hdr (snd (cs_RemoveChatInstancesForUser u s))"
proof -
  have "header_cells P hdr (snd (truncate_at i s))" for i
    using assms(3) by (simp add: header_cells_def)
  with assms show ?thesis
    using remove_user_loop_snd [of u "chat_instances s" "[0..<sl_len (chat_instances s)]" s]
    by (auto simp: cs_RemoveChatInstancesForUser_def header_cells_delete)
qed

lemma client_api_arrays: "store_arrays (snd (client_api ks rq s)) = store_arrays s"
  by (cases rq) (auto simp: RegisterClient_def cs_Create_def DeleteClient_def cs_Delete_def
      UpdateDelayList_def cs_UpdateDelayList_def split: option.splits sum.splits)

lemma store_step_header: "store_step s s' \<Longrightarrow> server_inv s \<Longrightarrow> header_ok hdr s \<Longrightarrow> header_ok hdr s'"
proof (induction rule: store_step.induct)
  case (request s ks rq)
  then show ?case by (simp add: header_cells_same [OF client_api_arrays])
next
  case (insert_chat s e r srv u1 u2)
  then show ?case by (intro header_cells_insert) (simp_all add: new_instance_def)
next
  case (remove_chat s r)
  then show ?case
    using remove_room_loop_snd [of r "chat_instances s" "[0..<sl_len (chat_instances s)]" s]
    by (auto simp: cs_RemoveChatInstance_def server_inv_def intro: header_cells_delete)
next
  case (remove_user_chat s u)
  then show ?case by (intro header_cells_remove_user) (simp_all add: server_inv_def)
qed

text \<open>What the job relies on and keeps, whatever steps run in between.\<close>

definition job_inv :: "slice \<Rightarrow> client_store \<Rightarrow> bool" where
  "job_inv hdr s \<longleftrightarrow> server_inv s \<and> header_ok hdr s"

lemma job_inv_step: "store_step s s' \<Longrightarrow> job_inv hdr s \<Longrightarrow> job_inv hdr s'"
  unfolding job_inv_def by (blast intro: store_step_inv store_step_header)

lemma job_inv_steps: "store_step\<^sup>*\<^sup>* s s' \<Longrightarrow> job_inv hdr s \<Longrightarrow> job_inv hdr s'"
  by (induction rule: rtranclp_induct) (blast intro: job_inv_step)+


section \<open>A tick is a sequence of steps of the store\<close>

definition interf_ok :: "bg_env \<Rightarrow> bool" where
  "interf_ok env \<longleftrightarrow> (\<forall>i k s. store_step\<^sup>*\<^sup>* s (bg_interf env i k s))"

lemma api_reachable_steps: "store_step\<^sup>*\<^sup>* s s' \<Longrightarrow> api_reachable s \<Longrightarrow> api_reachable s'"
  by (induction rule: rtranclp_induct) (auto intro: api_reachable.step)

lemma server_inv_steps: "store_step\<^sup>*\<^sup>* s s' \<Longrightarrow> server_inv s \<Longrightarrow> server_inv s'"
  by (induction rule: rtranclp_induct) (auto intro: store_step_inv)

lemma remove_user_total:
  assumes "server_inv s"
  obtains r s' where "cs_RemoveChatInstancesForUser u s = (r, s')" "r \<noteq> Panic" "store_step s s'"
proof -
  obtain r s' where rs: "cs_RemoveChatInstancesForUser u s = (r, s')" "r \<noteq> Panic"
    using client_rooms.remove_view [of s u] assms by auto
  then have "store_step s s'" using store_step.remove_user_chat [of s u] by simp
  with rs that show thesis by blast
qed

lemma relocate_steps:
  assumes "\<And>k s. store_step\<^sup>*\<^sup>* s (intf k s)" "server_inv s"
  shows "\<exists>s'. relocate intf e room srv c1 c2 s = (Ret room, s') \<and> store_step\<^sup>*\<^sup>* s s'"
proof -
  have inv1: "server_inv (intf 3 s)" using assms by (blast intro: server_inv_steps)
  obtain r1 s1 where r1: "cs_RemoveChatInstancesForUser c1 (intf 3 s) = (r1, s1)" "r1 \<noteq> Panic"
      "store_step (intf 3 s) s1"
    using remove_user_total [OF inv1] by blast
  have inv2: "server_inv (intf 4 s1)"
    using assms(1) store_step_inv [OF r1(3) inv1] by (blast intro: server_inv_steps)
  obtain r2 s2 where r2: "cs_RemoveChatInstancesForUser c2 (intf 4 s1) = (r2, s2)" "r2 \<noteq> Panic"
      "store_step (intf 4 s1) s2"
    using remove_user_total [OF inv2] by blast
  have inv3: "server_inv (intf 5 s2)"
    using assms(1) store_step_inv [OF r2(3) inv2] by (blast intro: server_inv_steps)
  obtain s3 where s3: "cs_InsertChatInstance e room srv [c1, c2] (intf 5 s2) = (Ret room, s3)"
    using client_rooms.insert_view [OF server_inv_store [OF inv3], of e room srv "[c1, c2]"] by blast
  have "store_step (intf 5 s2) s3"
    using store_step.insert_chat [of "intf 5 s2" e room srv c1 c2] s3 by simp
  then have "store_step\<^sup>*\<^sup>* s s3"
    using r1(3) r2(3) assms(1) [of s 3] assms(1) [of s1 4] assms(1) [of s2 5]
    by (meson rtranclp.rtrancl_into_rtrancl rtranclp_trans)
  moreover have "relocate intf e room srv c1 c2 s = (Ret room, s3)"
    using r1(1,2) r2(1,2) s3 by (cases r1; cases r2) (simp_all add: relocate_def)
  ultimately show ?thesis by blast
qed

lemma redirect_clients_store:
  "bg_store (redirect_clients env i srv c1 c2 b) = bg_interf env i 7 (bg_interf env i 6 (bg_store b))"
  by (simp add: redirect_clients_def Let_def split: result.splits)

lemma reroute_steps:
  assumes "interf_ok env" "length (users inst) = 2" "server_inv (bg_store b)"
  shows "\<exists>b'. reroute env i inst b = (Ret (), b') \<and> store_step\<^sup>*\<^sup>* (bg_store b) (bg_store b')"
proof -
  let ?s2 = "bg_interf env i 2 (bg_interf env i 1 (bg_store b))"
  have intf: "store_step\<^sup>*\<^sup>* s (bg_interf env i k s)" for k s
    using assms(1) by (simp add: interf_ok_def)
  have s2: "store_step\<^sup>*\<^sup>* (bg_store b) ?s2" using intf by (meson rtranclp_trans)
  have moved: "\<exists>s3. relocate (bg_interf env i) e room srv c1 c2 ?s2 = (Ret room, s3) \<and>
      store_step\<^sup>*\<^sup>* ?s2 s3" for e room srv c1 c2
    by (rule relocate_steps [OF intf server_inv_steps [OF s2 assms(3)]])
  have told: "store_step\<^sup>*\<^sup>* (bg_store b)
      (bg_interf env i 7 (bg_interf env i 6 s3))" if "store_step\<^sup>*\<^sup>* ?s2 s3" for s3
    using that s2 intf by (meson rtranclp_trans)
  obtain u1 u2 where u: "users inst = [u1, u2]"
    using assms(2) by (auto simp: length_Suc_conv numeral_2_eq_2)
  show ?thesis
  proof (cases "\<exists>d1 d2 srv. cs_GetDelayList u1 (bg_interf env i 1 (bg_store b)) = Ret d1 \<and>
      cs_GetDelayList u2 ?s2 = Ret d2 \<and>
      compute_optimal_server (bg_orders env i) (bg_seed env i) d1 d2 = Ret srv \<and> srv \<noteq> chat_server inst")
    case True
    then obtain d1 d2 srv where d: "cs_GetDelayList u1 (bg_interf env i 1 (bg_store b)) = Ret d1"
        "cs_GetDelayList u2 ?s2 = Ret d2" "srv \<noteq> chat_server inst"
        "compute_optimal_server (bg_orders env i) (bg_seed env i) d1 d2 = Ret srv"
      by blast
    obtain s3 where "relocate (bg_interf env i) (bg_growth env i) (room_id inst) srv u1 u2 ?s2 =
        (Ret (room_id inst), s3)" "store_step\<^sup>*\<^sup>* ?s2 s3"
      using moved by blast
    with d u told show ?thesis
      by (simp add: reroute_def user_at_def Let_def redirect_clients_store)
  next
    case False
    then have "reroute env i inst b = (Ret (), b\<lparr>bg_store := ?s2\<rparr>)"
      using u by (auto simp: reroute_def user_at_def Let_def split: result.splits)
    with s2 show ?thesis by simp
  qed
qed

lemma bg_loop_steps:
  assumes "interf_ok env"
  shows "job_inv hdr (bg_store b) \<Longrightarrow> set is \<subseteq> {..<sl_len hdr} \<Longrightarrow>
    \<exists>b'. bg_loop env hdr is b = (Ret (), b') \<and> store_step\<^sup>*\<^sup>* (bg_store b) (bg_store b')"
proof (induction "is" arbitrary: b)
  case (Cons i js)
  let ?b0 = "b\<lparr>bg_store := bg_interf env i 0 (bg_store b)\<rparr>"
  have s0: "store_step\<^sup>*\<^sup>* (bg_store b) (bg_store ?b0)" using assms by (simp add: interf_ok_def)
  then have inv0: "job_inv hdr (bg_store ?b0)" using Cons.prems(1) by (rule job_inv_steps)
  obtain c where c: "slice_get (store_arrays (bg_store ?b0)) hdr i = Ret c" "length (users c) = 2"
    using header_cells_get [of _ hdr "bg_store ?b0" i] inv0 Cons.prems(2) by (fastforce simp: job_inv_def)
  obtain b1 where b1: "reroute env i c ?b0 = (Ret (), b1)" "store_step\<^sup>*\<^sup>* (bg_store ?b0) (bg_store b1)"
    using reroute_steps [OF assms c(2), of ?b0] inv0 by (auto simp: job_inv_def)
  have "job_inv hdr (bg_store b1)" using job_inv_steps [OF b1(2) inv0] .
  then obtain b2 where b2: "bg_loop env hdr js b1 = (Ret (), b2)" "store_step\<^sup>*\<^sup>* (bg_store b1) (bg_store b2)"
    using Cons.IH [of b1] Cons.prems(2) by auto
  have "bg_loop env hdr (i # js) b = (Ret (), b2)"
    using c(1) b1(1) b2(1) by (simp add: Let_def)
  moreover have "store_step\<^sup>*\<^sup>* (bg_store b) (bg_store b2)"
    using s0 b1(2) b2(2) by (meson rtranclp_trans)
  ultimately show ?case by blast
qed simp

lemma bg_tick_steps:
  assumes "interf_ok env" "server_inv (bg_store b)"
  shows "\<exists>b'. bg_tick env b = (Ret (), b') \<and> store_step\<^sup>*\<^sup>* (bg_store b) (bg_store b')"
proof -
  have "job_inv (chat_instances (bg_store b)) (bg_store b)"
    using header_ok_own [OF assms(2)] assms(2) by (simp add: job_inv_def)
  from bg_loop_steps [OF assms(1) this, of "[0..<sl_len (chat_instances (bg_store b))]"]
  show ?thesis by (simp add: bg_tick_def cs_GetAllChatInstances_def atLeast0LessThan)
qed


section \<open>A tick that nobody interferes with\<close>

definition undisturbed :: "bg_env \<Rightarrow> bool" where
  "undisturbed env \<longleftrightarrow> (\<forall>i k s. bg_interf env i k s = s)"

lemma undisturbed_interf [simp]: "undisturbed env \<Longrightarrow> bg_interf env i = (\<lambda>_ s. s)"
  by (simp add: undisturbed_def fun_eq_iff)

lemma bg_store_id [simp]: "b\<lparr>bg_store := bg_store b\<rparr> = b"
  by (cases b) simp

lemma undisturbed_interf_ok: "undisturbed env \<Longrightarrow> interf_ok env"
  by (simp add: interf_ok_def)

text \<open>The room of \<open>u1\<close> and \<open>u2\<close> must move to \<open>srv\<close> according to the reported delays.\<close>

definition best_server :: "bg_env \<Rightarrow> nat \<Rightarrow> client_store \<Rightarrow> string \<Rightarrow> string \<Rightarrow> string result" where
  "best_server env i s u1 u2 = (case (delay_lists s u1, delay_lists s u2) of
       (Some d1, Some d2) \<Rightarrow> compute_optimal_server (bg_orders env i) (bg_seed env i) d1 d2
     | _ \<Rightarrow> Fail ''no delays'')"

lemma reroute_undisturbed:
  assumes "undisturbed env" "users inst = [u1, u2]"
  shows "reroute env i inst b = (case best_server env i (bg_store b) u1 u2 of
      Ret srv \<Rightarrow>
        if srv = chat_server inst then (Ret (), b)
        else (case relocate (\<lambda>_ s. s) (bg_growth env i) (room_id inst) srv u1 u2 (bg_store b) of
            (Panic, s3) \<Rightarrow> (Panic, b\<lparr>bg_store := s3\<rparr>)
          | (_, s3) \<Rightarrow> (Ret (), redirect_clients env i srv u1 u2 (b\<lparr>bg_store := s3\<rparr>)))
    | _ \<Rightarrow> (Ret (), b))"
  using assms
  by (simp add: reroute_def user_at_def best_server_def cs_GetDelayList_def Let_def
      split: option.split result.split)

lemma relocate_spec:
  assumes "store_inv s"
  shows "\<exists>s3. relocate (\<lambda>_ s. s) e room srv u1 u2 s = (Ret room, s3) \<and> store_inv s3 \<and>
    rooms s3 = remove_first (\<lambda>c. u2 \<in> set (users c))
       (remove_first (\<lambda>c. u1 \<in> set (users c)) (rooms s)) @ [new_instance room srv [u1, u2]] \<and>
    data s3 = data s \<and> delay_lists s3 = delay_lists s"
proof -
  obtain r1 s1 where s1: "cs_RemoveChatInstancesForUser u1 s = (r1, s1)" "store_inv s1"
      "data s1 = data s" "delay_lists s1 = delay_lists s" "r1 \<noteq> Panic"
    using cs_RemoveChatInstancesForUser_spec [OF assms, of u1] by (auto split: option.splits)
  obtain r2 s2 where s2: "cs_RemoveChatInstancesForUser u2 s1 = (r2, s2)" "store_inv s2"
      "data s2 = data s" "delay_lists s2 = delay_lists s" "r2 \<noteq> Panic"
    using cs_RemoveChatInstancesForUser_spec [OF s1(2), of u2] s1 by (auto split: option.splits)
  obtain s3 where s3: "cs_InsertChatInstance e room srv [u1, u2] s2 = (Ret room, s3)" "store_inv s3"
      "data s3 = data s" "delay_lists s3 = delay_lists s"
    using cs_InsertChatInstance_spec [OF s2(2), of e room srv "[u1, u2]"] s2 by metis
  have "relocate (\<lambda>_ s. s) e room srv u1 u2 s = (Ret room, s3)"
    using s1(1,5) s2(1,5) s3(1) by (cases r1; cases r2) (simp_all add: relocate_def)
  with s3 client_rooms.relocate_view(2) [OF assms s1(1) s2(1) s3(1)] show ?thesis by blast
qed

text \<open>What the clients are told after a move.\<close>

definition told :: "bg_env \<Rightarrow> nat \<Rightarrow> client_store \<Rightarrow> string \<Rightarrow> string \<Rightarrow> string \<Rightarrow> (string \<times> string) list" where
  "told env i s srv u1 u2 =
     (case (cs_ReadByUsername (bg_name_order env s) u1 s, cs_ReadByUsername (bg_name_order env s) u2 s) of
        (Ret ip1, Ret ip2) \<Rightarrow>
          if bg_dial env i (ip1 @ '':3003'') \<and> bg_dial env i (ip2 @ '':3003'')
          then [(ip1, srv), (ip2, srv)] else []
      | _ \<Rightarrow> [])"

lemma redirect_undisturbed:
  "undisturbed env \<Longrightarrow> redirect_clients env i srv u1 u2 b =
     b\<lparr>redirects := redirects b @ told env i (bg_store b) srv u1 u2\<rparr>"
  by (simp add: redirect_clients_def told_def Let_def split: result.splits)

lemma reroute_moves:
  assumes "undisturbed env" "users inst = [u1, u2]" "store_inv (bg_store b)"
    and "best_server env i (bg_store b) u1 u2 = Ret srv" "srv \<noteq> chat_server inst"
  shows "\<exists>s3. reroute env i inst b =
      (Ret (), b\<lparr>bg_store := s3, redirects := redirects b @ told env i s3 srv u1 u2\<rparr>) \<and> store_inv s3 \<and>
    rooms s3 = remove_first (\<lambda>c. u2 \<in> set (users c))
       (remove_first (\<lambda>c. u1 \<in> set (users c)) (rooms (bg_store b))) @
         [new_instance (room_id inst) srv [u1, u2]] \<and>
    data s3 = data (bg_store b) \<and> delay_lists s3 = delay_lists (bg_store b)"
  using relocate_spec [OF assms(3), of "bg_growth env i" "room_id inst" srv u1 u2] assms(4,5)
  by (auto simp: reroute_undisturbed [OF assms(1,2)] redirect_undisturbed [OF assms(1)])


text \<open>The header after a move is the header before it: the room is put where the last one was.\<close>

lemma delete_at_header:
  assumes "store_inv s" "i < sl_len (chat_instances s)"
  shows "chat_instances (snd (delete_at i s)) = (chat_instances s)\<lparr>sl_len := sl_len (chat_instances s) - 1\<rparr>"
  using slice_delete_eq [of "store_arrays s" "chat_instances s" i zero_instance 0] assms
  by (simp add: delete_at_def store_inv_def)

lemma truncate_at_header:
  assumes "store_inv s" "Suc i = sl_len (chat_instances s)"
  shows "chat_instances (snd (truncate_at i s)) = (chat_instances s)\<lparr>sl_len := sl_len (chat_instances s) - 1\<rparr>"
proof -
  have "i \<le> sl_cap (chat_instances s)" using assms by (auto simp: store_inv_def slice_wf_def)
  then show ?thesis by (simp add: truncate_at_def slice_to_def flip: assms(2))
qed

lemma remove_user_header:
  assumes inv: "store_inv s" and ex: "list_ex (\<lambda>c. u \<in> set (users c)) (rooms s)"
  shows "chat_instances (snd (cs_RemoveChatInstancesForUser u s)) =
    (chat_instances s)\<lparr>sl_len := sl_len (chat_instances s) - 1\<rparr>"
proof -
  obtain i where i: "List.find (\<lambda>i. u \<in> set (users (rooms s ! i))) [0..<length (rooms s)] = Some i"
    using find_index_hit [OF ex] by blast
  then have "i < sl_len (chat_instances s)"
    using find_index_Some(1) [where P = "\<lambda>c. u \<in> set (users c)", OF i] sl_len_rooms [OF inv] by simp
  then show ?thesis
    using i truncate_at_header [OF inv, of i] delete_at_header [OF inv]
    by (simp add: cs_RemoveChatInstancesForUser_def sl_len_rooms [OF inv]
        remove_user_loop_find [OF own_header_reads [OF inv]])
qed

lemma remove_user_absent:
  assumes inv: "store_inv s" and ex: "\<not> list_ex (\<lambda>c. u \<in> set (users c)) (rooms s)"
  shows "snd (cs_RemoveChatInstancesForUser u s) = s"
proof -
  have "List.find (\<lambda>i. u \<in> set (users (rooms s ! i))) [0..<length (rooms s)] = None"
    using ex by (rule find_index_None [where P = "\<lambda>c. u \<in> set (users c)", THEN iffD2])
  then show ?thesis
    by (simp add: cs_RemoveChatInstancesForUser_def sl_len_rooms [OF inv]
        remove_user_loop_find [OF own_header_reads [OF inv]])
qed

lemma insert_header:
  "sl_len (chat_instances s) < sl_cap (chat_instances s) \<Longrightarrow>
    chat_instances (snd (cs_InsertChatInstance e r srv us s)) =
      (chat_instances s)\<lparr>sl_len := Suc (sl_len (chat_instances s))\<rparr>"
  by (simp add: cs_InsertChatInstance_def slice_append_def)

text \<open>The two users sit together in one room and in no other.\<close>

definition only_together :: "string \<Rightarrow> string \<Rightarrow> chat_instance list \<Rightarrow> bool" where
  "only_together u1 u2 cs \<longleftrightarrow> (\<forall>c\<in>set cs. u1 \<notin> set (users c) \<and> u2 \<notin> set (users c))"

lemma remove_together:
  assumes "only_together u1 u2 (xs @ ys)" "users c = [u1, u2]"
  shows "remove_first (\<lambda>c. u1 \<in> set (users c)) (xs @ c # ys) = xs @ ys"
    and "remove_first (\<lambda>c. u2 \<in> set (users c)) (xs @ ys) = xs @ ys"
proof -
  have "\<not> list_ex (\<lambda>c. u1 \<in> set (users c)) xs" "\<not> list_ex (\<lambda>c. u2 \<in> set (users c)) (xs @ ys)"
    using assms(1) by (auto simp: only_together_def list_ex_iff)
  with assms(2) show "remove_first (\<lambda>c. u1 \<in> set (users c)) (xs @ c # ys) = xs @ ys"
    and "remove_first (\<lambda>c. u2 \<in> set (users c)) (xs @ ys) = xs @ ys"
    by (simp_all add: remove_first_append remove_first_absent)
qed

lemma relocate_header:
  assumes inv: "store_inv s" and r: "rooms s = xs @ c # ys" and u: "users c = [u1, u2]"
    and only: "only_together u1 u2 (xs @ ys)"
  shows "chat_instances (snd (relocate (\<lambda>_ s. s) e room srv u1 u2 s)) = chat_instances s"
proof -
  let ?c = "chat_instances s"
  obtain r1 s1 where s1: "cs_RemoveChatInstancesForUser u1 s = (r1, s1)" "store_inv s1" "r1 \<noteq> Panic"
      "rooms s1 = xs @ ys"
    using client_rooms.remove_view [OF inv, of u1] remove_together(1) [OF only u] r by auto
  have h1: "chat_instances s1 = ?c\<lparr>sl_len := sl_len ?c - 1\<rparr>"
    using remove_user_header [OF inv, of u1] r u s1(1) by simp
  have no2: "\<not> list_ex (\<lambda>c. u2 \<in> set (users c)) (rooms s1)"
    using only s1(4) by (auto simp: only_together_def list_ex_iff)
  obtain r2 where r2: "cs_RemoveChatInstancesForUser u2 s1 = (r2, s1)" "r2 \<noteq> Panic"
    using client_rooms.remove_view [OF s1(2), of u2] remove_user_absent [OF s1(2) no2] by auto
  have len: "sl_len ?c = length (rooms s)" using inv by (rule sl_len_rooms)
  moreover have "sl_len ?c \<le> sl_cap ?c" using inv by (simp add: store_inv_def slice_wf_def)
  ultimately have "chat_instances (snd (cs_InsertChatInstance e room srv [u1, u2] s1)) = ?c"
    using insert_header [of s1 e room srv "[u1, u2]"] r by (simp add: h1)
  then show ?thesis
    using s1(1,3) r2 by (cases r1; cases r2) (simp_all add: relocate_def)
qed


lemma moved_room:
  assumes "undisturbed env" "store_inv (bg_store b)" "rooms (bg_store b) = xs @ c # ys"
    and "users c = [u1, u2]" "only_together u1 u2 (xs @ ys)"
    and "best_server env i (bg_store b) u1 u2 = Ret srv" "srv \<noteq> chat_server c"
  shows "\<exists>s3. reroute env i c b =
      (Ret (), b\<lparr>bg_store := s3, redirects := redirects b @ told env i s3 srv u1 u2\<rparr>) \<and>
    store_inv s3 \<and> rooms s3 = xs @ ys @ [new_instance (room_id c) srv [u1, u2]] \<and>
    data s3 = data (bg_store b) \<and> delay_lists s3 = delay_lists (bg_store b) \<and>
    chat_instances s3 = chat_instances (bg_store b)"
proof -
  obtain s3 where s3: "relocate (\<lambda>_ s. s) (bg_growth env i) (room_id c) srv u1 u2 (bg_store b) = (Ret (room_id c), s3)"
    "store_inv s3" "rooms s3 = xs @ ys @ [new_instance (room_id c) srv [u1, u2]]"
    "data s3 = data (bg_store b)" "delay_lists s3 = delay_lists (bg_store b)"
    using relocate_spec [OF assms(2), of "bg_growth env i" "room_id c" srv u1 u2]
      remove_together [OF assms(5,4)] assms(3) by auto
  have "chat_instances s3 = chat_instances (bg_store b)"
    using relocate_header [OF assms(2-5), of "bg_growth env i" "room_id c" srv] s3(1) by simp
  moreover have "reroute env i c b =
      (Ret (), b\<lparr>bg_store := s3, redirects := redirects b @ told env i s3 srv u1 u2\<rparr>)"
    using assms(6,7) s3(1)
    by (simp add: reroute_undisturbed [OF assms(1,4)] redirect_undisturbed [OF assms(1)])
  ultimately show ?thesis using s3 by blast
qed

section \<open>Properties\<close>

text \<open>C11. A tick never panics, whatever whole calls of requests and matches come between its own store
  calls, and the store it leaves is again one the central server can reach: the rooms it reads
  through its old header always have two users, although they move under it. Calls that race
  with one of its own, as the read lock allows for insertions, are not among these;
  \<open>Room_Removals\<close> shows that such a race can make it panic.\<close>

theorem tick_is_safe:
  assumes "interf_ok env" "api_reachable (bg_store b)"
  shows "\<exists>b'. bg_tick env b = (Ret (), b') \<and> api_reachable (bg_store b')"
  using bg_tick_steps [OF assms(1) reachable_server_inv [OF assms(2)]] assms(2)
  by (blast intro: api_reachable_steps)

definition quiet_env :: bg_env where
  "quiet_env = \<lparr>bg_interf = (\<lambda>_ _ s. s),
     bg_orders = (\<lambda>_. \<lparr>order1 = [''10.0.0.3''], order2 = [''10.0.0.3''], order3 = [''10.0.0.3'']\<rparr>),
     bg_seed = (\<lambda>_. 0), bg_growth = (\<lambda>_. 0), bg_name_order = (\<lambda>_. [''10.0.0.1'', ''10.0.0.2'']),
     bg_dial = (\<lambda>_ _. True)\<rparr>"

lemma undisturbed_quiet_env: "undisturbed quiet_env"
  by (simp add: undisturbed_def quiet_env_def)

theorem tick_is_safe_witness:
  "\<exists>b'. bg_tick quiet_env \<lparr>bg_store = new_client_store, redirects = []\<rparr> = (Ret (), b') \<and>
     api_reachable (bg_store b')"
  by (rule tick_is_safe [OF undisturbed_interf_ok [OF undisturbed_quiet_env]])
    (simp add: api_reachable.start)

text \<open>C18. A room whose best server has changed is moved: it keeps its identifier and its two
  users, goes to the end of the list with the new server, every other room stays, and both
  clients are told the new server at their registered addresses.\<close>

theorem reroute_moves_room:
  assumes "undisturbed env" "store_inv (bg_store b)" "rooms (bg_store b) = xs @ c # ys"
    and "users c = [u1, u2]" "only_together u1 u2 (xs @ ys)"
    and "best_server env i (bg_store b) u1 u2 = Ret srv" "srv \<noteq> chat_server c"
    and "data (bg_store b) ip1 = Some u1" "data (bg_store b) ip2 = Some u2"
    and "\<And>s. data s = data (bg_store b) \<Longrightarrow> map_order (data s) (bg_name_order env s)"
    and "bg_dial env i (ip1 @ '':3003'')" "bg_dial env i (ip2 @ '':3003'')"
  shows "\<exists>b'. reroute env i c b = (Ret (), b') \<and>
    rooms (bg_store b') = xs @ ys @ [new_instance (room_id c) srv [u1, u2]] \<and>
    redirects b' = redirects b @ [(ip1, srv), (ip2, srv)] \<and>
    data (bg_store b') = data (bg_store b)"
proof -
  obtain s3 where s3: "reroute env i c b =
      (Ret (), b\<lparr>bg_store := s3, redirects := redirects b @ told env i s3 srv u1 u2\<rparr>)"
    "store_inv s3" "rooms s3 = xs @ ys @ [new_instance (room_id c) srv [u1, u2]]"
    "data s3 = data (bg_store b)"
    using moved_room [OF assms(1-7)] by blast
  have "map_order (data s3) (bg_name_order env s3)" by (rule assms(10)) (rule s3(4))
  then have "cs_ReadByUsername (bg_name_order env s3) u s3 = Ret ip \<longleftrightarrow> data (bg_store b) ip = Some u" for u ip
    using cs_ReadByUsername_iff [OF s3(2)] by (simp add: s3(4))
  with assms(8,9) have "cs_ReadByUsername (bg_name_order env s3) u1 s3 = Ret ip1"
    "cs_ReadByUsername (bg_name_order env s3) u2 s3 = Ret ip2" by blast+
  with assms(11,12) have "told env i s3 srv u1 u2 = [(ip1, srv), (ip2, srv)]"
    by (simp add: told_def)
  with s3 show ?thesis by simp
qed

definition moved_store :: client_store where
  "moved_store = snd (cs_InsertChatInstance 0 ''r1'' ''10.0.0.9'' [''alice'', ''bob''] example_store)"

lemma moved_store_simps:
  "store_inv moved_store" "rooms moved_store = [new_instance ''r1'' ''10.0.0.9'' [''alice'', ''bob'']]"
  "data moved_store = data example_store" "delay_lists moved_store = delay_lists example_store"
proof -
  obtain s' where "cs_InsertChatInstance 0 ''r1'' ''10.0.0.9'' [''alice'', ''bob''] example_store = (Ret ''r1'', s')"
    "store_inv s'" "rooms s' = rooms example_store @ [new_instance ''r1'' ''10.0.0.9'' [''alice'', ''bob'']]"
    "data s' = data example_store" "delay_lists s' = delay_lists example_store"
    using cs_InsertChatInstance_spec [OF example_store_inv] unfolding new_instance_def by blast
  moreover have "rooms example_store = []" by (simp add: example_store_def rooms_new)
  ultimately show "store_inv moved_store"
    "rooms moved_store = [new_instance ''r1'' ''10.0.0.9'' [''alice'', ''bob'']]"
    "data moved_store = data example_store" "delay_lists moved_store = delay_lists example_store"
    by (simp_all add: moved_store_def)
qed

lemma best_server_moved:
  "delay_lists s = delay_lists example_store \<Longrightarrow>
    best_server quiet_env i s ''alice'' ''bob'' = Ret ''10.0.0.3''"
  by (simp add: best_server_def example_delay_lists quiet_env_def compute_optimal_server_def
      server_latency_def get0_def init_best_def max_f64_def)

theorem reroute_moves_room_witness:
  "\<exists>b'. reroute quiet_env 0 (new_instance ''r1'' ''10.0.0.9'' [''alice'', ''bob''])
       \<lparr>bg_store = moved_store, redirects = []\<rparr> = (Ret (), b') \<and>
     rooms (bg_store b') = [new_instance ''r1'' ''10.0.0.3'' [''alice'', ''bob'']] \<and>
     redirects b' = [(''10.0.0.1'', ''10.0.0.3''), (''10.0.0.2'', ''10.0.0.3'')]"
proof -
  let ?b = "\<lparr>bg_store = moved_store, redirects = []\<rparr>"
  have "map_order (data s) (bg_name_order quiet_env s)" if "data s = data (bg_store ?b)" for s
    using that example_store_order by (simp add: moved_store_simps quiet_env_def)
  from reroute_moves_room [OF undisturbed_quiet_env, of ?b "[]"
      "new_instance ''r1'' ''10.0.0.9'' [''alice'', ''bob'']" "[]" "''alice''" "''bob''" 0 "''10.0.0.3''"
      "''10.0.0.1''" "''10.0.0.2''", OF _ _ _ _ _ _ _ _ this]
  show ?thesis
    by (simp add: moved_store_simps only_together_def best_server_moved new_instance_def)
      (auto simp: quiet_env_def example_store_def)
qed


text \<open>A tick changes nothing when every room is already on the best server for its users, or
  the delays of one of them are unknown.\<close>

lemma settled_tick_changes_nothing:
  assumes "undisturbed env" "store_inv (bg_store b)"
    and "\<And>i c. i < length (rooms (bg_store b)) \<Longrightarrow> c = rooms (bg_store b) ! i \<Longrightarrow>
      \<exists>u1 u2. users c = [u1, u2] \<and>
        (\<forall>srv. best_server env i (bg_store b) u1 u2 = Ret srv \<longrightarrow> srv = chat_server c)"
  shows "bg_tick env b = (Ret (), b)"
proof -
  have "bg_loop env (chat_instances (bg_store b)) is b = (Ret (), b)"
    if "set is \<subseteq> {..<length (rooms (bg_store b))}" for "is"
    using that
  proof (induction "is")
    case (Cons i js)
    then have i: "i < length (rooms (bg_store b))" by simp
    obtain u1 u2 where u: "users (rooms (bg_store b) ! i) = [u1, u2]"
        "\<forall>srv. best_server env i (bg_store b) u1 u2 = Ret srv \<longrightarrow> srv = chat_server (rooms (bg_store b) ! i)"
      using assms(3) [OF i refl] by blast
    have "reroute env i (rooms (bg_store b) ! i) b = (Ret (), b)"
      using u(2) by (simp add: reroute_undisturbed [OF assms(1) u(1)] split: result.splits)
    with Cons assms(1) own_header_nth [OF assms(2) i] show ?case by (simp add: Let_def)
  qed simp
  then show ?thesis
    by (simp add: bg_tick_def cs_GetAllChatInstances_def sl_len_rooms [OF assms(2)] atLeast0LessThan)
qed

text \<open>C38. Two rooms that both need a new server: the tick moves the first and never looks at the
  second, because the move shifts it to the index already passed, and the loop reads the
  first room again in its place.\<close>

theorem tick_skips_the_next_room:
  assumes "undisturbed env" "store_inv (bg_store b)" "rooms (bg_store b) = [c, d]"
    and "users c = [u1, u2]" "users d = [v1, v2]" "u1 \<notin> {v1, v2}" "u2 \<notin> {v1, v2}"
    and "\<And>i s. delay_lists s = delay_lists (bg_store b) \<Longrightarrow> best_server env i s u1 u2 = Ret srv"
    and "srv \<noteq> chat_server c"
    and "\<And>i s. delay_lists s = delay_lists (bg_store b) \<Longrightarrow> best_server env i s v1 v2 = Ret srv'"
    and "srv' \<noteq> chat_server d"
  shows "\<exists>b'. bg_tick env b = (Ret (), b') \<and>
    rooms (bg_store b') = [d, new_instance (room_id c) srv [u1, u2]]"
proof -
  let ?c' = "new_instance (room_id c) srv [u1, u2]"
  have only: "only_together u1 u2 ([] @ [d])" using assms(5-7) by (simp add: only_together_def)
  obtain b1 where b1: "reroute env 0 c b = (Ret (), b1)" "store_inv (bg_store b1)"
      "rooms (bg_store b1) = [d, ?c']" "delay_lists (bg_store b1) = delay_lists (bg_store b)"
      "chat_instances (bg_store b1) = chat_instances (bg_store b)"
    using moved_room [of env b "[]" c "[d]" u1 u2 0 srv, OF assms(1,2) _ assms(4) only assms(8) [OF refl] assms(9)]
      assms(3) by auto
  have len: "sl_len (chat_instances (bg_store b)) = 2"
    using sl_len_rooms [OF assms(2)] assms(3) by simp
  have "slice_get (store_arrays (bg_store b)) (chat_instances (bg_store b)) 0 = Ret c"
    using own_header_nth [OF assms(2), of 0] assms(3) by simp
  moreover have "slice_get (store_arrays (bg_store b1)) (chat_instances (bg_store b)) 1 = Ret ?c'"
    using own_header_nth [OF b1(2), of 1] b1(3,5) by simp
  moreover have "reroute env 1 ?c' b1 = (Ret (), b1)"
    using assms(8) [OF b1(4), of 1]
    by (simp add: reroute_undisturbed [OF assms(1), of _ u1 u2] new_instance_def)
  ultimately have "bg_tick env b = (Ret (), b1)"
    using assms(1) b1(1)
    by (simp add: bg_tick_def cs_GetAllChatInstances_def len upt_rec numeral_2_eq_2 Let_def)
  with b1(3) show ?thesis by blast
qed


definition skipped_store :: client_store where
  "skipped_store = snd (cs_InsertChatInstance 0 ''r2'' ''10.0.0.9'' [''bob'', ''bob'']
     (snd (cs_InsertChatInstance 0 ''r1'' ''10.0.0.9'' [''alice'', ''alice''] example_store)))"

lemma two_inserted:
  assumes "store_inv s" "rooms s = []"
  shows "store_inv (snd (cs_InsertChatInstance e2 r2 srv2 us2 (snd (cs_InsertChatInstance e1 r1 srv1 us1 s)))) \<and>
   rooms (snd (cs_InsertChatInstance e2 r2 srv2 us2 (snd (cs_InsertChatInstance e1 r1 srv1 us1 s)))) =
     [new_instance r1 srv1 us1, new_instance r2 srv2 us2] \<and>
   data (snd (cs_InsertChatInstance e2 r2 srv2 us2 (snd (cs_InsertChatInstance e1 r1 srv1 us1 s)))) = data s \<and>
   delay_lists (snd (cs_InsertChatInstance e2 r2 srv2 us2 (snd (cs_InsertChatInstance e1 r1 srv1 us1 s)))) = delay_lists s"
proof -
  obtain s1 where s1: "cs_InsertChatInstance e1 r1 srv1 us1 s = (Ret r1, s1)"
      "store_inv s1" "rooms s1 = rooms s @ [new_instance r1 srv1 us1]"
      "data s1 = data s" "delay_lists s1 = delay_lists s"
    using cs_InsertChatInstance_spec [OF assms(1)] unfolding new_instance_def by metis
  obtain s2 where "cs_InsertChatInstance e2 r2 srv2 us2 s1 = (Ret r2, s2)"
      "store_inv s2" "rooms s2 = rooms s1 @ [new_instance r2 srv2 us2]"
      "data s2 = data s1" "delay_lists s2 = delay_lists s1"
    using cs_InsertChatInstance_spec [OF s1(2)] unfolding new_instance_def by metis
  with s1 assms show ?thesis by simp
qed

lemma rooms_example_store: "rooms example_store = []"
  by (simp add: example_store_def rooms_new)

lemma best_server_same:
  "delay_lists s = delay_lists example_store \<Longrightarrow> u = ''alice'' \<or> u = ''bob'' \<Longrightarrow>
    best_server quiet_env i s u u = Ret ''10.0.0.3''"
  by (auto simp: best_server_def example_delay_lists quiet_env_def compute_optimal_server_def
      server_latency_def get0_def init_best_def max_f64_def)

theorem tick_skips_the_next_room_witness:
  "\<exists>b'. bg_tick quiet_env \<lparr>bg_store = skipped_store, redirects = []\<rparr> = (Ret (), b') \<and>
     rooms (bg_store b') = [new_instance ''r2'' ''10.0.0.9'' [''bob'', ''bob''],
       new_instance ''r1'' ''10.0.0.3'' [''alice'', ''alice'']]"
proof -
  let ?b = "\<lparr>bg_store = skipped_store, redirects = []\<rparr>"
  note s = two_inserted [OF example_store_inv rooms_example_store, of 0 "''r2''" "''10.0.0.9''" "[''bob'', ''bob'']"
      0 "''r1''" "''10.0.0.9''" "[''alice'', ''alice'']", folded skipped_store_def]
  show ?thesis
    using tick_skips_the_next_room [OF undisturbed_quiet_env, of ?b
        "new_instance ''r1'' ''10.0.0.9'' [''alice'', ''alice'']"
        "new_instance ''r2'' ''10.0.0.9'' [''bob'', ''bob'']" "''alice''" "''alice''" "''bob''" "''bob''"
        "''10.0.0.3''" "''10.0.0.3''"] s best_server_same
    by (simp add: new_instance_def)
qed

text \<open>C39. A user in two rooms loses one when the other is moved: the room with \<open>u1\<close> and \<open>u2\<close> is
  rerouted and a later room of \<open>u2\<close> disappears from the list; the clients told are only
  \<open>u1\<close> and \<open>u2\<close>.\<close>

theorem reroute_drops_other_room:
  assumes "undisturbed env" "store_inv (bg_store b)" "rooms (bg_store b) = xs @ c # ys @ d # zs"
    and "users c = [u1, u2]" "u2 \<in> set (users d)" "only_together u1 u2 (xs @ ys)"
    and "best_server env i (bg_store b) u1 u2 = Ret srv" "srv \<noteq> chat_server c"
  shows "\<exists>b'. reroute env i c b = (Ret (), b') \<and>
    rooms (bg_store b') = xs @ ys @ zs @ [new_instance (room_id c) srv [u1, u2]] \<and>
    length (redirects b') \<le> length (redirects b) + 2"
proof -
  have "\<not> list_ex (\<lambda>c. u1 \<in> set (users c)) xs" "\<not> list_ex (\<lambda>c. u2 \<in> set (users c)) (xs @ ys)"
    using assms(6) by (auto simp: only_together_def list_ex_iff)
  then have "remove_first (\<lambda>c. u2 \<in> set (users c))
      (remove_first (\<lambda>c. u1 \<in> set (users c)) (rooms (bg_store b))) = xs @ ys @ zs"
    using assms(3-5) by (simp add: remove_first_append)
  moreover have "length (told env i s srv u1 u2) \<le> 2" for s
    by (simp add: told_def split: result.splits)
  ultimately show ?thesis
    using reroute_moves [OF assms(1,4,2,7,8)] by fastforce
qed

definition twice_store :: client_store where
  "twice_store = snd (cs_InsertChatInstance 0 ''r2'' ''10.0.0.3'' [''bob'', ''carol'']
     (snd (cs_InsertChatInstance 0 ''r1'' ''10.0.0.9'' [''alice'', ''bob''] example_store)))"

theorem reroute_drops_other_room_witness:
  "\<exists>b'. reroute quiet_env 0 (new_instance ''r1'' ''10.0.0.9'' [''alice'', ''bob''])
       \<lparr>bg_store = twice_store, redirects = []\<rparr> = (Ret (), b') \<and>
     rooms (bg_store b') = [new_instance ''r1'' ''10.0.0.3'' [''alice'', ''bob'']]"
proof -
  let ?b = "\<lparr>bg_store = twice_store, redirects = []\<rparr>"
  note s = two_inserted [OF example_store_inv rooms_example_store, of 0 "''r2''" "''10.0.0.3''" "[''bob'', ''carol'']"
      0 "''r1''" "''10.0.0.9''" "[''alice'', ''bob'']", folded twice_store_def]
  show ?thesis
    using reroute_drops_other_room [OF undisturbed_quiet_env, of ?b "[]"
        "new_instance ''r1'' ''10.0.0.9'' [''alice'', ''bob'']" "[]"
        "new_instance ''r2'' ''10.0.0.3'' [''bob'', ''carol'']" "[]" "''alice''" "''bob''" 0
        "''10.0.0.3''"] s best_server_moved
    by (auto simp: new_instance_def only_together_def)
qed

end
