(* ===== verification/Service_Registry.thy ===== *)
theory Service_Registry
  imports Client_API
begin

text \<open>
  Service discovery: the service store (\<^verbatim>\<open>Central/internal/service/store.go\<close>), its REST
  handlers (\<^verbatim>\<open>Central/internal/service/api.go\<close>) and the heartbeat job of a chat server
  that keeps its entry alive (\<^verbatim>\<open>Server/jobs/heartbeat.go\<close>).

  Times are integers in nanoseconds, as \<^verbatim>\<open>time.Duration\<close> is; \<^verbatim>\<open>time.Now()\<close> is an argument
  of the operation that reads the clock.
\<close>

section \<open>State\<close>

record service_heartbeat =
  last_heartbeat :: int

record service_store =
  services :: "string \<rightharpoonup> service_heartbeat"

definition second :: int where "second = 1000000000"

definition new_service_store :: service_store where
  "new_service_store = \<lparr>services = Map.empty\<rparr>"

section \<open>Store operations\<close>

definition ss_Create :: "int \<Rightarrow> string \<Rightarrow> (service_store, unit) op" where
  "ss_Create now ip s =
     (Ret (), s\<lparr>services := (services s)(ip \<mapsto> \<lparr>last_heartbeat = now\<rparr>)\<rparr>)"

text \<open>The services heard of within ten seconds, in the order \<open>ks\<close> of the iteration.\<close>

fun ss_read_loop :: "int \<Rightarrow> service_store \<Rightarrow> string list \<Rightarrow> string list \<Rightarrow> string list" where
  "ss_read_loop now s [] ips = ips"
| "ss_read_loop now s (ip # ks) ips = (case services s ip of
       Some heartbeat \<Rightarrow>
         if now - last_heartbeat heartbeat \<le> 10 * second
         then ss_read_loop now s ks (ips @ [ip]) else ss_read_loop now s ks ips
     | None \<Rightarrow> ss_read_loop now s ks ips)"

definition ss_Read :: "int \<Rightarrow> string list \<Rightarrow> service_store \<Rightarrow> string list result" where
  "ss_Read now ks s = Ret (ss_read_loop now s ks [])"

fun ss_Delete :: "int \<Rightarrow> string list \<Rightarrow> string \<Rightarrow> (service_store, unit) op" where
  "ss_Delete now [] ip s = (Fail (''IP '' @ ip @ '' not found''), s)"
| "ss_Delete now (k # ks) ip s =
     (if k = ip
      then (Ret (), s\<lparr>services := (services s)(k \<mapsto> \<lparr>last_heartbeat = now\<rparr>)\<rparr>)
      else ss_Delete now ks ip s)"

fun ss_Patch :: "int \<Rightarrow> string list \<Rightarrow> string \<Rightarrow> (service_store, string) op" where
  "ss_Patch now [] ip s = (Fail (''IP '' @ ip @ '' not found''), s)"
| "ss_Patch now (k # ks) ip s =
     (if k = ip
      then (Ret ip, s\<lparr>services := (services s)(k \<mapsto> \<lparr>last_heartbeat = now\<rparr>)\<rparr>)
      else ss_Patch now ks ip s)"

section \<open>Handlers\<close>

definition RegisterService :: "int \<Rightarrow> string \<Rightarrow> service_store \<Rightarrow> response \<times> service_store" where
  "RegisterService now clientIP s = (case ss_Create now clientIP s of
       (Fail e, s') \<Rightarrow> (\<lparr>status = StatusConflict, body = error_body e\<rparr>, s')
     | (Panic, s') \<Rightarrow> (panic_response, s')
     | (Ret _, s') \<Rightarrow> (\<lparr>status = StatusCreated,
           body = [(''message'', JStr ''Service registered''), (''ip'', JStr clientIP)]\<rparr>, s'))"

definition GetServices :: "int \<Rightarrow> string list \<Rightarrow> service_store \<Rightarrow> response" where
  "GetServices now ks s = (case ss_Read now ks s of
       Fail e \<Rightarrow> \<lparr>status = StatusNotFound, body = error_body e\<rparr>
     | Panic \<Rightarrow> panic_response
     | Ret ips \<Rightarrow> \<lparr>status = StatusOK, body = [(''services'', JList ips)]\<rparr>)"

text \<open>
  \<^verbatim>\<open>PatchService\<close> registers first, ignoring the outcome, then patches; the second range
  visits the map as it is after the first call, in an order \<open>ord\<close> of that map.
\<close>

definition PatchService ::
    "int \<Rightarrow> int \<Rightarrow> (service_store \<Rightarrow> string list) \<Rightarrow> string \<Rightarrow> service_store \<Rightarrow> response \<times> service_store" where
  "PatchService t1 t2 ord clientIP s =
     (let s1 = snd (ss_Create t1 clientIP s) in
      case ss_Patch t2 (ord s1) clientIP s1 of
        (Fail e, s') \<Rightarrow> (\<lparr>status = StatusConflict, body = error_body e\<rparr>, s')
      | (Panic, s') \<Rightarrow> (panic_response, s')
      | (Ret _, s') \<Rightarrow> (\<lparr>status = StatusOK,
            body = [(''message'', JStr ''Service patched''), (''ip'', JStr clientIP)]\<rparr>, s'))"

definition DeleteService ::
    "int \<Rightarrow> string list \<Rightarrow> string \<Rightarrow> service_store \<Rightarrow> response \<times> service_store" where
  "DeleteService now ks clientIP s = (case ss_Delete now ks clientIP s of
       (Fail e, s') \<Rightarrow> (\<lparr>status = StatusNotFound, body = error_body e\<rparr>, s')
     | (Panic, s') \<Rightarrow> (panic_response, s')
     | (Ret _, s') \<Rightarrow> (\<lparr>status = StatusOK,
           body = [(''message'', JStr ''Service deleted''), (''ip'', JStr clientIP)]\<rparr>, s'))"

section \<open>The heartbeat job of a chat server\<close>

record heartbeat_job =
  serverURL :: string
  interval :: int
  registered :: bool

text \<open>
  \<^verbatim>\<open>readConfig\<close>: \<open>file\<close> is the content of the configuration file, or the error of reading it.
\<close>

definition readConfig :: "string result \<Rightarrow> string result" where
  "readConfig file = (case file of
       Fail e \<Rightarrow> Fail (''failed to read config file: '' @ e)
     | Panic \<Rightarrow> Panic
     | Ret contents \<Rightarrow>
         (let url = trim_space contents in
          if url = [] then Fail ''config file is empty'' else Ret url))"

definition NewHeartbeatJob :: "int \<Rightarrow> string result \<Rightarrow> heartbeat_job result" where
  "NewHeartbeatJob intv file = (case readConfig file of
       Fail e \<Rightarrow> Fail (''error reading config: '' @ e)
     | Panic \<Rightarrow> Panic
     | Ret url \<Rightarrow> Ret \<lparr>serverURL = url, interval = intv, registered = False\<rparr>)"

text \<open>
  The job's requests go to a central server whose answer is the argument: \<^term>\<open>None\<close> when
  the request fails, otherwise the status code.
\<close>

definition registerService :: "nat option \<Rightarrow> heartbeat_job \<Rightarrow> heartbeat_job" where
  "registerService resp h = (case resp of
       None \<Rightarrow> h
     | Some code \<Rightarrow> if code = StatusCreated then h\<lparr>registered := True\<rparr> else h)"

definition sendHeartbeat :: "nat option \<Rightarrow> heartbeat_job \<Rightarrow> heartbeat_job" where
  "sendHeartbeat resp h = h"

datatype http_method = POST | PATCH

definition heartbeat_request :: "heartbeat_job \<Rightarrow> http_method \<times> string" where
  "heartbeat_request h =
     (if \<not> registered h then (POST, serverURL h @ ''/services'')
      else (PATCH, serverURL h @ ''/services''))"

definition heartbeat_tick :: "nat option \<Rightarrow> heartbeat_job \<Rightarrow> heartbeat_job" where
  "heartbeat_tick resp h = (if \<not> registered h then registerService resp h else sendHeartbeat resp h)"

text \<open>
  One tick against the central server: the request reaches it at time \<open>t\<close> when the network
  delivers it (\<open>up\<close>), and its answer comes back.
\<close>

definition beat_central ::
    "(service_store \<Rightarrow> string list) \<Rightarrow> string \<Rightarrow> bool \<Rightarrow> int \<Rightarrow>
      heartbeat_job \<times> service_store \<Rightarrow> heartbeat_job \<times> service_store" where
  "beat_central ord ip up t = (\<lambda>(h, s).
     if \<not> up then (heartbeat_tick None h, s)
     else (case fst (heartbeat_request h) of
         POST \<Rightarrow> (case RegisterService t ip s of
             (r, s') \<Rightarrow> (heartbeat_tick (Some (status r)) h, s'))
       | PATCH \<Rightarrow> (case PatchService t t ord ip s of
             (r, s') \<Rightarrow> (heartbeat_tick (Some (status r)) h, s'))))"

text \<open>The first \<open>n\<close> ticks of a job started at time 0, \<open>ups\<close> telling which get through.\<close>

fun run_heartbeat ::
    "(service_store \<Rightarrow> string list) \<Rightarrow> string \<Rightarrow> (nat \<Rightarrow> bool) \<Rightarrow> nat \<Rightarrow>
      heartbeat_job \<times> service_store \<Rightarrow> heartbeat_job \<times> service_store" where
  "run_heartbeat ord ip ups 0 hs = hs"
| "run_heartbeat ord ip ups (Suc n) hs =
     beat_central ord ip (ups n) (int (Suc n) * interval (fst hs)) (run_heartbeat ord ip ups n hs)"


section \<open>Facts\<close>

text \<open>The services that have been heard of in the last ten seconds.\<close>

definition live :: "int \<Rightarrow> service_store \<Rightarrow> string set" where
  "live now s = {ip. \<exists>h. services s ip = Some h \<and> now - last_heartbeat h \<le> 10 * second}"

definition last_beat_of :: "service_store \<Rightarrow> string \<rightharpoonup> int" where
  "last_beat_of s ip = map_option last_heartbeat (services s ip)"

lemma ss_read_loop_filter:
  "ss_read_loop now s ks ips = ips @ filter (\<lambda>ip. ip \<in> live now s) ks"
  by (induction ks arbitrary: ips) (auto simp: live_def split: option.splits)

lemma ss_Patch_iff:
  "ss_Patch now ks ip s =
     (if ip \<in> set ks
      then (Ret ip, s\<lparr>services := (services s)(ip \<mapsto> \<lparr>last_heartbeat = now\<rparr>)\<rparr>)
      else (Fail (''IP '' @ ip @ '' not found''), s))"
  by (induction ks) (auto simp: fun_upd_def)

lemma ss_Delete_iff:
  "ss_Delete now ks ip s =
     (if ip \<in> set ks
      then (Ret (), s\<lparr>services := (services s)(ip \<mapsto> \<lparr>last_heartbeat = now\<rparr>)\<rparr>)
      else (Fail (''IP '' @ ip @ '' not found''), s))"
  by (induction ks) (auto simp: fun_upd_def)

lemma ss_Create_snd:
  "snd (ss_Create now ip s) = s\<lparr>services := (services s)(ip \<mapsto> \<lparr>last_heartbeat = now\<rparr>)\<rparr>"
  by (simp add: ss_Create_def)

interpretation service_live: liveness_registry
  "\<lambda>t ip s. snd (ss_Create t ip s)" live last_beat_of "10 * second"
  by unfold_locales (auto simp: ss_Create_snd last_beat_of_def live_def fun_eq_iff)

text \<open>A map order visits every key; that the service's own key is visited is all the patch needs.\<close>

definition visits :: "(service_store \<Rightarrow> string list) \<Rightarrow> string \<Rightarrow> bool" where
  "visits ord ip \<longleftrightarrow> (\<forall>s. services s ip \<noteq> None \<longrightarrow> ip \<in> set (ord s))"

lemma PatchService_outcome:
  assumes "visits ord ip"
  shows "PatchService t1 t2 ord ip s =
    (\<lparr>status = StatusOK,
      body = [(''message'', JStr ''Service patched''), (''ip'', JStr ip)]\<rparr>,
     snd (ss_Create t2 ip s))"
proof -
  have "ip \<in> set (ord (snd (ss_Create t1 ip s)))"
    using assms by (simp add: visits_def ss_Create_snd)
  then show ?thesis
    by (simp add: PatchService_def ss_Patch_iff Let_def ss_Create_def)
qed

lemma beat_central_up:
  "visits ord ip \<Longrightarrow>
    beat_central ord ip True t (h, s) = (h\<lparr>registered := True\<rparr>, snd (ss_Create t ip s))"
  by (auto simp: beat_central_def heartbeat_request_def heartbeat_tick_def sendHeartbeat_def
      PatchService_outcome RegisterService_def registerService_def ss_Create_def status_defs)

lemma beat_central_down: "beat_central ord ip False t hs = hs"
  by (cases hs) (auto simp: beat_central_def heartbeat_tick_def sendHeartbeat_def registerService_def)

lemma run_heartbeat_job:
  assumes "visits ord ip" "\<not> registered (fst hs)"
  shows "fst (run_heartbeat ord ip ups n hs) =
    (fst hs)\<lparr>registered := (\<exists>j<n. ups j)\<rparr>"
proof (induction n)
  case 0
  then show ?case using assms(2) by simp
next
  case (Suc n)
  obtain h s where hs: "run_heartbeat ord ip ups n hs = (h, s)" by fastforce
  have "(\<exists>j<Suc n. ups j) \<longleftrightarrow> ups n \<or> (\<exists>j<n. ups j)" by (auto simp: less_Suc_eq)
  with Suc hs show ?case
    by (cases "ups n") (simp_all add: beat_central_up [OF assms(1)] beat_central_down)
qed

lemma run_heartbeat_last:
  assumes "visits ord ip" "ups j" "j < n" "\<forall>i. j < i \<and> i < n \<longrightarrow> \<not> ups i"
  shows "last_beat_of (snd (run_heartbeat ord ip ups n hs)) ip = Some (int (Suc j) * interval (fst hs))"
  using assms(3,4)
proof (induction n)
  case (Suc n)
  obtain h s where hs: "run_heartbeat ord ip ups n hs = (h, s)" by fastforce
  show ?case
  proof (cases "ups n")
    case True
    with Suc.prems have "j = n" by (metis less_antisym lessI)
    with True hs show ?thesis
      by (simp add: beat_central_up [OF assms(1)] service_live.beat_last)
  next
    case False
    with Suc.prems assms(2) have "j < n" by (metis less_antisym)
    with False hs Suc show ?thesis by (simp add: beat_central_down)
  qed
qed simp

text \<open>The last tick that got through, when no three in a row are lost.\<close>

lemma last_success:
  assumes gap: "\<forall>k. ups k \<or> ups (Suc k) \<or> ups (k + 2)" and n: "3 \<le> n"
  obtains j where "ups j" "j < n" "n \<le> j + 3" "\<forall>i. j < i \<and> i < n \<longrightarrow> \<not> ups i"
proof -
  let ?S = "{i. i < n \<and> ups i}"
  obtain k where "n = k + 3" using n by (metis le_Suc_ex add.commute)
  moreover obtain i where "ups i" "i \<in> {k, Suc k, k + 2}" using gap by blast
  ultimately have w: "\<exists>i\<in>?S. n \<le> i + 3" by (intro bexI [of _ i]) auto
  have fin: "finite ?S" by simp
  have "Max ?S \<in> ?S" using w fin by (intro Max_in) auto
  moreover have "n \<le> Max ?S + 3"
    using w Max_ge [OF fin] by (meson add_le_mono1 le_trans)
  moreover have "\<not> ups i" if "Max ?S < i" "i < n" for i
  proof
    assume "ups i"
    with that(2) have "i \<le> Max ?S" by (intro Max_ge [OF fin]) simp
    with that(1) show False by simp
  qed
  ultimately show thesis using that by blast
qed

section \<open>Properties\<close>

lemma GetServices_live:
  assumes "map_order (services s) ks"
  shows "\<exists>ips. GetServices now ks s = \<lparr>status = 200, body = [(''services'', JList ips)]\<rparr> \<and>
    distinct ips \<and> set ips = live now s"
proof -
  have "set (filter (\<lambda>ip. ip \<in> live now s) ks) = live now s"
    using assms by (auto simp: live_def map_order_def)
  moreover have "distinct (filter (\<lambda>ip. ip \<in> live now s) ks)"
    using assms by (simp add: map_order_def)
  ultimately show ?thesis
    by (simp add: GetServices_def ss_Read_def ss_read_loop_filter StatusOK_def)
qed

text \<open>The service list is exactly the services whose last heartbeat is at most ten
  seconds old, each once, whatever order the map is visited in.\<close>

lemma GetServices_lists_live:
  assumes "map_order (services s) ks"
  shows "\<exists>ips. GetServices now ks s = \<lparr>status = 200, body = [(''services'', JList ips)]\<rparr> \<and>
    distinct ips \<and> set ips = live now s"
  by (rule GetServices_live [OF assms])

text \<open>A chat server whose heartbeats run every three seconds stays listed as long as no
  three consecutive requests are lost: from the third tick on it is live at every moment
  up to the next tick, whatever the registry held before (a restarted, empty one included).\<close>

lemma heartbeat_keeps_listed:
  assumes "visits ord ip" and "interval h = 3 * second"
    and "\<forall>k. ups k \<or> ups (Suc k) \<or> ups (k + 2)" and "3 \<le> n"
    and "now \<le> int (Suc n) * (3 * second)"
  shows "ip \<in> live now (snd (run_heartbeat ord ip ups n (h, s)))"
proof -
  obtain j where j: "ups j" "j < n" "n \<le> j + 3" "\<forall>i. j < i \<and> i < n \<longrightarrow> \<not> ups i"
    using last_success [OF assms(3,4)] by blast
  have "last_beat_of (snd (run_heartbeat ord ip ups n (h, s))) ip = Some (int (Suc j) * (3 * second))"
    using run_heartbeat_last [OF assms(1) j(1,2,4), of "(h, s)"] assms(2) by simp
  moreover have "now - int (Suc j) * (3 * second) \<le> 10 * second"
  proof -
    have "int (Suc n) * (3 * second) \<le> (int (Suc j) + 3) * (3 * second)"
      using j(3) by (intro mult_right_mono) (auto simp: second_def)
    with assms(5) show ?thesis by (simp add: second_def algebra_simps)
  qed
  ultimately show ?thesis by (simp add: service_live.listed_iff)
qed

text \<open>A heartbeat PATCH always succeeds and makes its sender live for the next ten
  seconds, even when the registry does not know the sender; no other entry changes.\<close>

lemma PatchService_revives:
  assumes "visits ord ip" and "PatchService t1 t2 ord ip s = (r, s')"
  shows "status r = 200 \<and> services s' = (services s)(ip \<mapsto> \<lparr>last_heartbeat = t2\<rparr>) \<and>
    (\<forall>now. ip \<in> live now s' \<longleftrightarrow> now - t2 \<le> 10 * second) \<and>
    (\<forall>ip' now. ip' \<noteq> ip \<longrightarrow> (ip' \<in> live now s' \<longleftrightarrow> ip' \<in> live now s))"
proof -
  have r: "status r = 200" and s': "s' = snd (ss_Create t2 ip s)"
    using assms(2) unfolding PatchService_outcome [OF assms(1)] by (auto simp: StatusOK_def)
  have "services s' = (services s)(ip \<mapsto> \<lparr>last_heartbeat = t2\<rparr>)"
    by (simp add: s' ss_Create_snd)
  moreover have "ip \<in> live now s' \<longleftrightarrow> now - t2 \<le> 10 * second" for now
    by (simp add: s' service_live.listed_iff service_live.beat_last)
  moreover have "ip' \<noteq> ip \<Longrightarrow> ip' \<in> live now s' \<longleftrightarrow> ip' \<in> live now s" for ip' now
    unfolding s' by (rule service_live.beat_other)
  ultimately show ?thesis using r by simp
qed

text \<open>The DELETE of a registered service answers 200 but does not take it off the list:
  the entry's heartbeat is set to the present, so the service counts as live for ten more
  seconds, even when it had dropped out before.\<close>

lemma DeleteService_keeps_alive:
  assumes "map_order (services s) ks" and "services s ip \<noteq> None"
    and "DeleteService now ks ip s = (r, s')"
  shows "status r = 200 \<and> ip \<in> live now s' \<and> ip \<in> live (now + 10 * second) s'"
proof -
  have "ip \<in> set ks" using assms(1,2) by (auto simp: map_order_def)
  then show ?thesis
    using assms(3) by (auto simp: DeleteService_def ss_Delete_iff live_def second_def StatusOK_def)
qed

end
