(* ===== verification/Chat_Server.thy ===== *)
theory Chat_Server
  imports Go_Strings
begin

text \<open>
  The chat server, \<^verbatim>\<open>Server/internal/chat/chat.go\<close>. Every accepted connection has a goroutine
  running \<^verbatim>\<open>handleClient\<close>; they share the map from rooms to connections, and each access to
  it is one critical section. The goroutines are therefore modelled as a machine that takes
  one read outcome of one connection at a time: \<open>phase\<close> records how far the handler of each
  connection has come, \<open>clients\<close> is the shared map, \<open>delivered\<close> the bytes written to each
  connection so far.

  A connection is a number. Which writes succeed is decided by the environment, the
  argument \<open>alive\<close>.
\<close>

section \<open>State\<close>

datatype phase =
    Joining string
  | InRoom string string
  | Closed

record chat_manager =
  clients :: "string \<rightharpoonup> nat list"
  phase :: "nat \<rightharpoonup> phase"
  delivered :: "nat \<Rightarrow> string"

definition NewChatManager :: chat_manager where
  "NewChatManager = \<lparr>clients = Map.empty, phase = Map.empty, delivered = (\<lambda>_. [])\<rparr>"

section \<open>Operations\<close>

text \<open>\<open>Start\<close> accepts a connection and starts its handler, which waits for the first line.\<close>

definition accept_client :: "nat \<Rightarrow> chat_manager \<Rightarrow> chat_manager" where
  "accept_client c cm = cm\<lparr>phase := (phase cm)(c \<mapsto> Joining [])\<rparr>"

text \<open>\<^verbatim>\<open>fmt.Sprintf("%s: %s\n", username, message)\<close>\<close>

definition chat_line :: "string \<Rightarrow> string \<Rightarrow> string" where
  "chat_line username message = username @ '': '' @ message @ [newline]"

definition write_line :: "(nat \<Rightarrow> bool) \<Rightarrow> string \<Rightarrow> nat \<Rightarrow> chat_manager \<Rightarrow> chat_manager" where
  "write_line alive line c cm =
     (if alive c then cm\<lparr>delivered := (delivered cm)(c := delivered cm c @ line)\<rparr> else cm)"

definition broadcastMessage ::
    "(nat \<Rightarrow> bool) \<Rightarrow> string \<Rightarrow> string \<Rightarrow> string \<Rightarrow> chat_manager \<Rightarrow> chat_manager" where
  "broadcastMessage alive username roomId message cm = (case clients cm roomId of
       None \<Rightarrow> cm
     | Some clientsInRoom \<Rightarrow> fold (write_line alive (chat_line username message)) clientsInRoom cm)"

text \<open>Adding to the room: a missing entry of the map reads as the empty slice.\<close>

definition join_room :: "string \<Rightarrow> nat \<Rightarrow> chat_manager \<Rightarrow> chat_manager" where
  "join_room roomId c cm = cm\<lparr>clients := (clients cm)(roomId \<mapsto>
     (case clients cm roomId of None \<Rightarrow> [] | Some cs \<Rightarrow> cs) @ [c])\<rparr>"

text \<open>
  \<^verbatim>\<open>ReadString('\n')\<close> of the buffered reader: the line up to the first newline. What the same
  read brought after it stays in the reader's buffer, which the handler never looks at again.
\<close>

definition first_line :: "string \<Rightarrow> string option" where
  "first_line s = (if List.member s newline
     then Some (takeWhile (\<lambda>x. x \<noteq> newline) s @ [newline]) else None)"

definition parse_join :: "string \<Rightarrow> (string \<times> string) option" where
  "parse_join input =
     (let parts = split_n2 (CHR ''#'') (trim_space input) in
      if length parts \<noteq> 2 then None else Some (parts ! 0, parts ! 1))"

text \<open>A read of \<open>chunk\<close> from connection \<open>c\<close>.\<close>

definition on_read :: "(nat \<Rightarrow> bool) \<Rightarrow> nat \<Rightarrow> string \<Rightarrow> chat_manager \<Rightarrow> chat_manager" where
  "on_read alive c chunk cm = (case phase cm c of
       Some (Joining acc) \<Rightarrow>
         (case first_line (acc @ chunk) of
            None \<Rightarrow> cm\<lparr>phase := (phase cm)(c \<mapsto> Joining (acc @ chunk))\<rparr>
          | Some input \<Rightarrow> (case parse_join input of
                None \<Rightarrow> cm\<lparr>phase := (phase cm)(c \<mapsto> Closed)\<rparr>
              | Some (username, roomId) \<Rightarrow>
                  join_room roomId c (cm\<lparr>phase := (phase cm)(c \<mapsto> InRoom username roomId)\<rparr>)))
     | Some (InRoom username roomId) \<Rightarrow>
         if chunk = [] then cm else broadcastMessage alive username roomId chunk cm
     | Some Closed \<Rightarrow> cm
     | None \<Rightarrow> cm)"

text \<open>A read error ends the handler, whose deferred call closes the connection.\<close>

definition on_error :: "nat \<Rightarrow> chat_manager \<Rightarrow> chat_manager" where
  "on_error c cm = (case phase cm c of
       None \<Rightarrow> cm
     | Some _ \<Rightarrow> cm\<lparr>phase := (phase cm)(c \<mapsto> Closed)\<rparr>)"

datatype chat_event = Accept nat | Read nat string | Err nat

text \<open>A connection that is accepted is a new one.\<close>

fun chat_step :: "(nat \<Rightarrow> bool) \<Rightarrow> chat_event \<Rightarrow> chat_manager \<Rightarrow> chat_manager" where
  "chat_step alive (Accept c) cm = (if phase cm c = None then accept_client c cm else cm)"
| "chat_step alive (Read c chunk) cm = on_read alive c chunk cm"
| "chat_step alive (Err c) cm = on_error c cm"

inductive chat_reachable :: "chat_manager \<Rightarrow> bool" where
  start: "chat_reachable NewChatManager"
| step: "chat_reachable cm \<Longrightarrow> chat_reachable (chat_step alive ev cm)"

lemma first_line_complete:
  "newline \<notin> set p \<Longrightarrow> first_line (p @ newline # rest) = Some (p @ [newline])"
proof -
  assume "newline \<notin> set p"
  then have "takeWhile (\<lambda>x. x \<noteq> newline) (p @ newline # rest) = p" by (induction p) auto
  then show ?thesis by (simp add: first_line_def)
qed

section \<open>Broadcasting\<close>

lemma write_line_simps [simp]:
  "clients (write_line alive l c cm) = clients cm"
  "phase (write_line alive l c cm) = phase cm"
  "delivered (write_line alive l c cm) d =
     delivered cm d @ (if d = c \<and> alive c then l else [])"
  by (simp_all add: write_line_def)

lemma write_lines_frame [simp]:
  "clients (fold (write_line alive l) cs cm) = clients cm"
  "phase (fold (write_line alive l) cs cm) = phase cm"
  by (induction cs arbitrary: cm) simp_all

lemma write_lines_delivered:
  "distinct cs \<Longrightarrow> delivered (fold (write_line alive l) cs cm) d =
    delivered cm d @ (if d \<in> set cs \<and> alive d then l else [])"
  by (induction cs arbitrary: cm) auto

definition members :: "chat_manager \<Rightarrow> string \<Rightarrow> nat list" where
  "members cm r = (case clients cm r of None \<Rightarrow> [] | Some cs \<Rightarrow> cs)"

lemma broadcast_frame [simp]:
  "clients (broadcastMessage alive u r m cm) = clients cm"
  "phase (broadcastMessage alive u r m cm) = phase cm"
  "members (broadcastMessage alive u r m cm) = members cm"
  by (simp_all add: broadcastMessage_def members_def fun_eq_iff split: option.split)

lemma broadcast_delivered:
  assumes "distinct (members cm r)"
  shows "delivered (broadcastMessage alive u r m cm) d =
    delivered cm d @ (if d \<in> set (members cm r) \<and> alive d then chat_line u m else [])"
proof (cases "clients cm r")
  case None
  then show ?thesis by (simp add: broadcastMessage_def members_def)
next
  case (Some cs)
  with assms show ?thesis
    by (simp add: broadcastMessage_def members_def write_lines_delivered)
qed

lemma join_room_members:
  "members (join_room r c cm) r' = members cm r' @ (if r' = r then [c] else [])"
  by (simp add: join_room_def members_def)

lemma join_room_frame [simp]:
  "phase (join_room r c cm) = phase cm" "delivered (join_room r c cm) = delivered cm"
  by (simp_all add: join_room_def)

lemma members_phase [simp]: "members (cm\<lparr>phase := p\<rparr>) = members cm"
  by (simp add: members_def fun_eq_iff)

section \<open>The machine's invariant\<close>

text \<open>
  A connection is a member of at most one room, once, and only after its handler has read a
  join line; a handler in a room is a member of it. Membership outlives the handler.
\<close>

definition chat_inv :: "chat_manager \<Rightarrow> bool" where
  "chat_inv cm \<longleftrightarrow>
     (\<forall>r. distinct (members cm r)) \<and>
     (\<forall>r r' c. c \<in> set (members cm r) \<longrightarrow> c \<in> set (members cm r') \<longrightarrow> r = r') \<and>
     (\<forall>c r. c \<in> set (members cm r) \<longrightarrow> phase cm c = Some Closed \<or> (\<exists>u. phase cm c = Some (InRoom u r))) \<and>
     (\<forall>c u r. phase cm c = Some (InRoom u r) \<longrightarrow> c \<in> set (members cm r) \<and> CHR ''#'' \<notin> set u)"

lemma chat_inv_distinct: "chat_inv cm \<Longrightarrow> distinct (members cm r)"
  by (simp add: chat_inv_def)

lemma chat_inv_member:
  "chat_inv cm \<Longrightarrow> c \<in> set (members cm r) \<Longrightarrow>
    phase cm c = Some Closed \<or> (\<exists>u. phase cm c = Some (InRoom u r))"
  by (simp add: chat_inv_def)

lemma chat_inv_joining: "chat_inv cm \<Longrightarrow> phase cm c = Some (Joining a) \<Longrightarrow> c \<notin> set (members cm r)"
  by (auto dest: chat_inv_member)

lemma chat_inv_new: "chat_inv NewChatManager"
  by (simp add: chat_inv_def NewChatManager_def members_def)

lemma chat_inv_broadcast: "chat_inv cm \<Longrightarrow> chat_inv (broadcastMessage alive u r m cm)"
  unfolding chat_inv_def by simp

lemma chat_inv_closed:
  "chat_inv cm \<Longrightarrow> chat_inv (cm\<lparr>phase := (phase cm)(c \<mapsto> Closed)\<rparr>)"
  unfolding chat_inv_def members_phase by (auto split: if_splits)

lemma chat_inv_still_joining:
  "chat_inv cm \<Longrightarrow> (\<forall>r. c \<notin> set (members cm r)) \<Longrightarrow>
    chat_inv (cm\<lparr>phase := (phase cm)(c \<mapsto> Joining a)\<rparr>)"
  unfolding chat_inv_def members_phase by (auto split: if_splits)

lemma chat_inv_join:
  assumes "chat_inv cm" "\<forall>r. c \<notin> set (members cm r)" "CHR ''#'' \<notin> set u"
  shows "chat_inv (join_room r c (cm\<lparr>phase := (phase cm)(c \<mapsto> InRoom u r)\<rparr>))"
  using assms unfolding chat_inv_def join_room_members members_phase join_room_frame
  by (auto split: if_splits)

lemma split_n2_hd: "hd (split_n2 c s) = takeWhile (\<lambda>x. x \<noteq> c) s"
  by (induction s) simp_all

lemma split_n2_first: "c \<notin> set (split_n2 c s ! 0)"
proof -
  have "split_n2 c s \<noteq> []" by (cases s) simp_all
  then have "split_n2 c s ! 0 = takeWhile (\<lambda>x. x \<noteq> c) s"
    using split_n2_hd [of c s] by (simp add: hd_conv_nth)
  then show ?thesis by (auto dest: set_takeWhileD)
qed

lemma parse_join_no_hash: "parse_join input = Some (u, r) \<Longrightarrow> CHR ''#'' \<notin> set u"
  using split_n2_first [of "CHR ''#''" "trim_space input"]
  by (auto simp: parse_join_def Let_def split: if_splits)

lemma chat_step_inv: "chat_inv cm \<Longrightarrow> chat_inv (chat_step alive ev cm)"
proof (induction alive ev cm rule: chat_step.induct)
  case (1 alive c cm)
  then have "phase cm c = None \<Longrightarrow> \<forall>r. c \<notin> set (members cm r)" by (auto dest: chat_inv_member)
  with 1 show ?case by (simp add: accept_client_def chat_inv_still_joining)
next
  case (2 alive c chunk cm)
  show ?case
  proof (cases "phase cm c")
    case (Some p)
    show ?thesis
    proof (cases p)
      case (Joining acc)
      with Some 2 have "\<forall>r. c \<notin> set (members cm r)" by (simp add: chat_inv_joining)
      with Some Joining 2 show ?thesis
        by (auto simp: on_read_def chat_inv_still_joining chat_inv_closed
            dest: parse_join_no_hash intro: chat_inv_join split: option.split)
    qed (use Some 2 in \<open>simp_all add: on_read_def chat_inv_broadcast\<close>)
  qed (use 2 in \<open>simp add: on_read_def\<close>)
next
  case (3 alive c cm)
  then show ?case by (simp add: on_error_def chat_inv_closed split: option.split)
qed

lemma chat_reachable_inv: "chat_reachable cm \<Longrightarrow> chat_inv cm"
  by (induction rule: chat_reachable.induct) (simp_all add: chat_inv_new chat_step_inv)


section \<open>Runs\<close>

text \<open>A run is a list of events, each with the writes that would succeed at that moment.\<close>

fun chat_run :: "((nat \<Rightarrow> bool) \<times> chat_event) list \<Rightarrow> chat_manager \<Rightarrow> chat_manager" where
  "chat_run [] cm = cm"
| "chat_run ((alive, ev) # evs) cm = chat_run evs (chat_step alive ev cm)"

text \<open>What one event, and a run, say in room \<open>r\<close>: the reference for the bytes on the wire.\<close>

definition said :: "string \<Rightarrow> chat_event \<Rightarrow> chat_manager \<Rightarrow> string" where
  "said r ev cm = (case ev of
       Read s chunk \<Rightarrow> (case phase cm s of
           Some (InRoom u r') \<Rightarrow> if r' = r \<and> chunk \<noteq> [] then chat_line u chunk else []
         | _ \<Rightarrow> [])
     | _ \<Rightarrow> [])"

fun room_log :: "string \<Rightarrow> ((nat \<Rightarrow> bool) \<times> chat_event) list \<Rightarrow> chat_manager \<Rightarrow> string" where
  "room_log r [] cm = []"
| "room_log r ((alive, ev) # evs) cm = said r ev cm @ room_log r evs (chat_step alive ev cm)"

text \<open>A member of a room stays one.\<close>

lemma on_read_members: "set (members cm r) \<subseteq> set (members (on_read alive c chunk cm) r)"
  by (auto simp: on_read_def join_room_members split: option.splits phase.splits)

lemma chat_step_members: "c \<in> set (members cm r) \<Longrightarrow> c \<in> set (members (chat_step alive ev cm) r)"
  using on_read_members [THEN subsetD]
  by (cases ev) (auto simp: accept_client_def on_error_def split: option.split)

lemma chat_run_members: "c \<in> set (members cm r) \<Longrightarrow> c \<in> set (members (chat_run evs cm) r)"
  by (induction evs cm rule: chat_run.induct) (simp_all add: chat_step_members)

lemma chat_step_delivered:
  assumes "chat_inv cm" "c \<in> set (members cm r)" "alive c"
  shows "delivered (chat_step alive ev cm) c = delivered cm c @ said r ev cm"
proof (cases ev)
  case (Read s chunk)
  have own: "c \<in> set (members cm r') \<longleftrightarrow> r' = r" for r'
    using assms(1,2) unfolding chat_inv_def by blast
  show ?thesis
  proof (cases "phase cm s")
    case (Some p)
    with Read own show ?thesis
      by (cases p)
        (auto simp: on_read_def said_def broadcast_delivered chat_inv_distinct [OF assms(1)] assms(3)
          split: option.split)
  qed (simp add: Read on_read_def said_def)
qed (simp_all add: said_def accept_client_def on_error_def split: option.split)

lemma chat_run_delivered:
  assumes "chat_inv cm" "c \<in> set (members cm r)" "\<forall>(alive, ev)\<in>set evs. alive c"
  shows "delivered (chat_run evs cm) c = delivered cm c @ room_log r evs cm"
  using assms
proof (induction evs cm rule: chat_run.induct)
  case (2 alive ev evs cm)
  then show ?case
    by (simp add: chat_step_inv chat_step_members chat_step_delivered)
qed simp

section \<open>Properties\<close>

text \<open>C9. Members of a room all receive one and the same stream: whatever the handlers of all
  connections do, and in whatever order, each member whose connection is up gets exactly the
  lines said in its room, in the one order in which they were broadcast, and nothing else.\<close>

theorem room_stream:
  assumes "chat_reachable cm" "c \<in> set (members cm r)" "\<forall>(alive, ev)\<in>set evs. alive c"
  shows "delivered (chat_run evs cm) c = delivered cm c @ room_log r evs cm"
  using chat_run_delivered [OF chat_reachable_inv [OF assms(1)] assms(2,3)] .

lemma chat_run_reachable: "chat_reachable cm \<Longrightarrow> chat_reachable (chat_run evs cm)"
  by (induction evs cm rule: chat_run.induct) (auto intro: chat_reachable.step)

definition two_joined :: chat_manager where
  "two_joined = chat_run (map (Pair (\<lambda>_. True))
     [Accept 1, Accept 2, Read 1 ''al#r'', Read 1 [newline], Read 2 (''bo#r'' @ [newline])]) NewChatManager"

lemma parse_join_plain:
  assumes "CHR ''#'' \<notin> set u" "plain_first u" "plain_last r" "r \<noteq> []"
  shows "parse_join (u @ ''#'' @ r @ [newline]) = Some (u, r)"
proof -
  have "plain_first (u @ ''#'' @ r)"
    using assms(2) by (cases u) (auto simp: plain_first_def space_encodings_def)
  moreover have "plain_last (u @ ''#'' @ r)"
    using assms(3,4) by (cases "rev r") (auto simp: plain_last_def)
  ultimately have "trim_space (u @ ''#'' @ r @ [newline]) = u @ ''#'' @ r"
    using trim_space_newline [of "u @ ''#'' @ r"] by (simp add: newline_def)
  then show ?thesis
    using assms(1) split_n2_append_sep [of "CHR ''#''" u r] by (simp add: parse_join_def)
qed

lemma two_joined_state:
  "chat_reachable two_joined" "members two_joined ''r'' = [1, 2]"
  "phase two_joined = [1 \<mapsto> InRoom ''al'' ''r'', 2 \<mapsto> InRoom ''bo'' ''r'']"
  "delivered two_joined = (\<lambda>_. [])"
proof -
  show "chat_reachable two_joined"
    unfolding two_joined_def by (rule chat_run_reachable [OF chat_reachable.start])
  have 1: "parse_join (''al#r'' @ [newline]) = Some (''al'', ''r'')"
    using parse_join_plain [of "''al''" "''r''"]
    by (simp add: plain_first_def plain_last_def space_encodings_def)
  have 2: "parse_join (''bo#r'' @ [newline]) = Some (''bo'', ''r'')"
    using parse_join_plain [of "''bo''" "''r''"]
    by (simp add: plain_first_def plain_last_def space_encodings_def)
  have 3: "first_line ''al#r'' = None" "first_line (''al#r'' @ [newline]) = Some (''al#r'' @ [newline])"
      "first_line (''bo#r'' @ [newline]) = Some (''bo#r'' @ [newline])"
    by (simp_all add: first_line_def newline_def)
  show "members two_joined ''r'' = [1, 2]" "delivered two_joined = (\<lambda>_. [])"
      "phase two_joined = [1 \<mapsto> InRoom ''al'' ''r'', 2 \<mapsto> InRoom ''bo'' ''r'']"
    using 1 2 3
    by (simp_all add: two_joined_def NewChatManager_def accept_client_def on_read_def
        join_room_def members_def fun_eq_iff)
qed

theorem room_stream_witness:
  "delivered (chat_run [(\<lambda>c. c = 2, Read 1 ''hi''), (\<lambda>_. True, Read 2 ''yo'')] two_joined) 2 =
    ''al: hi'' @ [newline] @ ''bo: yo'' @ [newline]"
  using room_stream [of two_joined 2 "''r''" "[(\<lambda>c. c = 2, Read 1 ''hi''), (\<lambda>_. True, Read 2 ''yo'')]"]
    two_joined_state
  by (simp add: said_def chat_line_def on_read_def)

text \<open>C25. In every state the chat server can reach, a connection is a member of at most one room
  and only once; a handler that is in a room is a member of it under a name without a hash.
  No event ever takes a member out: when a connection fails its handler ends, but the
  room keeps writing to it.\<close>

theorem membership_sound:
  assumes "chat_reachable cm"
  shows "distinct (members cm r) \<and>
    (c \<in> set (members cm r) \<longrightarrow> c \<in> set (members cm r') \<longrightarrow> r = r') \<and>
    (phase cm c = Some (InRoom u r) \<longrightarrow> c \<in> set (members cm r) \<and> CHR ''#'' \<notin> set u) \<and>
    (c \<in> set (members cm r) \<longrightarrow> c \<in> set (members (chat_run evs cm) r)) \<and>
    (c \<in> set (members cm r) \<longrightarrow> phase (on_error c cm) c = Some Closed)"
proof -
  note inv = chat_reachable_inv [OF assms]
  have "phase (on_error c cm) c = Some Closed" if "c \<in> set (members cm r)"
    using chat_inv_member [OF inv that] by (auto simp: on_error_def)
  with inv show ?thesis unfolding chat_inv_def by (blast intro: chat_run_members)
qed

theorem membership_sound_witness:
  "2 \<in> set (members (chat_run [(\<lambda>_. True, Err 2)] two_joined) ''r'')"
  using membership_sound [OF two_joined_state(1), of "''r''" 2] two_joined_state(2)
  by (metis list.set_intros)

text \<open>C40. The join line \<^verbatim>\<open>user#room\<close> puts the connection into that room under that name,
  however the network cut it up. Whatever arrived in the same read behind the line is
  lost: it is neither broadcast nor kept.\<close>

theorem join_line:
  assumes "phase cm c = Some (Joining acc)" "acc @ chunk = u @ ''#'' @ r @ [newline]"
    and "CHR ''#'' \<notin> set u" "newline \<notin> set u" "newline \<notin> set r"
    and "plain_first u" "plain_last r" "r \<noteq> []"
  shows "\<exists>cm'. on_read alive c chunk cm = cm' \<and>
    phase cm' c = Some (InRoom u r) \<and> members cm' r = members cm r @ [c] \<and>
    delivered cm' = delivered cm \<and>
    (\<forall>rest. on_read alive c (chunk @ rest) cm = cm')"
proof -
  let ?cm' = "join_room r c (cm\<lparr>phase := (phase cm)(c \<mapsto> InRoom u r)\<rparr>)"
  have line: "first_line ((u @ ''#'' @ r @ [newline]) @ rest) = Some (u @ ''#'' @ r @ [newline])" for rest
    using first_line_complete [of "u @ ''#'' @ r" rest] assms(4,5) by (simp add: newline_def)
  have "on_read alive c (chunk @ rest) cm = ?cm'" for rest
  proof -
    have e: "acc @ chunk @ rest = (u @ ''#'' @ r @ [newline]) @ rest"
      using assms(2) by (metis append.assoc)
    have "first_line (acc @ chunk @ rest) = Some (u @ ''#'' @ r @ [newline])"
      unfolding e by (rule line)
    then show ?thesis
      using parse_join_plain [OF assms(3,6-8)] assms(1) by (simp add: on_read_def)
  qed
  from this this [of "[]"] show ?thesis by (simp add: join_room_members)
qed

theorem join_line_witness:
  "\<exists>cm'. on_read (\<lambda>_. True) 1 (''#r'' @ [newline]) (NewChatManager\<lparr>phase := [1 \<mapsto> Joining ''al'']\<rparr>) = cm' \<and>
     members cm' ''r'' = [1] \<and>
     on_read (\<lambda>_. True) 1 (''#r'' @ [newline] @ ''hello'') (NewChatManager\<lparr>phase := [1 \<mapsto> Joining ''al'']\<rparr>) = cm'"
  using join_line [of "NewChatManager\<lparr>phase := [1 \<mapsto> Joining ''al'']\<rparr>" 1 "''al''" "''#r'' @ [newline]"
      "''al''" "''r''" "\<lambda>_. True"]
  by (simp add: newline_def plain_first_def plain_last_def space_encodings_def members_def NewChatManager_def)

end
