(* ===== verification/Client_Core.thy ===== *)
theory Client_Core
  imports Go_Strings Go_Float
begin

text \<open>
  The chat client, \<^verbatim>\<open>Client/client/client.go\<close> and \<^verbatim>\<open>Client/service/server_registry_api.go\<close>:
  registration, the ping job that fills the delay list, the matchmaking connection, the
  acceptance of a request, and the chat itself with its redirects.

  Connections are numbers; what a read, a write or a dial brings is an argument, and what
  the client writes or puts on a channel is part of the result, in order. \<open>client\<close> is the
  struct; the two values that tview shows, and HTTP, are outside.
\<close>

section \<open>State\<close>

record client =
  UserName :: string
  CentralURL :: string
  ServerRegistry :: "string \<rightharpoonup> flt"
  ChatRequests :: "string \<rightharpoonup> nat"
  currentChatConn :: "nat option"
  CurrentChatServer :: string
  currentRoomId :: string

definition c_ACK_CONN :: string where "c_ACK_CONN = ''ACK''"
definition c_MSG_REQ_SENT :: string where "c_MSG_REQ_SENT = ''REQ_SENT''"
definition c_AWAITING_REQ :: string where "c_AWAITING_REQ = ''AWAITING_REQ''"
definition c_USER_NOT_FOUND :: string where "c_USER_NOT_FOUND = ''USER_NOT_FOUND''"
definition c_SERVER_ERROR :: string where "c_SERVER_ERROR = ''SERVER_ERROR''"
definition c_ACCEPT_REQ :: string where "c_ACCEPT_REQ = ''ACCEPT_REQ''"

lemmas c_message_defs = c_ACK_CONN_def c_MSG_REQ_SENT_def c_AWAITING_REQ_def
  c_USER_NOT_FOUND_def c_SERVER_ERROR_def c_ACCEPT_REQ_def

section \<open>Starting up\<close>

text \<open>\<^verbatim>\<open>readConfig\<close> and \<^verbatim>\<open>GetClient\<close>: the singleton is made when its configuration can be read.\<close>

definition client_readConfig :: "string result \<Rightarrow> string result" where
  "client_readConfig file = (case file of
       Fail e \<Rightarrow> Fail (''failed to read config file: '' @ e)
     | Panic \<Rightarrow> Panic
     | Ret contents \<Rightarrow>
         (let url = trim_space contents in
          if url = [] then Fail ''config file is empty'' else Ret url))"

definition GetClientInstance :: "string result \<Rightarrow> client option \<Rightarrow> client option" where
  "GetClientInstance file clientInstance = (case clientInstance of
       Some c \<Rightarrow> Some c
     | None \<Rightarrow> (case client_readConfig file of
           Ret url \<Rightarrow> Some \<lparr>UserName = '''', CentralURL = url, ServerRegistry = Map.empty,
             ChatRequests = Map.empty, currentChatConn = None, CurrentChatServer = '''',
             currentRoomId = ''''\<rparr>
         | _ \<Rightarrow> None))"

text \<open>
  \<^verbatim>\<open>Register\<close>: \<open>post\<close> is the status code of the answer, or the error. The goroutine either ends
  the process or sends one value on the result channel and closes it.
\<close>

datatype 'a outcome = Exit nat | Value 'a

definition Register :: "nat result \<Rightarrow> string option outcome" where
  "Register post = (case post of
       Fail e \<Rightarrow> Value (Some e)
     | Panic \<Rightarrow> Value (Some '''')
     | Ret code \<Rightarrow> if code \<noteq> 201 then Exit 1 else Value None)"

text \<open>
  \<^verbatim>\<open>GetServers\<close>: \<open>http\<close> is the outcome of the request, \<open>body\<close> of reading the body, and the
  decoded \<^verbatim>\<open>services\<close> field is a list, absent (\<^verbatim>\<open>nil\<close>), or not a list of strings.
\<close>

datatype services_field = Services "string list" | Absent | Malformed string

record http_answer =
  code :: nat
  body_read :: "services_field result"

definition decode_services :: "services_field \<Rightarrow> string list result" where
  "decode_services f = (case f of
       Services xs \<Rightarrow> Ret xs
     | Absent \<Rightarrow> Ret []
     | Malformed e \<Rightarrow> Fail (''failed to parse JSON response: '' @ e))"

definition GetServers :: "http_answer result \<Rightarrow> string list result" where
  "GetServers http = (case http of
       Fail e \<Rightarrow> Fail (''failed to fetch servers: '' @ e)
     | Panic \<Rightarrow> Panic
     | Ret resp \<Rightarrow>
         if code resp \<noteq> 200 then Fail (''unexpected status code: '' @ dec_str (code resp))
         else (case body_read resp of
             Fail e \<Rightarrow> Fail (''failed to read response body: '' @ e)
           | Panic \<Rightarrow> Panic
           | Ret f \<Rightarrow> decode_services f))"

text \<open>\<open>Initialize\<close>: fetching the servers, all at the largest delay; then the ping job starts.\<close>

definition set_all :: "string list \<Rightarrow> flt \<Rightarrow> (string \<rightharpoonup> flt) \<Rightarrow> (string \<rightharpoonup> flt)" where
  "set_all servers d m = fold (\<lambda>server m. m(server \<mapsto> d)) servers m"

definition Initialize :: "http_answer result \<Rightarrow> client \<Rightarrow> string option \<times> client" where
  "Initialize http c = (case GetServers http of
       Ret servers \<Rightarrow>
         (None, c\<lparr>ServerRegistry := set_all servers (Fin max_f32) (ServerRegistry c)\<rparr>)
     | Fail e \<Rightarrow> (Some (''failed to initialize client: '' @ e), c)
     | Panic \<Rightarrow> (Some '''', c))"

section \<open>The ping job\<close>

text \<open>\<open>dial addr\<close> is the time the dial took, in milliseconds as a 32-bit float.\<close>

definition pingServer :: "(string \<Rightarrow> flt option) \<Rightarrow> string \<Rightarrow> flt option" where
  "pingServer dial serverIP =
     (let ip = (if serverIP = ''::1'' then ''localhost'' else serverIP) in dial (ip @ '':3000''))"

text \<open>
  \<^verbatim>\<open>reportDelaysToCentral\<close>: the two fields of the request's body. The delays are finite floats, so
  they marshal; what becomes of the request is not looked at.
\<close>

definition reportDelaysToCentral :: "client \<Rightarrow> string \<times> (string \<rightharpoonup> flt)" where
  "reportDelaysToCentral c = (UserName c, ServerRegistry c)"

text \<open>The loop: one server after the other is pinged and the whole list is reported each time.\<close>

fun ping_loop :: "(string \<Rightarrow> flt option) \<Rightarrow> string list \<Rightarrow> client \<Rightarrow>
    (string \<times> (string \<rightharpoonup> flt)) list \<Rightarrow> client \<times> (string \<times> (string \<rightharpoonup> flt)) list" where
  "ping_loop dial [] c reports = (c, reports)"
| "ping_loop dial (serverIP # ks) c reports =
     (let delay = (case pingServer dial serverIP of Some d \<Rightarrow> d | None \<Rightarrow> Fin max_f32);
          c' = c\<lparr>ServerRegistry := (ServerRegistry c)(serverIP \<mapsto> delay)\<rparr> in
      ping_loop dial ks c' (reports @ [reportDelaysToCentral c']))"

definition updateServerDelays :: "http_answer result \<Rightarrow> string list \<Rightarrow> (string \<Rightarrow> flt option) \<Rightarrow>
    client \<Rightarrow> client \<times> (string \<times> (string \<rightharpoonup> flt)) list" where
  "updateServerDelays http ks dial c = (case GetServers http of
       Ret servers \<Rightarrow>
         ping_loop dial ks (c\<lparr>ServerRegistry := set_all servers (Fin max_f32) Map.empty\<rparr>) []
     | _ \<Rightarrow> (c, []))"

section \<open>Requests from other clients\<close>

text \<open>\<^verbatim>\<open>handleChatRequest\<close>: the bytes of one read are the key, unchanged.\<close>

definition handleChatRequest :: "nat \<Rightarrow> string result \<Rightarrow> client \<Rightarrow> client outcome" where
  "handleChatRequest conn rd c = (case rd of
       Ret username \<Rightarrow> Value (c\<lparr>ChatRequests := (ChatRequests c)(username \<mapsto> conn)\<rparr>)
     | _ \<Rightarrow> Exit 1)"

text \<open>
  \<^verbatim>\<open>messageRequestListener\<close>: each connection that is accepted goes to a handler of its own; a failed
  read in any of them ends the process.
\<close>

fun accept_requests :: "(nat \<times> string result) result list \<Rightarrow> client \<Rightarrow> client outcome" where
  "accept_requests [] c = Value c"
| "accept_requests (Ret (conn, rd) # accepts) c = (case handleChatRequest conn rd c of
       Value c' \<Rightarrow> accept_requests accepts c'
     | Exit n \<Rightarrow> Exit n)"
| "accept_requests (_ # accepts) c = accept_requests accepts c"

text \<open>Without its port the client exits, with the status of success.\<close>

definition messageRequestListener ::
    "bool \<Rightarrow> (nat \<times> string result) result list \<Rightarrow> client \<Rightarrow> client outcome" where
  "messageRequestListener listen_ok accepts c = (if listen_ok then accept_requests accepts c else Exit 0)"

text \<open>
  \<^verbatim>\<open>AcceptMessageRequest\<close>: what it writes to the central server, what it puts on the status
  channel, and how it ends. The response is split at newlines and its second part is used
  without a check, which panics when there is none.
\<close>

datatype accept_end = Ended | Exited nat | Crashed

definition accept_response :: "string \<Rightarrow> string list \<times> accept_end" where
  "accept_response serverResponse =
     (if \<not> has_prefix serverResponse ''IP:'' then ([c_SERVER_ERROR], Ended)
      else
        (let responseTokens = split_on newline serverResponse in
         if length responseTokens < 2 then ([], Crashed)
         else
           (let serverAddress = trim_suffix (trim_prefix (responseTokens ! 0) ''IP:'') [newline];
                roomId = responseTokens ! 1 in
            if \<not> has_prefix roomId ''RoomID:'' then ([c_SERVER_ERROR], Ended)
            else ([serverAddress, trim_suffix (trim_prefix roomId ''RoomID:'') [newline]], Ended))))"

definition AcceptMessageRequest ::
    "string \<Rightarrow> bool \<Rightarrow> string result \<Rightarrow> client \<Rightarrow>
      (nat \<times> string) list \<times> string list \<times> accept_end" where
  "AcceptMessageRequest username write_ok rd c = (case ChatRequests c username of
       None \<Rightarrow> ([], [], Exited 1)
     | Some conn \<Rightarrow>
         if \<not> write_ok then ([], [], Exited 1)
         else
           (let written = [(conn, c_ACCEPT_REQ @ [newline])] in
            case rd of
              Ret serverResponse \<Rightarrow>
                (case accept_response serverResponse of
                   (statuses, r) \<Rightarrow> (written, c_ACCEPT_REQ # statuses, r))
            | _ \<Rightarrow> (written, [c_ACCEPT_REQ], Exited 1)))"

section \<open>Matchmaking\<close>

definition matchmaking_address :: "string \<Rightarrow> string result" where
  "matchmaking_address url =
     (if length url < 4 then Panic
      else Ret (replace_first ''http://'' '''' (take (length url - 4) url @ ''8081'')))"

text \<open>The reads end with an error or the end of the stream; each is split on its own.\<close>

definition statuses_of :: "string \<Rightarrow> string list" where
  "statuses_of message = filter (\<lambda>msg. msg \<noteq> '''') (split_on newline message)"

fun read_statuses :: "string result list \<Rightarrow> string list" where
  "read_statuses [] = []"
| "read_statuses (Ret message # reads) = statuses_of message @ read_statuses reads"
| "read_statuses (_ # reads) = []"

definition StartMatchmaking ::
    "string \<Rightarrow> (string \<Rightarrow> bool) \<Rightarrow> bool \<Rightarrow> string result list \<Rightarrow> client \<Rightarrow>
      (string list \<times> string list) result" where
  "StartMatchmaking username dial_ok write_ok reads c =
     (case matchmaking_address (CentralURL c) of
        Ret addr \<Rightarrow>
          if \<not> dial_ok addr then Ret ([], [c_SERVER_ERROR])
          else if \<not> write_ok then Ret ([], [c_SERVER_ERROR])
          else Ret ([username], read_statuses reads)
      | Fail e \<Rightarrow> Fail e
      | Panic \<Rightarrow> Panic)"

section \<open>Chatting\<close>

text \<open>\<^verbatim>\<open>splitMessages\<close>: the loop over the positions of the data, with the start of the current part.\<close>

fun split_scan :: "string \<Rightarrow> char \<Rightarrow> string \<Rightarrow> nat \<Rightarrow> nat \<Rightarrow> string list \<Rightarrow> string list \<times> nat" where
  "split_scan full delimiter [] i lastIndex parts = (parts, lastIndex)"
| "split_scan full delimiter (x # xs) i lastIndex parts =
     (if x = delimiter
      then split_scan full delimiter xs (Suc i) (i + 1) (parts @ [drop lastIndex (take i full)])
      else split_scan full delimiter xs (Suc i) lastIndex parts)"

definition splitMessages :: "string \<Rightarrow> char \<Rightarrow> string list \<times> string" where
  "splitMessages data delimiter =
     (case split_scan data delimiter data 0 0 [] of
        (parts, lastIndex) \<Rightarrow> (parts, drop lastIndex data))"

definition join_message :: "string \<Rightarrow> string \<Rightarrow> string" where
  "join_message username roomId = username @ ''#'' @ roomId @ [newline]"

definition SendMessage :: "string \<Rightarrow> client \<Rightarrow> (nat \<times> string) list" where
  "SendMessage message c = (case currentChatConn c of
       None \<Rightarrow> []
     | Some conn \<Rightarrow> [(conn, message @ [newline])])"

record chat_view =
  self :: client
  incomplete :: string
  shown :: "string list"
  wire :: "(nat \<times> string) list"

text \<open>
  \<^verbatim>\<open>StartChat\<close> up to its loop. The result says whether the loop has been started.
\<close>

definition StartChat ::
    "string \<Rightarrow> string \<Rightarrow> nat option \<Rightarrow> bool \<Rightarrow> bool \<Rightarrow> client \<Rightarrow> chat_view \<times> bool" where
  "StartChat serverAddress roomId dialled write_ok listen_ok c =
     (case dialled of
        None \<Rightarrow> (\<lparr>self = c, incomplete = '''', shown = [], wire = []\<rparr>, False)
      | Some conn \<Rightarrow>
          (let c' = c\<lparr>currentChatConn := Some conn, CurrentChatServer := serverAddress,
                 currentRoomId := roomId\<rparr> in
           if \<not> write_ok then (\<lparr>self = c', incomplete = '''', shown = [], wire = []\<rparr>, False)
           else
             (let v = \<lparr>self = c', incomplete = '''', shown = [''START_CHAT''],
                    wire = [(conn, join_message (UserName c') roomId)]\<rparr> in
              if listen_ok then (v, True) else (v\<lparr>shown := shown v @ [''FAILED'']\<rparr>, False))))"

text \<open>What happens to the loop: a read of the chat connection, or a redirect.\<close>

datatype chat_input =
    ChatRead "string result"
  | Redirect "string result" "nat option" bool

fun chat_input_step :: "chat_input \<Rightarrow> chat_view \<Rightarrow> chat_view" where
  "chat_input_step (ChatRead rd) v = (case rd of
       Ret buffer \<Rightarrow>
         (case splitMessages (incomplete v @ buffer) newline of
            (messagesArr, rest) \<Rightarrow> v\<lparr>incomplete := rest, shown := shown v @ messagesArr\<rparr>)
     | _ \<Rightarrow> v)"
| "chat_input_step (Redirect rd dialled write_ok) v = (case rd of
       Ret buf \<Rightarrow>
         (let newServerAddress = trim_suffix buf [newline] in
          case dialled of
            None \<Rightarrow> v
          | Some newConn \<Rightarrow>
              v\<lparr>self := (self v)\<lparr>CurrentChatServer := newServerAddress, currentChatConn := Some newConn\<rparr>,
                wire := wire v @ (if write_ok
                  then [(newConn, join_message (UserName (self v)) (currentRoomId (self v)))] else [])\<rparr>)
     | _ \<Rightarrow> v)"

definition chat_loop :: "chat_input list \<Rightarrow> chat_view \<Rightarrow> chat_view" where
  "chat_loop inputs v = fold chat_input_step inputs v"


section \<open>The splitting loop computes the split\<close>

lemma split_scan_split:
  assumes "full = pre @ xs" "i = length pre" "cur = drop lastIndex pre" "lastIndex \<le> length pre"
    and "d \<notin> set cur"
  shows "split_scan full d xs i lastIndex parts =
    (parts @ butlast (split_on d (cur @ xs)), length full - length (last (split_on d (cur @ xs))))"
  using assms
proof (induction xs arbitrary: pre i lastIndex cur parts)
  case Nil
  then show ?case by (simp add: split_on_no_sep)
next
  case (Cons x xs)
  show ?case
  proof (cases "x = d")
    case True
    have "split_scan full d (x # xs) i lastIndex parts =
        split_scan full d xs (Suc i) (Suc i) (parts @ [cur])"
      using True Cons.prems by simp
    also have "\<dots> = ((parts @ [cur]) @ butlast (split_on d ([] @ xs)),
        length full - length (last (split_on d ([] @ xs))))"
      by (rule Cons.IH [of "pre @ [x]"]) (use Cons.prems in auto)
    finally show ?thesis
      using True Cons.prems by (simp add: split_on_append_sep)
  next
    case False
    have "split_scan full d (x # xs) i lastIndex parts = split_scan full d xs (Suc i) lastIndex parts"
      using False by simp
    also have "\<dots> = (parts @ butlast (split_on d ((cur @ [x]) @ xs)),
        length full - length (last (split_on d ((cur @ [x]) @ xs))))"
      by (rule Cons.IH [of "pre @ [x]"]) (use Cons.prems False in auto)
    finally show ?thesis by simp
  qed
qed

lemma splitMessages_split:
  "splitMessages data d = (butlast (split_on d data), last (split_on d data))"
proof -
  obtain p where "data = p @ last (split_on d data)" using split_on_suffix by blast
  then have "drop (length data - length (last (split_on d data))) data = last (split_on d data)"
    by (metis append_eq_conv_conj length_append add_diff_cancel_right')
  then show ?thesis
    using split_scan_split [of data "[]" data 0 "[]" 0 d "[]"] by (simp add: splitMessages_def)
qed

text \<open>The bytes the loop has read, over all servers it was connected to.\<close>

fun bytes_read :: "chat_input list \<Rightarrow> string" where
  "bytes_read [] = []"
| "bytes_read (ChatRead (Ret buffer) # inputs) = buffer @ bytes_read inputs"
| "bytes_read (_ # inputs) = bytes_read inputs"

lemma redirect_frame [simp]:
  "incomplete (chat_input_step (Redirect rd dialled ok) v) = incomplete v"
  "shown (chat_input_step (Redirect rd dialled ok) v) = shown v"
  by (simp_all add: Let_def split: result.split option.split)

lemma read_frame [simp]:
  "self (chat_input_step (ChatRead rd) v) = self v"
  "wire (chat_input_step (ChatRead rd) v) = wire v"
  by (simp_all split: result.split prod.split)

lemma failed_read [simp]: "chat_input_step (ChatRead (Fail e)) v = v" "chat_input_step (ChatRead Panic) v = v"
  by simp_all

lemma chat_loop_split:
  "newline \<notin> set (incomplete v) \<Longrightarrow>
    shown (chat_loop inputs v) = shown v @ butlast (split_on newline (incomplete v @ bytes_read inputs)) \<and>
    incomplete (chat_loop inputs v) = last (split_on newline (incomplete v @ bytes_read inputs))"
proof (induction inputs arbitrary: v rule: bytes_read.induct)
  case (2 buffer inputs)
  let ?v = "chat_input_step (ChatRead (Ret buffer)) v"
  let ?s = "split_on newline (incomplete v @ buffer)"
  have v: "incomplete ?v = last ?s" "shown ?v = shown v @ butlast ?s"
    by (simp_all add: splitMessages_split)
  have "split_on newline (incomplete v @ buffer @ bytes_read inputs) =
      butlast ?s @ split_on newline (last ?s @ bytes_read inputs)"
    using split_on_append [of newline "incomplete v @ buffer"] by simp
  with 2 (1) [of ?v] v show ?case
    by (simp add: chat_loop_def split_on_last_no_sep butlast_append)
qed (simp_all add: chat_loop_def split_on_no_sep del: chat_input_step.simps)


section \<open>Redirects\<close>

text \<open>The redirects that reached a server: its address, the new connection, whether the write went out.\<close>

fun hops :: "chat_input list \<Rightarrow> (string \<times> nat \<times> bool) list" where
  "hops [] = []"
| "hops (Redirect (Ret buf) (Some conn) ok # inputs) = (trim_suffix buf [newline], conn, ok) # hops inputs"
| "hops (_ # inputs) = hops inputs"

lemma lost_redirect [simp]:
  "chat_input_step (Redirect rd None ok) v = v"
  "chat_input_step (Redirect (Fail e) dialled ok) v = v"
  "chat_input_step (Redirect Panic dialled ok) v = v"
  by (simp_all add: Let_def split: result.split)

lemma chat_loop_hops:
  "UserName (self (chat_loop inputs v)) = UserName (self v) \<and>
   currentRoomId (self (chat_loop inputs v)) = currentRoomId (self v) \<and>
   CurrentChatServer (self (chat_loop inputs v)) =
     last (CurrentChatServer (self v) # map fst (hops inputs)) \<and>
   (currentChatConn (self v) = Some k \<longrightarrow>
     currentChatConn (self (chat_loop inputs v)) = Some (last (k # map (fst \<circ> snd) (hops inputs)))) \<and>
   wire (chat_loop inputs v) = wire v @
     map (\<lambda>(_, conn, _). (conn, join_message (UserName (self v)) (currentRoomId (self v))))
       (filter (\<lambda>(_, _, ok). ok) (hops inputs))"
proof (induction inputs arbitrary: v k rule: hops.induct [case_names Stop Hop Chat])
  case (Hop buf conn ok inputs)
  show ?case
    using Hop [of "chat_input_step (Redirect (Ret buf) (Some conn) ok) v" conn]
    by (simp add: chat_loop_def Let_def)
next
  case (Chat rd inputs)
  then show ?case
    using Chat [of "chat_input_step (ChatRead rd) v"]
    by (simp add: chat_loop_def del: chat_input_step.simps)
qed (simp_all add: chat_loop_def del: chat_input_step.simps)

section \<open>Properties\<close>

text \<open>C14. The chat view is the stream of the servers, cut at newlines: whatever way the reads cut
  the bytes and whatever fails in between, the lines shown are the complete lines of
  everything read, each once and in order, and the rest is kept for later. Redirects do not
  reset that rest: a line left unfinished by one server is completed by the next.\<close>

theorem chat_messages_reassembled:
  assumes "StartChat srv room (Some k) True True c = (v, True)"
  shows "shown (chat_loop inputs v) = ''START_CHAT'' # butlast (split_on newline (bytes_read inputs)) \<and>
    incomplete (chat_loop inputs v) = last (split_on newline (bytes_read inputs))"
proof -
  have "incomplete v = ''''" "shown v = [''START_CHAT'']"
    using assms by (auto simp: StartChat_def)
  with chat_loop_split [of v inputs] show ?thesis by simp
qed

definition example_client :: client where
  "example_client = \<lparr>UserName = ''alice'', CentralURL = ''http://10.0.0.9:8080'',
     ServerRegistry = Map.empty, ChatRequests = [''bob'' @ [newline] \<mapsto> 7], currentChatConn = None,
     CurrentChatServer = '''', currentRoomId = ''''\<rparr>"

theorem chat_messages_reassembled_witness:
  "shown (chat_loop [ChatRead (Ret ''bo''), Redirect (Ret ''10.0.0.4'') (Some 9) True,
      ChatRead (Ret (''b: hi'' @ [newline] @ ''x''))] (fst (StartChat ''10.0.0.3'' ''r1'' (Some 8) True True example_client))) =
    [''START_CHAT'', ''bob: hi'']"
proof -
  have "StartChat ''10.0.0.3'' ''r1'' (Some 8) True True example_client =
      (fst (StartChat ''10.0.0.3'' ''r1'' (Some 8) True True example_client), True)"
    by (simp add: StartChat_def)
  from chat_messages_reassembled [OF this, of "[ChatRead (Ret ''bo''), Redirect (Ret ''10.0.0.4'') (Some 9) True,
      ChatRead (Ret (''b: hi'' @ [newline] @ ''x''))]"]
  show ?thesis by (simp add: newline_def)
qed

text \<open>C27. A chat follows its redirects: it ends up on the connection and the address of the last
  redirect it could follow, it announces itself on every one with the name and the room it
  started with, and it writes nothing else.\<close>

theorem chat_follows_redirects:
  assumes "StartChat srv room (Some k) True True c = (v, True)"
  shows "currentChatConn (self (chat_loop inputs v)) = Some (last (k # map (fst \<circ> snd) (hops inputs))) \<and>
    CurrentChatServer (self (chat_loop inputs v)) = last (srv # map fst (hops inputs)) \<and>
    wire (chat_loop inputs v) = (k, join_message (UserName c) room) #
      map (\<lambda>(_, conn, _). (conn, join_message (UserName c) room)) (filter (\<lambda>(_, _, ok). ok) (hops inputs))"
proof -
  have v: "self v = c\<lparr>currentChatConn := Some k, CurrentChatServer := srv, currentRoomId := room\<rparr>"
      "wire v = [(k, join_message (UserName c) room)]"
    using assms by (auto simp: StartChat_def Let_def)
  from chat_loop_hops [of inputs v k] show ?thesis by (simp add: v del: last.simps)
qed

theorem chat_follows_redirects_witness:
  "CurrentChatServer (self (chat_loop [Redirect (Ret ''10.0.0.4'') (Some 9) True]
     (fst (StartChat ''10.0.0.3'' ''r1'' (Some 8) True True example_client)))) = ''10.0.0.4''"
proof -
  have "StartChat ''10.0.0.3'' ''r1'' (Some 8) True True example_client =
      (fst (StartChat ''10.0.0.3'' ''r1'' (Some 8) True True example_client), True)"
    by (simp add: StartChat_def)
  from chat_follows_redirects [OF this, of "[Redirect (Ret ''10.0.0.4'') (Some 9) True]"]
  show ?thesis by (simp add: trim_suffix_char_absent newline_def)
qed

lemma statuses_of_append:
  "statuses_of (a @ newline # b) = statuses_of (a @ [newline]) @ statuses_of b"
proof -
  have "split_on newline (a @ newline # b) =
      butlast (split_on newline a) @ last (split_on newline a) # split_on newline b" for b
    using split_on_append [of newline a "newline # b"] split_on_append_sep [OF split_on_last_no_sep]
    by simp
  from this [of b] this [of "[]"] show ?thesis by (simp add: statuses_of_def)
qed

lemma statuses_of_line: "newline \<notin> set a \<Longrightarrow> a \<noteq> [] \<Longrightarrow> statuses_of (a @ [newline]) = [a]"
  by (simp add: statuses_of_def split_on_line)

lemma statuses_of_lines:
  "newline \<notin> set a \<Longrightarrow> a \<noteq> [] \<Longrightarrow> statuses_of (a @ newline # b) = a # statuses_of b"
  using statuses_of_append [of a b] by (simp add: statuses_of_line)

lemma aligned_statuses:
  "\<forall>m\<in>set chunks. m \<noteq> [] \<and> last m = newline \<Longrightarrow>
    read_statuses (map Ret chunks @ [Fail e]) = statuses_of (concat chunks)"
proof (induction chunks)
  case Nil
  then show ?case by (simp add: statuses_of_def)
next
  case (Cons m chunks)
  then obtain a where m: "m = a @ [newline]" by (metis append_butlast_last_id list.set_intros(1))
  with Cons show ?case using statuses_of_append [of a "concat chunks"] by simp
qed


text \<open>The matchmaking connection has no such reassembly: the statuses are the lines of the
  stream when every read ends with a complete line, but a line that two reads deliver
  arrives as two statuses.\<close>

lemma matchmaking_statuses:
  assumes "\<forall>m\<in>set chunks. m \<noteq> [] \<and> last m = newline"
    and "a \<noteq> []" "b \<noteq> []" "newline \<notin> set (a @ b)"
  shows "read_statuses (map Ret chunks @ [Fail e]) = statuses_of (concat chunks) \<and>
    read_statuses [Ret (a @ b @ [newline]), Fail e] = [a @ b] \<and>
    read_statuses [Ret a, Ret (b @ [newline]), Fail e] = [a, b]"
proof -
  have "newline \<notin> set a" "newline \<notin> set b" using assms(4) by simp_all
  then have "statuses_of (a @ b @ [newline]) = [a @ b]" "statuses_of a = [a]" "statuses_of (b @ [newline]) = [b]"
    using split_on_line [of newline "a @ b"] split_on_line [of newline b] assms(2-4)
    by (simp_all add: statuses_of_def split_on_no_sep)
  then show ?thesis using aligned_statuses [OF assms(1)] by simp
qed

lemma accept_response_routed:
  assumes "newline \<notin> set srv" "newline \<notin> set room"
  shows "accept_response (''IP:'' @ srv @ [newline] @ ''RoomID:'' @ room @ [newline]) = ([srv, room], Ended)"
proof -
  have ip: "newline \<notin> set (''IP:'' @ srv)" and rm: "newline \<notin> set (''RoomID:'' @ room)"
    using assms by (simp_all add: newline_def)
  have "split_on newline ((''IP:'' @ srv) @ newline # (''RoomID:'' @ room) @ [newline]) =
      [''IP:'' @ srv, ''RoomID:'' @ room, []]"
    using split_on_append_sep [OF ip, of "(''RoomID:'' @ room) @ [newline]"] split_on_line [OF rm] by simp
  then show ?thesis
    using trim_prefix_append [of "''IP:''" srv] trim_prefix_append [of "''RoomID:''" room] assms
    by (simp add: accept_response_def trim_suffix_char_absent)
qed

text \<open>Accepting a request reports the acceptance, then the address and the room of a
  well-formed answer; an answer of another kind gives \<^verbatim>\<open>SERVER_ERROR\<close>, and one that stops
  after the address crashes the client.\<close>

lemma accept_outcomes:
  assumes "ChatRequests c u = Some k" "newline \<notin> set srv" "newline \<notin> set room"
  shows "AcceptMessageRequest u True (Ret (''IP:'' @ srv @ [newline] @ ''RoomID:'' @ room @ [newline])) c =
      ([(k, c_ACCEPT_REQ @ [newline])], [c_ACCEPT_REQ, srv, room], Ended) \<and>
    (\<not> has_prefix other ''IP:'' \<longrightarrow>
      AcceptMessageRequest u True (Ret other) c =
        ([(k, c_ACCEPT_REQ @ [newline])], [c_ACCEPT_REQ, c_SERVER_ERROR], Ended)) \<and>
    AcceptMessageRequest u True (Ret (''IP:'' @ srv)) c =
      ([(k, c_ACCEPT_REQ @ [newline])], [c_ACCEPT_REQ], Crashed)"
proof -
  have ip: "newline \<notin> set (''IP:'' @ srv)" using assms(2) by (simp add: newline_def)
  note accept_response_routed [OF assms(2,3)]
  moreover have "accept_response (''IP:'' @ srv) = ([], Crashed)"
    using split_on_no_sep [OF ip] by (simp add: accept_response_def)
  moreover have "\<not> has_prefix other ''IP:'' \<Longrightarrow> accept_response other = ([c_SERVER_ERROR], Ended)"
    by (simp add: accept_response_def)
  ultimately show ?thesis using assms(1) by (simp add: AcceptMessageRequest_def)
qed

section \<open>Delays\<close>

definition measured :: "(string \<Rightarrow> flt option) \<Rightarrow> string \<Rightarrow> flt" where
  "measured dial s = (case pingServer dial s of Some d \<Rightarrow> d | None \<Rightarrow> Fin max_f32)"

text \<open>The list after the first \<open>n\<close> servers of \<open>ks\<close> have been pinged.\<close>

definition partial_delays :: "(string \<Rightarrow> flt option) \<Rightarrow> string list \<Rightarrow> string set \<Rightarrow> (string \<rightharpoonup> flt)" where
  "partial_delays dial pinged D =
     (\<lambda>s. if s \<in> set pinged then Some (measured dial s) else if s \<in> D then Some (Fin max_f32) else None)"

lemma set_all_lookup: "set_all servers d m s = (if s \<in> set servers then Some d else m s)"
  by (induction servers arbitrary: m) (auto simp: set_all_def)

declare reportDelaysToCentral_def [simp]

lemma ping_loop_spec:
  "ServerRegistry c = partial_delays dial done D \<Longrightarrow>
    ping_loop dial ks c reports =
      (c\<lparr>ServerRegistry := partial_delays dial (done @ ks) D\<rparr>,
       reports @ map (\<lambda>n. (UserName c, partial_delays dial (done @ take (Suc n) ks) D)) [0..<length ks])"
proof (induction ks arbitrary: c "done" reports)
  case Nil
  then show ?case by (cases c) simp
next
  case (Cons k ks)
  let ?c = "c\<lparr>ServerRegistry := (ServerRegistry c)(k \<mapsto> measured dial k)\<rparr>"
  have "ServerRegistry ?c = partial_delays dial (done @ [k]) D"
    using Cons.prems by (auto simp: partial_delays_def)
  from Cons.IH [OF this] this show ?case
    by (simp add: measured_def [symmetric] Let_def upt_conv_Cons map_Suc_upt [symmetric] del: upt_Suc)
qed

lemma update_delays:
  assumes "GetServers http = Ret servers" "map_order (set_all servers (Fin max_f32) Map.empty) ks"
  shows "updateServerDelays http ks dial c =
      (c\<lparr>ServerRegistry := \<lambda>s. if s \<in> set servers then Some (measured dial s) else None\<rparr>,
       map (\<lambda>n. (UserName c, partial_delays dial (take (Suc n) ks) (set servers))) [0..<length ks])"
    and "set ks = set servers" and "distinct ks"
proof -
  have "dom (set_all servers (Fin max_f32) Map.empty) = set servers"
    by (auto simp: set_all_lookup split: if_splits)
  with assms(2) show ks: "set ks = set servers" "distinct ks" by (auto simp: map_order_def)
  let ?c = "c\<lparr>ServerRegistry := set_all servers (Fin max_f32) Map.empty\<rparr>"
  have "ServerRegistry ?c = partial_delays dial [] (set servers)"
    by (auto simp: partial_delays_def set_all_lookup)
  note run = ping_loop_spec [OF this, of ks "[]"]
  have "partial_delays dial ks (set servers) = (\<lambda>s. if s \<in> set servers then Some (measured dial s) else None)"
    using ks by (auto simp: partial_delays_def)
  with run ks assms(1) show "updateServerDelays http ks dial c =
      (c\<lparr>ServerRegistry := \<lambda>s. if s \<in> set servers then Some (measured dial s) else None\<rparr>,
       map (\<lambda>n. (UserName c, partial_delays dial (take (Suc n) ks) (set servers))) [0..<length ks])"
    by (simp add: updateServerDelays_def)
qed

text \<open>An update of the delays asks the central server for the list, pings every server once and
  reports after each: the list always holds exactly the servers of the answer, those
  already pinged at their delay, the others and the unreachable at the largest float. If the
  list cannot be fetched nothing changes and nothing is reported.\<close>

lemma update_reports_delays:
  assumes "GetServers http = Ret servers" "map_order (set_all servers (Fin max_f32) Map.empty) ks"
  shows "updateServerDelays http ks dial c =
      (c\<lparr>ServerRegistry := \<lambda>s. if s \<in> set servers then Some (measured dial s) else None\<rparr>,
       map (\<lambda>n. (UserName c, partial_delays dial (take (Suc n) ks) (set servers))) [0..<length ks]) \<and>
    set ks = set servers \<and> distinct ks"
  using update_delays [OF assms] by simp

end
