(* ===== verification/Client_Runner.thy ===== *)
theory Client_Runner
  imports Client_Core
begin

text \<open>
  The terminal user interface, \<^verbatim>\<open>Client/runner/client_runner.go\<close>: the dialogues that consume
  the status channels of \<^verbatim>\<open>Client_Core\<close>. The drawing library is outside; what a dialogue
  sets as the text of its view is kept, because the code computes with it.

  A dialogue takes the list of messages that the sending goroutine puts on its channel. It
  ends in the menu or in a chat, or it does not end: \<open>Blocked\<close> in a receive that nothing will
  answer, or \<open>Spinning\<close> in the polling loop. \<open>SendOnClosed\<close> is the panic of a sender whose
  channel the dialogue has closed.
\<close>

datatype runner_end = Menu | Chat string string | Blocked | Spinning | SendOnClosed

record dialogue =
  shown_text :: string
  texts :: "string list"
  dotIdx :: nat

definition set_text :: "string \<Rightarrow> dialogue \<Rightarrow> dialogue" where
  "set_text t d = d\<lparr>texts := texts d @ [t]\<rparr>"

definition add_text :: "string \<Rightarrow> dialogue \<Rightarrow> dialogue" where
  "add_text t d = set_text (shown_text d @ t) (d\<lparr>shown_text := shown_text d @ t\<rparr>)"

section \<open>Starting\<close>

text \<open>
  \<^verbatim>\<open>showLoadingBarWithInitialization\<close>: any value on the result channel counts as success, an
  error too; only a channel closed without a value ends the process.
\<close>

datatype 'a receipt = Received 'a | ClosedChannel

definition showLoadingBarWithInitialization :: "string option receipt \<Rightarrow> string option outcome" where
  "showLoadingBarWithInitialization r = (case r of
       Received _ \<Rightarrow> Value None
     | ClosedChannel \<Rightarrow> Exit 1)"

definition startup :: "string \<Rightarrow> nat result \<Rightarrow> http_answer result \<Rightarrow> client \<Rightarrow> client outcome" where
  "startup name post http c =
     (let c' = c\<lparr>UserName := name\<rparr> in
      case Register post of
        Exit n \<Rightarrow> Exit n
      | Value err \<Rightarrow>
          (case showLoadingBarWithInitialization (Received err) of
             Exit n \<Rightarrow> Exit n
           | Value (Some e) \<Rightarrow> Exit 1
           | Value None \<Rightarrow>
               (case Initialize http c' of
                  (err2, c'') \<Rightarrow>
                    (case showLoadingBarWithInitialization (Received err2) of
                       Exit n \<Rightarrow> Exit n
                     | Value (Some e) \<Rightarrow> Exit 1
                     | Value None \<Rightarrow> Value c''))))"

section \<open>Requesting a chat\<close>

definition REQ_ACCEPTED_msg :: string where "REQ_ACCEPTED_msg = ''REQ_ACCEPTED''"

definition dots :: "string list" where
  "dots = [''.'', ''..'', ''...'', ''....'', ''.....'', ''......'']"

text \<open>
  The dialogue closes the channel: a message that the connection goroutine still has to send
  panics.
\<close>

definition close_channel :: "runner_end \<Rightarrow> string list \<Rightarrow> runner_end" where
  "close_channel r pending = (if pending = [] then r else SendOnClosed)"

text \<open>After the verdict: the server and the room.\<close>

definition connect_failed :: "dialogue \<Rightarrow> dialogue" where
  "connect_failed d = set_text ''Failed to connect to server! [red]Please try again later[white]'' d"

definition await_route :: "string list \<Rightarrow> dialogue \<Rightarrow> runner_end \<times> dialogue" where
  "await_route msgs d = (case msgs of
       [] \<Rightarrow> (Blocked, d)
     | server # msgs1 \<Rightarrow>
         if server = c_SERVER_ERROR then (close_channel Menu msgs1, connect_failed d)
         else if \<not> has_prefix server ''IP:'' then (close_channel Menu msgs1, connect_failed d)
         else (let serverAddress = trim_prefix server ''IP:'' in
           case msgs1 of
             [] \<Rightarrow> (Blocked, d)
           | roomId # msgs2 \<Rightarrow>
               if roomId = c_SERVER_ERROR then (close_channel Menu msgs2, connect_failed d)
               else if \<not> has_prefix roomId ''RoomID:'' then (close_channel Menu msgs2, connect_failed d)
               else (let room = trim_suffix (trim_prefix roomId ''RoomID:'') [newline] in
                 (close_channel (Chat serverAddress room) msgs2,
                  add_text (''Connecting to chat server on '' @ serverAddress) d))))"

text \<open>The polling loop; \<open>dots ! dotIdx\<close> is the animation.\<close>

fun await_verdict :: "string list \<Rightarrow> dialogue \<Rightarrow> runner_end \<times> dialogue" where
  "await_verdict [] d = (Spinning, d)"
| "await_verdict (chatAccepted # msgs) d =
     (if chatAccepted = REQ_ACCEPTED_msg
      then await_route msgs (add_text (''Awaiting response... [green]Chat request accepted![white]'' @ [newline]) d)
      else if chatAccepted = c_SERVER_ERROR
      then await_route msgs (add_text (''Awaiting response... [red]Chat request declined![white]'' @ [newline]) d)
      else if chatAccepted = c_AWAITING_REQ
      then (let loadingText = ''Awaiting response'' @ (dots ! dotIdx d);
                idx = (if dotIdx d + 1 = length dots then 0 else dotIdx d + 1);
                full = shown_text d @ loadingText in
            await_verdict msgs (set_text full
              (d\<lparr>dotIdx := idx, shown_text := take (length full - length loadingText) full\<rparr>)))
      else await_verdict msgs (set_text
        (''I HAVE NO IDEA WHAT JUST HAPPENED, here's what the server sent back: '' @ chatAccepted) d))"

definition startMatchMaking :: "string \<Rightarrow> string list \<Rightarrow> runner_end \<times> dialogue" where
  "startMatchMaking username msgs =
     (let d0 = add_text ''Waiting for server...'' \<lparr>shown_text = '''', texts = [], dotIdx = 0\<rparr> in
      case msgs of
        [] \<Rightarrow> (Blocked, d0)
      | response # msgs1 \<Rightarrow>
          if response \<noteq> c_ACK_CONN
          then (close_channel Menu msgs1,
            set_text ''Failed to connect to server! [red]Please try again later'' d0)
          else
            (let d1 = add_text (''Sending chat request to '' @ username @ ''...'')
                   (add_text ('' [green]Connected![white]'' @ [newline]) d0) in
             case msgs1 of
               [] \<Rightarrow> (Blocked, d1)
             | response # msgs2 \<Rightarrow>
                 if response \<noteq> c_MSG_REQ_SENT
                 then (close_channel Menu msgs2, set_text
                   (''[red] Failed to send chat request to '' @ username @ ''! Please try again later'') d1)
                 else await_verdict msgs2 (add_text ('' [green]Sent![white]'' @ [newline]) d1)))"

section \<open>Accepting a chat\<close>

definition acceptChatRequest :: "string \<Rightarrow> string list \<Rightarrow> runner_end \<times> dialogue" where
  "acceptChatRequest username msgs =
     (let d0 = add_text (''Accepting request from '' @ username @ ''... '')
            \<lparr>shown_text = '''', texts = [], dotIdx = 0\<rparr> in
      case msgs of
        [] \<Rightarrow> (Blocked, d0)
      | response # msgs1 \<Rightarrow>
          if response \<noteq> c_ACCEPT_REQ
          then (close_channel Menu msgs1, set_text
            (''[red]Chat request declined! [red]You cannot chat with '' @ username @ ''[white]'') d0)
          else
            (let d1 = add_text ''Awaiting for server matchmaking...''
                   (add_text (''[green]Accepted![white]'' @ [newline]) d0) in
             case msgs1 of
               [] \<Rightarrow> (Blocked, d1)
             | response # msgs2 \<Rightarrow>
                 if response = c_SERVER_ERROR
                 then (close_channel Menu msgs2,
                   set_text ''[red]Failed to connect to server! Please try again later.'' d1)
                 else
                   (case msgs2 of
                      [] \<Rightarrow> (Blocked, d1)
                    | roomId # msgs3 \<Rightarrow>
                        if roomId = c_SERVER_ERROR
                        then (close_channel Menu msgs3,
                          set_text ''[red]Failed to connect to server! Please try again later.'' d1)
                        else (close_channel (Chat response roomId) msgs3,
                          add_text (''[green]Connected![white]'' @ [newline] @
                            ''Joining chat server on '' @ response) d1))))"

section \<open>The pages\<close>

text \<open>
  The pages that the drawing library shows by name, and what the callbacks of their items do:
  open another page, start a dialogue, or end the process. An item has its two texts, its
  shortcut where it has one, and its callback.
\<close>

datatype callback =
    SwitchToMenu
  | OpenBeginChat
  | OpenChatRequests
  | StartMatch string
  | AcceptRequest string
  | StopAndExit

record item =
  main_text :: string
  secondary_text :: string
  shortcut :: "char option"
  selected :: callback

definition options :: "string list" where
  "options = [''1. Send a chat request'', ''2. View chat requests'']"

definition drawMenu :: "item list" where
  "drawMenu =
     [\<lparr>main_text = options ! 0, secondary_text = ''Begin a chat with another user!'', shortcut = Some (CHR ''a''),
        selected = OpenBeginChat\<rparr>,
      \<lparr>main_text = options ! 1, secondary_text = ''View your incoming message requests!'', shortcut = Some (CHR ''b''),
        selected = OpenChatRequests\<rparr>,
      \<lparr>main_text = ''Quit'', secondary_text = ''Press to exit'', shortcut = Some (CHR ''q''), selected = StopAndExit\<rparr>]"

text \<open>The requests in the order of the map's range; the rune 0 is no shortcut.\<close>

definition beginChatRequestPage :: "string list \<Rightarrow> item list" where
  "beginChatRequestPage order =
     \<lparr>main_text = ''Back'', secondary_text = '''', shortcut = Some (CHR ''q''), selected = SwitchToMenu\<rparr> #
     map (\<lambda>username. \<lparr>main_text = ''Chat Request from: '' @ username, secondary_text = '''', shortcut = None,
       selected = AcceptRequest username\<rparr>) order"

text \<open>The buttons of the form, for the text in its input field.\<close>

definition beginChatPage :: "string \<Rightarrow> item list" where
  "beginChatPage usernameInput =
     [\<lparr>main_text = ''Begin Chat'', secondary_text = '''', shortcut = None, selected = StartMatch usernameInput\<rparr>,
      \<lparr>main_text = ''Back'', secondary_text = '''', shortcut = None, selected = SwitchToMenu\<rparr>]"

text \<open>The pages by their names; a page of a dialogue has nothing to select.\<close>

datatype page =
    MenuPage
  | ChatRequestsPage "string list"
  | BeginChatPage string
  | MatchmakingPage string
  | AcceptingPage string
  | ChatPage string string

fun page_items :: "page \<Rightarrow> item list" where
  "page_items MenuPage = drawMenu"
| "page_items (ChatRequestsPage order) = beginChatRequestPage order"
| "page_items (BeginChatPage input) = beginChatPage input"
| "page_items _ = []"

text \<open>What a callback shows next, \<^term>\<open>None\<close> when the process has ended; \<open>order\<close> is the range over the
  requests when it is called.\<close>

fun call_back :: "string list \<Rightarrow> callback \<Rightarrow> page option" where
  "call_back order SwitchToMenu = Some MenuPage"
| "call_back order OpenBeginChat = Some (BeginChatPage '''')"
| "call_back order OpenChatRequests = Some (ChatRequestsPage order)"
| "call_back order (StartMatch username) = Some (MatchmakingPage username)"
| "call_back order (AcceptRequest username) = Some (AcceptingPage username)"
| "call_back order StopAndExit = None"

text \<open>The page that the goroutine of a dialogue shows when it ends, if it does.\<close>

definition dialogue_page :: "runner_end \<Rightarrow> page option" where
  "dialogue_page e = (case e of
       Menu \<Rightarrow> Some MenuPage
     | Chat srv room \<Rightarrow> Some (ChatPage srv room)
     | _ \<Rightarrow> None)"

section \<open>The chat page\<close>

text \<open>The line of the view for one message of the server, coloured by whose it seems to be.\<close>

definition coloured :: "string \<Rightarrow> string \<Rightarrow> string" where
  "coloured username serverMessage =
     (if has_prefix serverMessage username then ''[yellow]'' @ serverMessage @ ''[white]'' @ [newline]
      else ''[green]'' @ serverMessage @ ''[white]'' @ [newline])"

text \<open>\<^term>\<open>None\<close>: the page still waits for the first message of \<^verbatim>\<open>StartChat\<close>.\<close>

definition chatPage :: "string \<Rightarrow> string list \<Rightarrow> (runner_end + string) option" where
  "chatPage username msgs = (case msgs of
       [] \<Rightarrow> None
     | start # msgs1 \<Rightarrow>
         if start \<noteq> ''START_CHAT'' then Some (Inl (close_channel Menu msgs1))
         else Some (Inr (concat (map (coloured username) msgs1))))"

text \<open>The input field of the page: what is sent, and the text left in the field.\<close>

datatype key = KeyEnter | OtherKey

definition chat_input_done :: "key \<Rightarrow> string \<Rightarrow> client \<Rightarrow> (nat \<times> string) list \<times> string" where
  "chat_input_done k userMessage c =
     (if k = KeyEnter then (SendMessage userMessage c, '''') else ([], userMessage))"

section \<open>Runs of the dialogues\<close>

lemma await_route_routed:
  assumes "newline \<notin> set room"
  shows "fst (await_route [''IP:'' @ srv, ''RoomID:'' @ room] d) = Chat srv room"
  using assms trim_prefix_append [of "''IP:''" srv] trim_prefix_append [of "''RoomID:''" room]
  by (simp add: await_route_def c_SERVER_ERROR_def close_channel_def trim_suffix_char_absent)

lemma await_verdict_waiting:
  "\<exists>d'. await_verdict (replicate n c_AWAITING_REQ @ msgs) d = await_verdict msgs d' \<and> shown_text d' = shown_text d"
proof (induction n arbitrary: d)
  case 0
  show ?case by (rule exI [of _ d]) simp
next
  case (Suc n)
  let ?d = "set_text (shown_text d @ ''Awaiting response'' @ dots ! dotIdx d)
    (d\<lparr>dotIdx := (if dotIdx d + 1 = length dots then 0 else dotIdx d + 1), shown_text := shown_text d\<rparr>)"
  have "await_verdict (replicate (Suc n) c_AWAITING_REQ @ msgs) d =
      await_verdict (replicate n c_AWAITING_REQ @ msgs) ?d"
    by (simp add: Let_def c_message_defs REQ_ACCEPTED_msg_def)
  moreover obtain d' where "await_verdict (replicate n c_AWAITING_REQ @ msgs) ?d = await_verdict msgs d'"
      "shown_text d' = shown_text ?d"
    using Suc.IH by blast
  moreover have "shown_text ?d = shown_text d" by (simp add: set_text_def)
  ultimately show ?case by metis
qed

lemma await_verdict_unknown:
  "\<forall>m\<in>set msgs. m \<noteq> REQ_ACCEPTED_msg \<and> m \<noteq> c_SERVER_ERROR \<Longrightarrow> fst (await_verdict msgs d) = Spinning"
  by (induction msgs d rule: await_verdict.induct) (simp_all add: Let_def)

text \<open>The animation's index stays in the array.\<close>

lemma dots_bound: "dotIdx d < length dots \<Longrightarrow> dotIdx (snd (await_verdict msgs d)) < length dots"
proof (induction msgs d rule: await_verdict.induct)
  case (2 m msgs d)
  have route: "dotIdx (snd (await_route ms e)) = dotIdx e" for ms e
    by (simp add: await_route_def connect_failed_def add_text_def set_text_def Let_def split: list.split)
  have "Suc (dotIdx d) \<noteq> length dots \<Longrightarrow> Suc (dotIdx d) < length dots" using 2(3) by simp
  with 2 show ?case
    by (simp add: route add_text_def set_text_def Let_def dots_def)
qed simp


text \<open>What a requester's dialogue makes of the central server's possible conversations.\<close>

lemma start_accepted:
  assumes "newline \<notin> set room"
  shows "fst (startMatchMaking u (c_ACK_CONN # c_MSG_REQ_SENT # replicate n c_AWAITING_REQ @
    [REQ_ACCEPTED_msg, ''IP:'' @ srv, ''RoomID:'' @ room])) = Chat srv room"
proof -
  have "fst (await_verdict (replicate n c_AWAITING_REQ @
      [REQ_ACCEPTED_msg, ''IP:'' @ srv, ''RoomID:'' @ room]) d) = Chat srv room" for d
    using await_verdict_waiting [of n "[REQ_ACCEPTED_msg, ''IP:'' @ srv, ''RoomID:'' @ room]" d]
      await_route_routed [OF assms] by auto
  then show ?thesis by (simp add: startMatchMaking_def)
qed

lemma start_declined:
  assumes "\<forall>m\<in>set msgs. m \<noteq> REQ_ACCEPTED_msg \<and> m \<noteq> c_SERVER_ERROR"
  shows "fst (startMatchMaking u (c_ACK_CONN # c_MSG_REQ_SENT # replicate n c_AWAITING_REQ @ msgs)) = Spinning"
proof -
  have "fst (await_verdict (replicate n c_AWAITING_REQ @ msgs) d) = Spinning" for d
    using await_verdict_waiting [of n msgs d] await_verdict_unknown [OF assms] by metis
  then show ?thesis by (simp add: startMatchMaking_def)
qed

section \<open>Properties\<close>

text \<open>Starting up ends the process only when the central server answers the registration with
  something other than 201. Every other error is taken for success: with both requests
  failing the client runs unregistered, without servers.\<close>

lemma startup_outcomes:
  "startup name post http c = (case post of
      Ret n \<Rightarrow> if n \<noteq> 201 then Exit 1 else Value (snd (Initialize http (c\<lparr>UserName := name\<rparr>)))
    | _ \<Rightarrow> Value (snd (Initialize http (c\<lparr>UserName := name\<rparr>)))) \<and>
   startup name (Fail e) (Fail e') c = Value (c\<lparr>UserName := name\<rparr>)"
  by (auto simp: startup_def Register_def showLoadingBarWithInitialization_def Initialize_def
      GetServers_def split: result.split prod.split)

text \<open>The animation never leaves its array of dots, however many messages arrive.\<close>

lemma animation_in_range:
  "dotIdx (snd (startMatchMaking u msgs)) < length dots"
proof -
  have d: "dotIdx (set_text t e) = dotIdx e" "dotIdx (add_text t e) = dotIdx e" for t e
    by (simp_all add: set_text_def add_text_def)
  have "dotIdx e = 0 \<Longrightarrow> dotIdx (snd (await_verdict ms e)) < length dots" for ms e
    by (rule dots_bound) (simp add: dots_def)
  then show ?thesis
    by (simp add: startMatchMaking_def d Let_def split: list.split) (simp add: dots_def)
qed

section \<open>Where the pages lead\<close>

text \<open>The pages that can come after a page: by an item, or, on the pages without items, by the end of
  the dialogue that opened it, fed with whatever its channel brings.\<close>

inductive page_step :: "page \<Rightarrow> page \<Rightarrow> bool" where
  select: "it \<in> set (page_items p) \<Longrightarrow> call_back order (selected it) = Some q \<Longrightarrow> page_step p q"
| matched: "dialogue_page (fst (startMatchMaking u msgs)) = Some q \<Longrightarrow> page_step (MatchmakingPage u) q"
| accepted: "dialogue_page (fst (acceptChatRequest u msgs)) = Some q \<Longrightarrow> page_step (AcceptingPage u) q"
| chat_failed: "chatPage name msgs = Some (Inl e) \<Longrightarrow> dialogue_page e = Some q \<Longrightarrow> page_step (ChatPage srv room) q"

inductive_cases page_stepE: "page_step p q"

text \<open>A chat can only be opened through its dialogue, and once it has started nothing leads away from
  its page: the goroutine that waits for \<^verbatim>\<open>START_CHAT\<close> is the only one that switches back.\<close>

lemma chat_page_origin:
  assumes "page_step p (ChatPage srv room)"
  shows "(\<exists>u msgs. p = MatchmakingPage u \<and> fst (startMatchMaking u msgs) = Chat srv room) \<or>
    (\<exists>u msgs. p = AcceptingPage u \<and> fst (acceptChatRequest u msgs) = Chat srv room)"
  using assms
proof (cases rule: page_step.cases)
  case (select it order)
  then show ?thesis by (cases "selected it") simp_all
next
  case (chat_failed name msgs e srv' room')
  then show ?thesis
    by (auto simp: chatPage_def close_channel_def dialogue_page_def split: list.splits if_splits)
qed (auto simp: dialogue_page_def split: runner_end.splits)

lemma started_chat_stays:
  "page_step (ChatPage srv room) q \<Longrightarrow> q = MenuPage"
  "chatPage name (''START_CHAT'' # msgs) \<noteq> Some (Inl e)"
  by (auto elim!: page_stepE simp: chatPage_def close_channel_def dialogue_page_def split: list.splits if_splits)

text \<open>Whoever waits for an answer that never comes has no key to press: the pages of the dialogues have
  no items, and a dialogue that does not end shows no page.\<close>

lemma trapped_page:
  "page_items (MatchmakingPage u) = []" "dialogue_page Spinning = None" "dialogue_page Blocked = None"
  by (simp_all add: dialogue_page_def)

end
