(* ===== verification/System.thy ===== *)
theory System
  imports Background Service_Registry Chat_Server Client_Runner "HOL-Library.Sublist"
begin

text \<open>
  The programs together: what one process writes is what the next one reads. The theorems
  compose the models of the central server, the chat servers and the clients over the bytes
  that go between them: the matchmaking conversation of both clients, the redirect of a
  running chat, one chat line from sender to receiver, and the way of the server list and
  the delays.
\<close>

section \<open>The matchmaking conversation on the requester's side\<close>

definition lines :: "string list \<Rightarrow> string" where
  "lines ms = concat (map (\<lambda>m. m @ [newline]) ms)"

lemma lines_simps [simp]:
  "lines [] = ''''" "lines (m # ms) = m @ newline # lines ms" "lines (ms @ ms') = lines ms @ lines ms'"
  by (simp_all add: lines_def)

lemma statuses_of_lines_list:
  "\<forall>m\<in>set ms. m \<noteq> '''' \<and> newline \<notin> set m \<Longrightarrow> statuses_of (lines ms) = ms"
proof (induction ms)
  case Nil
  show ?case by (simp add: statuses_of_def)
next
  case (Cons m ms)
  then show ?case by (simp add: statuses_of_lines)
qed

text \<open>The messages of the two programs are the same words, with and without the newline.\<close>

lemma message_lines:
  "ACK_CONN = lines [c_ACK_CONN]" "MSG_REQ_SENT = lines [c_MSG_REQ_SENT]"
  "AWAITING_REQ = lines [c_AWAITING_REQ]" "USER_NOT_FOUND = lines [c_USER_NOT_FOUND]"
  "REQ_ACCEPTED = lines [REQ_ACCEPTED_msg]" "SERVER_ERROR = lines [c_SERVER_ERROR]"
  "UNAUTHORIZED = lines [''Unauthorized'']"
  "match_response srv room = lines [''IP:'' @ srv, ''RoomID:'' @ room]"
  by (simp_all add: message_defs c_message_defs REQ_ACCEPTED_msg_def match_response_def newline_def)

lemma awaiting_lines: "concat (replicate n AWAITING_REQ) = lines (replicate n c_AWAITING_REQ)"
  by (induction n) (simp_all add: message_lines)

lemma c_messages_plain:
  "c_ACK_CONN \<noteq> ''''" "newline \<notin> set c_ACK_CONN" "c_MSG_REQ_SENT \<noteq> ''''" "newline \<notin> set c_MSG_REQ_SENT"
  "c_AWAITING_REQ \<noteq> ''''" "newline \<notin> set c_AWAITING_REQ"
  "c_USER_NOT_FOUND \<noteq> ''''" "newline \<notin> set c_USER_NOT_FOUND"
  "REQ_ACCEPTED_msg \<noteq> ''''" "newline \<notin> set REQ_ACCEPTED_msg"
  "c_SERVER_ERROR \<noteq> ''''" "newline \<notin> set c_SERVER_ERROR"
  by (simp_all add: c_message_defs REQ_ACCEPTED_msg_def newline_def)

text \<open>What the requester's dialogue receives when its reads end at message boundaries.\<close>

definition received :: "string list \<Rightarrow> string list" where
  "received sent = read_statuses (map Ret sent @ [Fail ''EOF''])"

lemma received_lines:
  assumes "\<forall>m\<in>set sent. m \<noteq> [] \<and> last m = newline" "concat sent = lines ms"
    and "\<forall>m\<in>set ms. m \<noteq> '''' \<and> newline \<notin> set m"
  shows "received sent = ms"
  using aligned_statuses [OF assms(1), of "''EOF''"] assms(2) statuses_of_lines_list [OF assms(3)]
  by (simp add: received_def)

lemma message_ends:
  "\<forall>m\<in>{ACK_CONN, MSG_REQ_SENT, AWAITING_REQ, USER_NOT_FOUND, REQ_ACCEPTED, SERVER_ERROR, UNAUTHORIZED,
     match_response srv room}. m \<noteq> [] \<and> last m = newline"
  by (simp add: message_lines)

lemma received_conversation:
  assumes "newline \<notin> set srv" "newline \<notin> set room" "v \<in> {REQ_ACCEPTED, USER_NOT_FOUND}"
  shows "received (ACK_CONN # MSG_REQ_SENT # replicate n AWAITING_REQ @ [v, match_response srv room]) =
    c_ACK_CONN # c_MSG_REQ_SENT # replicate n c_AWAITING_REQ @
      [if v = REQ_ACCEPTED then REQ_ACCEPTED_msg else c_USER_NOT_FOUND, ''IP:'' @ srv, ''RoomID:'' @ room]"
proof (rule received_lines)
  show "\<forall>m\<in>set (ACK_CONN # MSG_REQ_SENT # replicate n AWAITING_REQ @ [v, match_response srv room]).
      m \<noteq> [] \<and> last m = newline"
    using message_ends [of srv room] assms(3) by auto
  have "v = lines [if v = REQ_ACCEPTED then REQ_ACCEPTED_msg else c_USER_NOT_FOUND]"
    using assms(3) by (auto simp: message_lines(4,5))
  then show "concat (ACK_CONN # MSG_REQ_SENT # replicate n AWAITING_REQ @ [v, match_response srv room]) =
      lines (c_ACK_CONN # c_MSG_REQ_SENT # replicate n c_AWAITING_REQ @
        [if v = REQ_ACCEPTED then REQ_ACCEPTED_msg else c_USER_NOT_FOUND, ''IP:'' @ srv, ''RoomID:'' @ room])"
    by (simp add: awaiting_lines message_lines(1,2,8))
  have "newline \<notin> set (''IP:'' @ srv)" "newline \<notin> set (''RoomID:'' @ room)"
    using assms(1,2) by (simp_all add: newline_def)
  then show "\<forall>m\<in>set (c_ACK_CONN # c_MSG_REQ_SENT # replicate n c_AWAITING_REQ @
      [if v = REQ_ACCEPTED then REQ_ACCEPTED_msg else c_USER_NOT_FOUND, ''IP:'' @ srv, ''RoomID:'' @ room]).
      m \<noteq> '''' \<and> newline \<notin> set m"
    using c_messages_plain by (auto simp: set_replicate_conv_if)
qed

lemma room_no_newline: "generateRoomId now (Some bs) = Ret room \<Longrightarrow> newline \<notin> set room"
  using room_id_chars by (fastforce simp: newline_def)


section \<open>A match, from the request to the chat\<close>

text \<open>
  The situation in which a request reaches its peer and can be routed: both users are
  registered, the peer answers \<open>rep\<close>, both have reported finite delays and share a server.
\<close>

definition matchable ::
    "conn_env \<Rightarrow> client_store \<Rightarrow> string \<Rightarrow> string \<Rightarrow> string \<Rightarrow> match_reply \<Rightarrow>
      (string \<rightharpoonup> flt) \<Rightarrow> (string \<rightharpoonup> flt) \<Rightarrow> bool" where
  "matchable env st u v ip rep c1 c2 \<longleftrightarrow>
     interf env = (\<lambda>_ s. s) \<and> store_inv st \<and> map_order (data st) (by_name_order env st) \<and>
     data st (remote_ip (remote_addr env)) = Some u \<and> u \<noteq> '''' \<and>
     GetRequestedUsername (name_read env) = v \<and> v \<noteq> '''' \<and> data st ip = Some v \<and>
     dial_ok env ((if ip = ''::1'' then ''localhost'' else ip) @ '':3001'') \<and> reply env = Some rep \<and>
     delay_lists st u = Some c1 \<and> delay_lists st v = Some c2 \<and> finite_delays c1 \<and> finite_delays c2 \<and>
     valid_orders (env_orders env) c1 c2 \<and> dom c1 \<inter> dom c2 \<noteq> {} \<and> env_random env \<noteq> None"

text \<open>Server addresses are single lines and none is the client's error word.\<close>

definition addresses :: "(string \<rightharpoonup> flt) \<Rightarrow> bool" where
  "addresses c \<longleftrightarrow> (\<forall>s\<in>dom c. newline \<notin> set s \<and> s \<noteq> c_SERVER_ERROR)"

lemma matchable_session:
  assumes "matchable env st u v ip rep c1 c2" "addresses c1"
  obtains srv room st' where "srv \<in> optimal_servers c1 c2" "newline \<notin> set srv" "srv \<noteq> c_SERVER_ERROR"
    and "newline \<notin> set room" "room \<noteq> c_SERVER_ERROR"
    and "handleConnection env (fresh_session st) = (Ret Returned,
      \<lparr>store = st',
       sent_conn = ACK_CONN # MSG_REQ_SENT # replicate (polls env) AWAITING_REQ @
         [verdict u rep, match_response srv room],
       sent_peer = fst (requestMatch u rep) @ [match_response srv room]\<rparr>)"
    and "rooms st' = rooms st @ [new_instance room srv [u, v]]"
proof -
  from assms(1) obtain bytes where m: "interf env = (\<lambda>_ s. s)" "store_inv st"
      "map_order (data st) (by_name_order env st)"
      "data st (remote_ip (remote_addr env)) = Some u" "u \<noteq> ''''"
      "GetRequestedUsername (name_read env) = v" "v \<noteq> ''''" "data st ip = Some v"
      "dial_ok env ((if ip = ''::1'' then ''localhost'' else ip) @ '':3001'')" "reply env = Some rep"
      "delay_lists st u = Some c1" "delay_lists st v = Some c2" "finite_delays c1" "finite_delays c2"
      "valid_orders (env_orders env) c1 c2" "dom c1 \<inter> dom c2 \<noteq> {}" "env_random env = Some bytes"
    unfolding matchable_def by blast
  obtain srv room st' where s: "srv \<in> optimal_servers c1 c2"
      "generateRoomId (env_time env) (Some bytes) = Ret room"
      "handleConnection env (fresh_session st) = (Ret Returned,
        \<lparr>store = st',
         sent_conn = ACK_CONN # MSG_REQ_SENT # replicate (polls env) AWAITING_REQ @
           [verdict u rep, match_response srv room],
         sent_peer = fst (requestMatch u rep) @ [match_response srv room]\<rparr>)"
      "rooms st' = rooms st @ [new_instance room srv [u, v]]"
    using answered_session [OF m] by blast
  have "srv \<in> dom c1"
    using s(1) by (simp add: optimal_servers_def minimizers_def common_servers_def)
  then have srv: "newline \<notin> set srv" "srv \<noteq> c_SERVER_ERROR" using assms(2) by (auto simp: addresses_def)
  have "CHR ''S'' \<notin> set room" using room_id_chars [OF s(2)] by fastforce
  then have "room \<noteq> c_SERVER_ERROR" by (auto simp: c_SERVER_ERROR_def)
  with srv s room_no_newline [OF s(2)] that show thesis by blast
qed

lemma accepted_verdict: "snd (requestMatch u rep) = ACCEPT_REQ \<Longrightarrow> verdict u rep = REQ_ACCEPTED"
  and declined_verdict: "snd (requestMatch u rep) \<noteq> ACCEPT_REQ \<Longrightarrow> verdict u rep = USER_NOT_FOUND"
  by (simp_all add: verdict_def)

lemma accept_chat:
  assumes "srv \<noteq> c_SERVER_ERROR" "room \<noteq> c_SERVER_ERROR"
  shows "fst (acceptChatRequest key [c_ACCEPT_REQ, srv, room]) = Chat srv room"
  using assms by (simp add: acceptChatRequest_def close_channel_def Let_def)

lemma accept_match_response:
  assumes "ChatRequests c key = Some k" "newline \<notin> set srv" "newline \<notin> set room"
  shows "AcceptMessageRequest key True (Ret (match_response srv room)) c =
    ([(k, c_ACCEPT_REQ @ [newline])], [c_ACCEPT_REQ, srv, room], Ended)"
  using accept_response_routed [OF assms(2,3)] assms(1)
  by (simp add: AcceptMessageRequest_def match_response_def newline_def)


section \<open>Properties\<close>

text \<open>C1. An accepted match brings both clients into the same room on the same server: the one the
  central server recorded, best for the delays both have reported. The requester's dialogue,
  fed with what the session wrote, and the accepting client, fed with what it wrote to the
  peer, both end in that chat.\<close>

theorem accepted_match_end_to_end:
  assumes "matchable env st u v ip rep c1 c2" "addresses c1" "snd (requestMatch u rep) = ACCEPT_REQ"
    and "ChatRequests c key = Some k"
  shows "\<exists>srv room s'. handleConnection env (fresh_session st) = (Ret Returned, s') \<and>
    srv \<in> optimal_servers c1 c2 \<and>
    rooms (store s') = rooms st @ [new_instance room srv [u, v]] \<and>
    fst (startMatchMaking v (received (sent_conn s'))) = Chat srv room \<and>
    (\<exists>written statuses. AcceptMessageRequest key True (Ret (last (sent_peer s'))) c =
        (written, statuses, Ended) \<and>
      fst (acceptChatRequest key statuses) = Chat srv room)"
proof -
  obtain srv room st' where s: "srv \<in> optimal_servers c1 c2" "newline \<notin> set srv" "srv \<noteq> c_SERVER_ERROR"
      "newline \<notin> set room" "room \<noteq> c_SERVER_ERROR"
    and h: "handleConnection env (fresh_session st) = (Ret Returned,
      \<lparr>store = st',
       sent_conn = ACK_CONN # MSG_REQ_SENT # replicate (polls env) AWAITING_REQ @
         [verdict u rep, match_response srv room],
       sent_peer = fst (requestMatch u rep) @ [match_response srv room]\<rparr>)" (is "_ = (_, ?s)")
    and st': "rooms st' = rooms st @ [new_instance room srv [u, v]]"
    by (rule matchable_session [OF assms(1,2)])
  have "fst (startMatchMaking v (received (sent_conn ?s))) = Chat srv room"
    using received_conversation [OF s(2,4), of REQ_ACCEPTED "polls env"] start_accepted [OF s(4)]
    by (simp add: accepted_verdict [OF assms(3)])
  with h s(1) st' accept_match_response [OF assms(4) s(2,4)] accept_chat [OF s(3,5)] show ?thesis
    by (intro exI [of _ srv] exI [of _ room] exI [of _ ?s]) simp
qed

lemma matchable_example:
  "matchable (example_env a) example_store ''alice'' ''bob'' ''10.0.0.2''
     \<lparr>write_ok = True, response = Ret a\<rparr> [''10.0.0.3'' \<mapsto> Fin 30] [''10.0.0.3'' \<mapsto> Fin 20]"
  using example_env_simps example_store_inv example_store_order example_delay_lists
  by (simp add: matchable_def)

lemma addresses_example: "addresses [''10.0.0.3'' \<mapsto> Fin 30]"
  by (simp add: addresses_def newline_def c_SERVER_ERROR_def)

theorem accepted_match_end_to_end_witness:
  "\<exists>srv room s'. handleConnection (example_env (ACCEPT_REQ @ nl)) (fresh_session example_store) = (Ret Returned, s') \<and>
    fst (startMatchMaking ''bob'' (received (sent_conn s'))) = Chat srv room \<and>
    (\<exists>written statuses. AcceptMessageRequest (''bob'' @ [newline]) True (Ret (last (sent_peer s'))) example_client =
        (written, statuses, Ended) \<and>
      fst (acceptChatRequest (''bob'' @ [newline]) statuses) = Chat srv room)"
proof -
  have "ChatRequests example_client (''bob'' @ [newline]) = Some 7" by (simp add: example_client_def)
  from accepted_match_end_to_end [OF matchable_example addresses_example example_accept this]
  show ?thesis by blast
qed

text \<open>C35. When the peer declines, the requester's dialogue never ends: \<^verbatim>\<open>USER_NOT_FOUND\<close>, the
  address and the room that the central server still sends are all unknown words to the
  polling loop, which then polls a channel nobody writes to any more.\<close>

theorem declined_match_traps_requester:
  assumes "matchable env st u v ip rep c1 c2" "addresses c1" "snd (requestMatch u rep) \<noteq> ACCEPT_REQ"
  shows "\<exists>s'. handleConnection env (fresh_session st) = (Ret Returned, s') \<and>
    fst (startMatchMaking v (received (sent_conn s'))) = Spinning"
proof -
  obtain srv room st' where s: "srv \<in> optimal_servers c1 c2" "newline \<notin> set srv" "srv \<noteq> c_SERVER_ERROR"
      "newline \<notin> set room" "room \<noteq> c_SERVER_ERROR"
    and h: "handleConnection env (fresh_session st) = (Ret Returned,
      \<lparr>store = st',
       sent_conn = ACK_CONN # MSG_REQ_SENT # replicate (polls env) AWAITING_REQ @
         [verdict u rep, match_response srv room],
       sent_peer = fst (requestMatch u rep) @ [match_response srv room]\<rparr>)" (is "_ = (_, ?s)")
    and st': "rooms st' = rooms st @ [new_instance room srv [u, v]]"
    by (rule matchable_session [OF assms(1,2)])
  have "USER_NOT_FOUND \<noteq> REQ_ACCEPTED" by (simp add: message_defs)
  then have "received (sent_conn ?s) = c_ACK_CONN # c_MSG_REQ_SENT #
      replicate (polls env) c_AWAITING_REQ @ [c_USER_NOT_FOUND, ''IP:'' @ srv, ''RoomID:'' @ room]"
    using received_conversation [OF s(2,4), of USER_NOT_FOUND "polls env"]
    by (simp add: declined_verdict [OF assms(3)])
  moreover have "\<forall>m\<in>set [c_USER_NOT_FOUND, ''IP:'' @ srv, ''RoomID:'' @ room].
      m \<noteq> REQ_ACCEPTED_msg \<and> m \<noteq> c_SERVER_ERROR"
    by (simp add: c_message_defs REQ_ACCEPTED_msg_def)
  ultimately have "fst (startMatchMaking v (received (sent_conn ?s))) = Spinning"
    using start_declined by simp
  with h show ?thesis by blast
qed

theorem declined_match_traps_requester_witness:
  "\<exists>s'. handleConnection (example_env ''no'') (fresh_session example_store) = (Ret Returned, s') \<and>
    fst (startMatchMaking ''bob'' (received (sent_conn s'))) = Spinning"
  by (rule declined_match_traps_requester [OF matchable_example addresses_example example_decline])

text \<open>C24. One chat line, from the sender's input field to the receiver's view: the server passes
  each read on as a line of its own, so a message that one read delivers is shown whole,
  under the sender's name, followed by an empty line; one that two reads deliver is shown
  as two messages.\<close>

theorem chat_line_end_to_end:
  assumes "chat_reachable cm" "phase cm a = Some (InRoom ua r)" "b \<in> set (members cm r)"
    and "alive b" "currentChatConn sender = Some k" "incomplete v = ''''"
    and "newline \<notin> set ua" "newline \<notin> set (m1 @ m2)" "m1 \<noteq> ''''"
  shows "SendMessage (m1 @ m2) sender = [(k, m1 @ m2 @ [newline])] \<and>
    (\<forall>cm'. cm' = on_read alive a (m1 @ m2 @ [newline]) cm \<longrightarrow>
      (\<exists>bytes. delivered cm' b = delivered cm b @ bytes \<and>
        shown (chat_loop [ChatRead (Ret bytes)] v) = shown v @ [ua @ '': '' @ m1 @ m2, ''''])) \<and>
    (\<forall>cm'. cm' = on_read alive a (m2 @ [newline]) (on_read alive a m1 cm) \<longrightarrow>
      (\<exists>bytes. delivered cm' b = delivered cm b @ bytes \<and>
        shown (chat_loop [ChatRead (Ret bytes)] v) =
          shown v @ [ua @ '': '' @ m1, ua @ '': '' @ m2, '''']))"
proof -
  note inv = chat_reachable_inv [OF assms(1)]
  have read: "delivered (on_read alive a msg cm') b = delivered cm' b @ chat_line ua msg"
    and stays: "phase (on_read alive a msg cm') a = Some (InRoom ua r)" "members (on_read alive a msg cm') r = members cm' r"
    if "phase cm' a = Some (InRoom ua r)" "b \<in> set (members cm' r)" "distinct (members cm' r)" "msg \<noteq> ''''" for cm' msg
    using that assms(4) by (simp_all add: on_read_def broadcast_delivered)
  have shown: "shown (chat_loop [ChatRead (Ret bytes)] v) = shown v @ butlast (split_on newline bytes)" for bytes
    using assms(6) by (simp add: chat_loop_def splitMessages_split)
  have line: "newline \<notin> set msg \<Longrightarrow> split_on newline (ua @ '': '' @ msg @ newline # rest) =
      (ua @ '': '' @ msg) # split_on newline rest" for msg rest
    using split_on_append_sep [of newline "ua @ '': '' @ msg" rest] assms(7) by (simp add: newline_def)
  have one: "split_on newline (chat_line ua (m1 @ m2 @ [newline])) = [ua @ '': '' @ m1 @ m2, '''', '''']"
    using line [of "m1 @ m2" "[newline]"] assms(8) by (simp add: chat_line_def)
  have two: "split_on newline (chat_line ua m1 @ chat_line ua (m2 @ [newline])) =
      [ua @ '': '' @ m1, ua @ '': '' @ m2, '''', '''']"
    using line [of m1 "chat_line ua (m2 @ [newline])"] line [of m2 "[newline]"] assms(8)
    by (simp add: chat_line_def)
  let ?cm1 = "on_read alive a m1 cm"
  have d: "distinct (members cm r)" using inv by (rule chat_inv_distinct)
  have "delivered (on_read alive a (m2 @ [newline]) ?cm1) b =
      delivered cm b @ chat_line ua m1 @ chat_line ua (m2 @ [newline])"
    using read [of ?cm1 "m2 @ [newline]"] read [OF assms(2,3) d assms(9)] stays [OF assms(2,3) d assms(9)]
      assms(3) d by simp
  with two shown have two': "\<exists>bytes. delivered (on_read alive a (m2 @ [newline]) ?cm1) b = delivered cm b @ bytes \<and>
      shown (chat_loop [ChatRead (Ret bytes)] v) = shown v @ [ua @ '': '' @ m1, ua @ '': '' @ m2, '''']"
    by (metis butlast.simps(2) list.distinct(1))
  have "delivered (on_read alive a (m1 @ m2 @ [newline]) cm) b = delivered cm b @ chat_line ua (m1 @ m2 @ [newline])"
    using read [OF assms(2,3) d] by simp
  with one shown have one': "\<exists>bytes. delivered (on_read alive a (m1 @ m2 @ [newline]) cm) b = delivered cm b @ bytes \<and>
      shown (chat_loop [ChatRead (Ret bytes)] v) = shown v @ [ua @ '': '' @ m1 @ m2, '''']"
    by (metis butlast.simps(2) list.distinct(1))
  from one' two' assms(5) show ?thesis by (simp add: SendMessage_def)
qed


definition example_view :: chat_view where
  "example_view = \<lparr>self = example_client\<lparr>currentChatConn := Some 5\<rparr>, incomplete = '''', shown = [], wire = []\<rparr>"

theorem chat_line_end_to_end_witness:
  "\<exists>bytes. delivered (on_read (\<lambda>_. True) 1 (''he'' @ ''y'' @ [newline]) two_joined) 2 =
      delivered two_joined 2 @ bytes \<and>
    shown (chat_loop [ChatRead (Ret bytes)] example_view) = [''al: hey'', '''']"
proof -
  have "phase two_joined 1 = Some (InRoom ''al'' ''r'')" "2 \<in> set (members two_joined ''r'')"
    by (simp_all add: two_joined_state)
  from chat_line_end_to_end [OF two_joined_state(1) this, of "\<lambda>_. True" "self example_view" 5 example_view "''he''" "''y''"]
  show ?thesis by (simp add: example_view_def newline_def)
qed

text \<open>C23. A redirect keeps the chat together: the address the background job sends a client makes
  it dial that server and write a join line, and the server puts the new connection into the
  same room under the same name.\<close>

theorem redirect_end_to_end:
  assumes "newline \<notin> set srv" "phase cm n = Some (Joining '''')"
    and "UserName (self v) = u" "currentRoomId (self v) = room"
    and "CHR ''#'' \<notin> set u" "newline \<notin> set u" "newline \<notin> set room"
    and "plain_first u" "plain_last room" "room \<noteq> ''''"
  shows "\<exists>v' msg. chat_input_step (Redirect (Ret srv) (Some n) True) v = v' \<and>
    wire v' = wire v @ [(n, msg)] \<and> CurrentChatServer (self v') = srv \<and>
    currentChatConn (self v') = Some n \<and> shown v' = shown v \<and>
    phase (on_read alive n msg cm) n = Some (InRoom u room) \<and>
    members (on_read alive n msg cm) room = members cm room @ [n]"
proof -
  let ?v = "chat_input_step (Redirect (Ret srv) (Some n) True) v"
  let ?msg = "join_message u room"
  have "wire ?v = wire v @ [(n, ?msg)]" "CurrentChatServer (self ?v) = srv" "currentChatConn (self ?v) = Some n"
    using assms(1,3,4) by (simp_all add: trim_suffix_char_absent Let_def)
  moreover have "first_line ?msg = Some ?msg"
    using first_line_complete [of "u @ ''#'' @ room" "[]"] assms(6,7)
    by (simp add: join_message_def newline_def)
  then have "on_read alive n ?msg cm = join_room room n (cm\<lparr>phase := (phase cm)(n \<mapsto> InRoom u room)\<rparr>)"
    using parse_join_plain [OF assms(5,8-10)] assms(2) by (simp add: on_read_def join_message_def)
  then have "phase (on_read alive n ?msg cm) n = Some (InRoom u room)"
    "members (on_read alive n ?msg cm) room = members cm room @ [n]"
    by (simp_all add: join_room_members)
  ultimately show ?thesis
    by (intro exI [of _ ?v] exI [of _ ?msg]) (simp del: chat_input_step.simps)
qed

theorem redirect_end_to_end_witness:
  "\<exists>v' msg. chat_input_step (Redirect (Ret ''10.0.0.4'') (Some 9) True)
       (example_view\<lparr>self := (self example_view)\<lparr>currentRoomId := ''r1''\<rparr>\<rparr>) = v' \<and>
     wire v' = [(9, msg)] \<and>
     members (on_read (\<lambda>_. True) 9 msg (accept_client 9 NewChatManager)) ''r1'' = [9]"
proof -
  have "phase (accept_client 9 NewChatManager) 9 = Some (Joining '''')"
    "members (accept_client 9 NewChatManager) ''r1'' = []"
    by (simp_all add: accept_client_def NewChatManager_def members_def)
  then show ?thesis
    using redirect_end_to_end [of "''10.0.0.4''" "accept_client 9 NewChatManager" 9
        "example_view\<lparr>self := (self example_view)\<lparr>currentRoomId := ''r1''\<rparr>\<rparr>" "''alice''" "''r1''" "\<lambda>_. True"]
    by (simp add: example_view_def example_client_def newline_def plain_first_def plain_last_def space_encodings_def)
qed

section \<open>The way of the server list and the delays\<close>

text \<open>The JSON object of an answer as the client decodes it.\<close>

definition as_http :: "Client_API.response \<Rightarrow> http_answer result" where
  "as_http r = Ret \<lparr>code = status r, body_read = Ret (case map_of (body r) ''services'' of
       Some (JList xs) \<Rightarrow> Services xs
     | Some (JStr s) \<Rightarrow> Malformed ''cannot unmarshal string''
     | None \<Rightarrow> Absent)\<rparr>"

text \<open>The reports of an update that arrive, stored one after the other by the central server.\<close>

definition store_report :: "string \<times> (string \<rightharpoonup> flt) \<Rightarrow> client_store \<Rightarrow> client_store" where
  "store_report r s = snd (UpdateDelayList (Inr (fst r, Some (snd r))) s)"

definition store_reports :: "(nat \<Rightarrow> bool) \<Rightarrow> (string \<times> (string \<rightharpoonup> flt)) list \<Rightarrow> client_store \<Rightarrow> client_store" where
  "store_reports arrives reports s = fold store_report (map (nth reports) (filter arrives [0..<length reports])) s"

lemma store_report_named:
  "u \<noteq> '''' \<Longrightarrow> store_report (u, d) s = s\<lparr>delay_lists := (delay_lists s)(u \<mapsto> d)\<rparr>"
  by (simp add: store_report_def UpdateDelayList_def bind_delays_def cs_UpdateDelayList_def)

lemma store_report_frame: "data (store_report r s) = data s \<and> rooms (store_report r s) = rooms s"
  by (cases "fst r = ''''")
    (auto simp: store_report_def UpdateDelayList_def bind_delays_def cs_UpdateDelayList_def split: prod.split)

lemma store_reports_frame:
  "data (store_reports arrives reports s) = data s \<and> rooms (store_reports arrives reports s) = rooms s"
proof -
  have "data (fold store_report rs s) = data s \<and> rooms (fold store_report rs s) = rooms s" for rs
    by (induction rs rule: rev_induct) (simp_all add: store_report_frame)
  then show ?thesis by (simp add: store_reports_def)
qed

lemma store_reports_unnamed:
  "\<forall>r\<in>set reports. fst r = '''' \<Longrightarrow> store_reports arrives reports s = s"
proof -
  assume unnamed: "\<forall>r\<in>set reports. fst r = ''''"
  have "store_report r s = s" if "fst r = ''''" for r s
    using that by (simp add: store_report_def UpdateDelayList_def bind_delays_def)
  then have "\<forall>r\<in>set rs. fst r = '''' \<Longrightarrow> fold store_report rs s = s" for rs
    by (induction rs) simp_all
  with unnamed show ?thesis by (simp add: store_reports_def)
qed

text \<open>The last one that arrives decides.\<close>

lemma store_reports_last:
  assumes "m < length reports" "arrives m" "\<forall>n<length reports. arrives n \<longrightarrow> n \<le> m"
  shows "store_reports arrives reports s =
    store_report (reports ! m) (fold store_report (map (nth reports) (filter arrives [0..<m])) s)"
proof -
  have "[0..<length reports] = [0..<m] @ m # [Suc m..<length reports]"
    using upt_add_eq_append [of 0 m "length reports - m"] assms(1) by (simp add: upt_conv_Cons)
  moreover have "filter arrives [Suc m..<length reports] = []" using assms(3) by (auto simp: filter_empty_conv)
  ultimately have "filter arrives [0..<length reports] = filter arrives [0..<m] @ [m]" using assms(2) by simp
  then show ?thesis by (simp add: store_reports_def)
qed

text \<open>C17. What the central server holds of a client's delays, after an update of the client of
  which some reports arrive: exactly the servers that were live when the client asked, those
  pinged up to the last report that arrived with the delay measured (the largest float if
  unreachable), the others still with the largest float. When the last report arrives, that is
  the whole list. A client without a name gets nothing stored, since the handler requires one.\<close>

theorem delays_end_to_end:
  assumes "map_order (services ss) ks"
    and "map_order (\<lambda>s. if s \<in> live now ss then Some (Fin max_f32) else None) ps"
    and "updateServerDelays (as_http (GetServices now ks ss)) ps dial c = (c', reports)"
    and "m < length ps" "arrives m" "\<forall>n<length ps. arrives n \<longrightarrow> n \<le> m"
  shows "(if UserName c = '''' then store_reports arrives reports cs = cs
      else cs_GetDelayList (UserName c) (store_reports arrives reports cs) =
        Ret (\<lambda>s. if s \<in> set (take (Suc m) ps) then Some (measured dial s)
          else if s \<in> live now ss then Some (Fin max_f32) else None)) \<and>
    set ps = live now ss \<and>
    data (store_reports arrives reports cs) = data cs \<and> rooms (store_reports arrives reports cs) = rooms cs"
proof -
  obtain ips where ips: "GetServices now ks ss = \<lparr>status = 200, body = [(''services'', JList ips)]\<rparr>"
      "set ips = live now ss"
    using GetServices_live [OF assms(1)] by blast
  have g: "GetServers (as_http (GetServices now ks ss)) = Ret ips"
    by (simp add: ips(1) as_http_def GetServers_def decode_services_def)
  have ms: "set_all ips (Fin max_f32) Map.empty = (\<lambda>s. if s \<in> live now ss then Some (Fin max_f32) else None)"
    by (auto simp: set_all_lookup ips(2))
  have o: "map_order (set_all ips (Fin max_f32) Map.empty) ps" unfolding ms by (rule assms(2))
  have ps: "set ps = live now ss" using assms(2) by (auto simp: map_order_def split: if_splits)
  have reports: "reports = map (\<lambda>n. (UserName c, partial_delays dial (take (Suc n) ps) (set ips))) [0..<length ps]"
    using update_delays(1) [OF g o, of dial c] assms(3) by simp
  have "store_reports arrives reports cs = cs" if "UserName c = ''''"
    using that by (intro store_reports_unnamed) (simp add: reports)
  moreover have "cs_GetDelayList (UserName c) (store_reports arrives reports cs) =
      Ret (partial_delays dial (take (Suc m) ps) (live now ss))" if "UserName c \<noteq> ''''"
    using store_reports_last [of m reports arrives cs] assms(4-6) that
    by (simp add: reports store_report_named cs_GetDelayList_def ips(2))
  ultimately show ?thesis using ps store_reports_frame by (simp add: partial_delays_def)
qed

theorem delays_end_to_end_witness:
  "\<exists>c' reports. updateServerDelays (as_http (GetServices 7 [''10.0.0.3''] \<lparr>services = [''10.0.0.3'' \<mapsto> \<lparr>last_heartbeat = 5\<rparr>]\<rparr>))
      [''10.0.0.3''] (\<lambda>_. Some (Fin 30)) example_client = (c', reports) \<and>
    cs_GetDelayList ''alice'' (store_reports (\<lambda>n. n = 0) reports new_client_store) =
      Ret (\<lambda>s. if s = ''10.0.0.3'' then Some (Fin 30) else None)"
proof -
  let ?ss = "\<lparr>services = [''10.0.0.3'' \<mapsto> \<lparr>last_heartbeat = 5\<rparr>]\<rparr>"
  have live: "live 7 ?ss = {''10.0.0.3''}" by (auto simp: live_def second_def split: if_splits)
  obtain c' reports where u: "updateServerDelays (as_http (GetServices 7 [''10.0.0.3''] ?ss))
      [''10.0.0.3''] (\<lambda>_. Some (Fin 30)) example_client = (c', reports)"
    by fastforce
  have "map_order (\<lambda>s. if s \<in> live 7 ?ss then Some (Fin max_f32) else None) [''10.0.0.3'']"
    by (auto simp: live map_order_def split: if_splits)
  from delays_end_to_end [OF _ this u, of 0 "\<lambda>n. n = 0" new_client_store] u show ?thesis
    by (auto simp: live map_order_def measured_def pingServer_def example_client_def fun_eq_iff split: if_splits)
qed


section \<open>One conversation\<close>

text \<open>The complete lines of a text.\<close>

definition complete_lines :: "string \<Rightarrow> string list" where
  "complete_lines s = butlast (split_on newline s)"

lemma prefix_lines: "prefix xs ys \<Longrightarrow> prefix (complete_lines xs) (complete_lines ys)"
proof -
  assume "prefix xs ys"
  then obtain zs where "ys = xs @ zs" by (auto simp: prefix_def)
  moreover have "complete_lines (xs @ zs) =
      complete_lines xs @ butlast (split_on newline (last (split_on newline xs) @ zs))"
    unfolding complete_lines_def by (subst split_on_append) (simp add: butlast_append)
  ultimately show ?thesis by simp
qed

lemma complete_lines_append:
  "xs = '''' \<or> last xs = newline \<Longrightarrow> complete_lines (xs @ ys) = complete_lines xs @ complete_lines ys"
proof (cases "xs = ''''")
  case False
  assume "xs = '''' \<or> last xs = newline"
  with False obtain as where xs: "xs = as @ [newline]" by (metis append_butlast_last_id)
  have "split_on newline xs = butlast (split_on newline as) @ [last (split_on newline as), []]"
    unfolding xs by (subst split_on_append) (simp add: split_on_line split_on_last_no_sep)
  then have "last (split_on newline xs) = ''''" by simp
  then show ?thesis unfolding complete_lines_def by (subst split_on_append) (simp add: butlast_append)
qed (simp add: complete_lines_def)

lemma room_log_append: "room_log r (evs @ evs') cm = room_log r evs cm @ room_log r evs' (chat_run evs cm)"
  by (induction r evs cm rule: room_log.induct) simp_all

lemma chat_run_append: "chat_run (evs @ evs') cm = chat_run evs' (chat_run evs cm)"
  by (induction evs cm rule: chat_run.induct) simp_all

lemma room_log_ends: "room_log r evs cm = '''' \<or> last (room_log r evs cm) = newline"
proof (induction r evs cm rule: room_log.induct)
  case (2 r alive ev evs cm)
  have "said r ev cm = '''' \<or> last (said r ev cm) = newline"
    by (cases ev) (auto simp: said_def chat_line_def split: option.splits phase.splits)
  with 2 show ?case by (auto simp: last_append)
qed simp

lemma member_shows:
  assumes "chat_reachable cm" "c \<in> set (members cm r)" "\<forall>(alive, ev)\<in>set evs. alive c" "delivered cm c = ''''"
    and "StartChat srv room (Some k) True True cl = (v, True)"
    and "bytes_read inputs = take n (delivered (chat_run evs cm) c)"
  shows "shown (chat_loop inputs v) = ''START_CHAT'' # complete_lines (take n (room_log r evs cm))"
proof -
  have v: "incomplete v = ''''" "shown v = [''START_CHAT'']" using assms(5) by (auto simp: StartChat_def)
  have "delivered (chat_run evs cm) c = room_log r evs cm"
    using chat_run_delivered [OF chat_reachable_inv [OF assms(1)] assms(2,3)] assms(4) by simp
  then show ?thesis using chat_loop_split [of v inputs] v assms(6) by (simp add: complete_lines_def)
qed

text \<open>C7. The members of a room see one conversation. Take the lines said in a room since one member
  joined, and a second one that joins after some of them. Whatever the handlers of all
  connections do, what the first shows after \<^verbatim>\<open>START_CHAT\<close>, having read \<open>n\<close> bytes, is a beginning of
  these lines, the complete lines of the first \<open>n\<close> bytes said; and what the second shows is a
  beginning of the same lines without those said before it joined. If nothing was, both show
  beginnings of one list.\<close>

theorem members_see_one_conversation:
  assumes "chat_reachable cm" "c \<in> set (members cm r)" "delivered cm c = ''''"
    and "d \<in> set (members (chat_run evs0 cm) r)" "delivered (chat_run evs0 cm) d = ''''"
    and "\<forall>(alive, ev)\<in>set (evs0 @ evs). alive c" "\<forall>(alive, ev)\<in>set evs. alive d"
    and "StartChat srv room (Some k) True True cl = (v, True)" "StartChat srv' room' (Some k') True True cl' = (v', True)"
    and "bytes_read inputs = take n (delivered (chat_run (evs0 @ evs) cm) c)"
    and "bytes_read inputs' = take n' (delivered (chat_run (evs0 @ evs) cm) d)"
    and "before = room_log r evs0 cm" "talk = room_log r (evs0 @ evs) cm"
  shows "shown (chat_loop inputs v) = ''START_CHAT'' # complete_lines (take n talk) \<and>
    shown (chat_loop inputs' v') = ''START_CHAT'' # complete_lines (take n' (drop (length before) talk)) \<and>
    prefix (tl (shown (chat_loop inputs v))) (complete_lines talk) \<and>
    prefix (tl (shown (chat_loop inputs' v'))) (drop (length (complete_lines before)) (complete_lines talk))"
proof -
  let ?after = "room_log r evs (chat_run evs0 cm)"
  have talk: "talk = before @ ?after" by (simp add: assms(12,13) room_log_append)
  have lines: "complete_lines talk = complete_lines before @ complete_lines ?after"
    unfolding talk using room_log_ends [of r evs0 cm] by (intro complete_lines_append) (simp add: assms(12))
  have c: "shown (chat_loop inputs v) = ''START_CHAT'' # complete_lines (take n talk)"
    using member_shows [OF assms(1,2,6,3,8,10)] by (simp add: assms(13))
  have d: "shown (chat_loop inputs' v') = ''START_CHAT'' # complete_lines (take n' ?after)"
    using member_shows [OF chat_run_reachable [OF assms(1)] assms(4,7,5,9)] assms(11) by (simp add: chat_run_append)
  have "prefix (complete_lines (take n talk)) (complete_lines talk)"
    "prefix (complete_lines (take n' ?after)) (complete_lines ?after)"
    by (intro prefix_lines take_is_prefix)+
  with c d lines show ?thesis by (simp add: talk)
qed

text \<open>A member, and another one that joins when a line has been said.\<close>

definition one_joined :: chat_manager where
  "one_joined = chat_run (map (Pair (\<lambda>_. True)) [Accept 1, Accept 2, Read 1 (''al#r'' @ [newline])]) NewChatManager"

definition talk_and_join :: "((nat \<Rightarrow> bool) \<times> chat_event) list" where
  "talk_and_join = map (Pair (\<lambda>_. True)) [Read 1 ''hm'', Read 2 (''bo#r'' @ [newline])]"

lemma one_joined_state:
  "chat_reachable one_joined" "members one_joined ''r'' = [1]" "delivered one_joined = (\<lambda>_. [])"
  "members (chat_run talk_and_join one_joined) ''r'' = [1, 2]" "delivered (chat_run talk_and_join one_joined) 2 = []"
proof -
  show "chat_reachable one_joined"
    unfolding one_joined_def by (rule chat_run_reachable [OF chat_reachable.start])
  have 1: "parse_join (''al#r'' @ [newline]) = Some (''al'', ''r'')" "parse_join (''bo#r'' @ [newline]) = Some (''bo'', ''r'')"
    using parse_join_plain [of "''al''" "''r''"] parse_join_plain [of "''bo''" "''r''"]
    by (simp_all add: plain_first_def plain_last_def space_encodings_def)
  have 2: "first_line (''al#r'' @ [newline]) = Some (''al#r'' @ [newline])"
      "first_line (''bo#r'' @ [newline]) = Some (''bo#r'' @ [newline])"
    by (simp_all add: first_line_def newline_def)
  show "members one_joined ''r'' = [1]" "delivered one_joined = (\<lambda>_. [])"
      "members (chat_run talk_and_join one_joined) ''r'' = [1, 2]" "delivered (chat_run talk_and_join one_joined) 2 = []"
    using 1 2
    by (simp_all add: one_joined_def talk_and_join_def NewChatManager_def accept_client_def on_read_def
        join_room_def members_def fun_eq_iff broadcastMessage_def write_line_def)
qed

theorem members_see_one_conversation_witness:
  "let evs = [(\<lambda>_. True, Read 1 ''hi''), (\<lambda>_. True, Read 2 ''yo'')];
       v = fst (StartChat ''10.0.0.3'' ''r'' (Some 8) True True example_client);
       end = chat_run (talk_and_join @ evs) one_joined;
       talk = room_log ''r'' (talk_and_join @ evs) one_joined in
   shown (chat_loop [ChatRead (Ret (take 10 (delivered end 1)))] v) = ''START_CHAT'' # complete_lines (take 10 talk) \<and>
   prefix (tl (shown (chat_loop [ChatRead (Ret (take 9 (delivered end 2)))] v)))
     (drop (length (complete_lines (room_log ''r'' talk_and_join one_joined))) (complete_lines talk))"
proof -
  let ?v = "fst (StartChat ''10.0.0.3'' ''r'' (Some 8) True True example_client)"
  let ?evs = "[(\<lambda>_. True, Read 1 ''hi''), (\<lambda>_. True, Read 2 ''yo'')]"
  have start: "StartChat ''10.0.0.3'' ''r'' (Some 8) True True example_client = (?v, True)"
    by (simp add: StartChat_def)
  have in_room: "1 \<in> set (members one_joined ''r'')" "delivered one_joined 1 = ''''"
    "2 \<in> set (members (chat_run talk_and_join one_joined) ''r'')" "delivered (chat_run talk_and_join one_joined) 2 = ''''"
    "\<forall>(alive, ev)\<in>set (talk_and_join @ ?evs). alive 1" "\<forall>(alive, ev)\<in>set ?evs. alive 2"
    by (simp_all only: one_joined_state) (auto simp: talk_and_join_def)
  have read: "bytes_read [ChatRead (Ret bs)] = bs" for bs by simp
  note both = members_see_one_conversation [OF one_joined_state(1) in_room start start read read refl refl]
  show ?thesis unfolding Let_def by (rule conjI [OF both [THEN conjunct1] both [THEN conjunct2, THEN conjunct2, THEN conjunct2]])
qed

section \<open>A chat server\<close>

text \<open>\<^verbatim>\<open>main\<close> of \<^verbatim>\<open>Server/cmd/server/main.go\<close>, for the content of the configuration file: the heartbeat
  job, with its three seconds, and the chat manager, or the end of the process.\<close>

definition server_main :: "string result \<Rightarrow> (heartbeat_job \<times> chat_manager) outcome" where
  "server_main config = (case NewHeartbeatJob (3 * second) config of
       Ret heartbeat \<Rightarrow> Value (heartbeat, NewChatManager)
     | _ \<Rightarrow> Exit 1)"

text \<open>C19. A chat server that has started stays listed as long as no three consecutive heartbeats are
  lost: from the third tick on the central server lists it at every moment up to the next
  tick, whatever the registry held before (a restarted, empty one included). It starts
  exactly when its configuration file can be read and is not blank.\<close>

theorem started_server_stays_listed:
  assumes "server_main config = Value (h, cm)" "visits ord ip"
    and "\<forall>k. ups k \<or> ups (Suc k) \<or> ups (k + 2)" "3 \<le> n" "now \<le> int (Suc n) * (3 * second)"
  shows "ip \<in> live now (snd (run_heartbeat ord ip ups n (h, s))) \<and> cm = NewChatManager \<and>
    (\<exists>contents. config = Ret contents \<and> trim_space contents \<noteq> '''' \<and> serverURL h = trim_space contents)"
proof -
  have "interval h = 3 * second" "cm = NewChatManager"
    "\<exists>contents. config = Ret contents \<and> trim_space contents \<noteq> '''' \<and> serverURL h = trim_space contents"
    using assms(1)
    by (auto simp: server_main_def NewHeartbeatJob_def readConfig_def Let_def split: result.splits if_splits)
  with heartbeat_keeps_listed [OF assms(2) _ assms(3-5)] show ?thesis by blast
qed

theorem started_server_stays_listed_witness:
  "\<exists>h. server_main (Ret ''http://10.0.0.6:8080'') = Value (h, NewChatManager) \<and>
    ''10.0.0.3'' \<in> live (11 * second)
     (snd (run_heartbeat (\<lambda>_. [''10.0.0.3'']) ''10.0.0.3'' (\<lambda>k. k = 0 \<or> 3 \<le> k) 3 (h, new_service_store)))"
proof -
  have "trim_space ''http://10.0.0.6:8080'' = ''http://10.0.0.6:8080''"
    by (rule trim_space_plain) (simp_all add: plain_first_def plain_last_def space_encodings_def)
  then have main: "server_main (Ret ''http://10.0.0.6:8080'') =
      Value (\<lparr>serverURL = ''http://10.0.0.6:8080'', interval = 3 * second, registered = False\<rparr>, NewChatManager)"
    by (simp add: server_main_def NewHeartbeatJob_def readConfig_def)
  show ?thesis
    by (intro exI conjI, rule main, rule started_server_stays_listed [OF main, THEN conjunct1])
      (auto simp: visits_def second_def)
qed

end
