(* ===== verification/Chat_Schedule.thy ===== *)
theory Chat_Schedule
  imports Client_Core
begin

text \<open>The order in which the chat loop of a client takes its events (the two goroutines of
  \<^verbatim>\<open>Client.StartChat\<close> in \<^verbatim>\<open>Client/client/client.go\<close>). One accepts connections of the central
  server and offers each on the unbuffered \<^verbatim>\<open>connChan\<close>; the other selects, over and over, between
  an offered connection and, by default, a read of the chat connection, which blocks. What the
  loop does with an event, once taken, is \<^verbatim>\<open>chat_input_step\<close> of \<^verbatim>\<open>Client_Core\<close>.\<close>

section \<open>The two goroutines\<close>

text \<open>Where the loop is: before its \<^verbatim>\<open>select\<close>, or in the read of the default branch.\<close>

datatype loop_phase = Selecting | Reading

text \<open>\<open>backlog\<close> holds the connections the central server has made and nobody has accepted yet,
  \<open>offered\<close> the one the accepting goroutine tries to send. A connection is given with what the
  loop will get from it (the outcomes of the read, the dial and the write).\<close>

record loop_state =
  loop_phase :: loop_phase
  backlog :: "chat_input list"
  offered :: "chat_input option"
  view :: chat_view

datatype loop_event =
    Dialled "string result" "nat option" bool
  | Accepts
  | Selects
  | Returns "string result"

definition loop_start :: "chat_view \<Rightarrow> loop_state" where
  "loop_start v = \<lparr>loop_phase = Selecting, backlog = [], offered = None, view = v\<rparr>"

text \<open>When an event can happen: the sender of an unbuffered channel waits for its receiver, and a read
  can return only while the loop is in it.\<close>

fun can_happen :: "loop_event \<Rightarrow> loop_state \<Rightarrow> bool" where
  "can_happen (Dialled rd dialled write_ok) st = True"
| "can_happen Accepts st = (offered st = None \<and> backlog st \<noteq> [])"
| "can_happen Selects st = (loop_phase st = Selecting)"
| "can_happen (Returns rd) st = (loop_phase st = Reading)"

fun loop_turn :: "loop_event \<Rightarrow> loop_state \<Rightarrow> loop_state" where
  "loop_turn (Dialled rd dialled write_ok) st = st\<lparr>backlog := backlog st @ [Redirect rd dialled write_ok]\<rparr>"
| "loop_turn Accepts st = st\<lparr>backlog := tl (backlog st), offered := Some (hd (backlog st))\<rparr>"
| "loop_turn Selects st = (case offered st of
       Some serverConn \<Rightarrow> st\<lparr>offered := None, view := chat_input_step serverConn (view st)\<rparr>
     | None \<Rightarrow> st\<lparr>loop_phase := Reading\<rparr>)"
| "loop_turn (Returns rd) st = st\<lparr>loop_phase := Selecting, view := chat_input_step (ChatRead rd) (view st)\<rparr>"

inductive loop_run :: "loop_state \<Rightarrow> loop_event list \<Rightarrow> loop_state \<Rightarrow> bool" where
  stop: "loop_run st [] st"
| turn: "can_happen ev st \<Longrightarrow> loop_run (loop_turn ev st) evs st' \<Longrightarrow> loop_run st (ev # evs) st'"

inductive_simps loop_run_Nil [simp]: "loop_run st [] st'"
inductive_simps loop_run_Cons [simp]: "loop_run st (ev # evs) st'"

text \<open>The connections the central server made, and what the reads returned.\<close>

fun dialled_in :: "loop_event list \<Rightarrow> chat_input list" where
  "dialled_in [] = []"
| "dialled_in (Dialled rd dialled write_ok # evs) = Redirect rd dialled write_ok # dialled_in evs"
| "dialled_in (_ # evs) = dialled_in evs"

fun traffic :: "loop_event list \<Rightarrow> chat_input list" where
  "traffic [] = []"
| "traffic (Returns rd # evs) = ChatRead rd # traffic evs"
| "traffic (_ # evs) = traffic evs"

fun is_redirect :: "chat_input \<Rightarrow> bool" where
  "is_redirect (Redirect rd dialled write_ok) = True"
| "is_redirect (ChatRead rd) = False"

definition pending :: "loop_state \<Rightarrow> chat_input list" where
  "pending st = (case offered st of Some r \<Rightarrow> [r] | None \<Rightarrow> []) @ backlog st"


section \<open>The loop takes every event once, each kind in its order\<close>

lemma chat_loop_Cons: "chat_loop ins (chat_input_step i v) = chat_loop (i # ins) v"
  by (simp add: chat_loop_def)

lemma loop_run_order:
  "loop_run st evs st' \<Longrightarrow> \<forall>i\<in>set (pending st). is_redirect i \<Longrightarrow>
    \<exists>ins. view st' = chat_loop ins (view st) \<and>
      filter is_redirect ins @ pending st' = pending st @ dialled_in evs \<and>
      filter (\<lambda>i. \<not> is_redirect i) ins = traffic evs"
proof (induction rule: loop_run.induct)
  case (stop st)
  show ?case by (rule exI [of _ "[]"]) (simp add: chat_loop_def)
next
  case (turn ev st evs st')
  show ?case
  proof (cases ev)
    case (Dialled rd dialled ok)
    with turn show ?thesis by (simp add: pending_def)
  next
    case Accepts
    with turn have "pending (loop_turn ev st) = pending st" by (simp add: pending_def)
    with turn Accepts show ?thesis by simp
  next
    case Selects
    show ?thesis
    proof (cases "offered st")
      case None
      with turn Selects show ?thesis by (simp add: pending_def)
    next
      case (Some r)
      have r: "is_redirect r" "pending st = r # pending (loop_turn ev st)"
        using turn.prems Selects Some by (simp_all add: pending_def)
      with turn obtain ins where ins: "view st' = chat_loop ins (view (loop_turn ev st))"
        "filter is_redirect ins @ pending st' = pending (loop_turn ev st) @ dialled_in evs"
        "filter (\<lambda>i. \<not> is_redirect i) ins = traffic evs"
        by (auto simp del: chat_input_step.simps)
      with r Selects Some show ?thesis by (intro exI [of _ "r # ins"]) (simp add: chat_loop_Cons del: chat_input_step.simps)
    qed
  next
    case (Returns rd)
    with turn obtain ins where "view st' = chat_loop ins (chat_input_step (ChatRead rd) (view st))"
      "filter is_redirect ins @ pending st' = pending st @ dialled_in evs"
      "filter (\<lambda>i. \<not> is_redirect i) ins = traffic evs"
      by (auto simp: pending_def simp del: chat_input_step.simps)
    with Returns show ?thesis by (intro exI [of _ "ChatRead rd # ins"]) (simp add: chat_loop_Cons del: chat_input_step.simps)
  qed
qed

lemma reading_waits:
  "loop_run st evs st' \<Longrightarrow> loop_phase st = Reading \<Longrightarrow> traffic evs = [] \<Longrightarrow>
    loop_phase st' = Reading \<and> view st' = view st"
proof (induction rule: loop_run.induct)
  case (turn ev st evs st')
  then show ?case by (cases ev) simp_all
qed simp


section \<open>Properties\<close>

text \<open>C16. Redirects and reads of a running chat. The loop behaves as if it had taken the redirects it
  has followed and the reads it has made in some order, each kind in its own; no redirect is
  lost, and those not followed yet still wait. But a redirect that finds the loop in a read
  waits for traffic: whatever comes in, the client stays with its server and its view until
  the read returns, and one that is offered by then is the first thing the loop follows.\<close>

theorem redirects_wait_for_traffic:
  assumes "loop_run (loop_start v) evs st"
  shows "(\<exists>ins. view st = chat_loop ins v \<and> filter is_redirect ins @ pending st = dialled_in evs \<and>
      filter (\<lambda>i. \<not> is_redirect i) ins = traffic evs) \<and>
    (\<forall>evs' st'. loop_phase st = Reading \<and> loop_run st evs' st' \<and> traffic evs' = [] \<longrightarrow>
      loop_phase st' = Reading \<and> view st' = view st) \<and>
    (\<forall>r rd st'. loop_phase st = Reading \<and> offered st = Some r \<and> loop_run st [Returns rd, Selects] st' \<longrightarrow>
      view st' = chat_loop [ChatRead rd, r] (view st))"
proof (intro conjI allI impI)
  have "pending (loop_start v) = []" "view (loop_start v) = v" by (simp_all add: loop_start_def pending_def)
  with loop_run_order [OF assms] show "\<exists>ins. view st = chat_loop ins v \<and>
      filter is_redirect ins @ pending st = dialled_in evs \<and> filter (\<lambda>i. \<not> is_redirect i) ins = traffic evs"
    by simp
qed (use reading_waits in \<open>auto simp: chat_loop_def\<close>)

text \<open>A redirect that is offered when the loop starts is followed before any read; one that comes
  later, only after the next read.\<close>

definition waiting_view :: chat_view where
  "waiting_view = fst (StartChat ''10.0.0.3'' ''r1'' (Some 8) True True example_client)"

definition moved_there :: loop_event where
  "moved_there = Dialled (Ret ''10.0.0.4'') (Some 9) True"

lemma first_select_follows:
  "\<exists>st. loop_run (loop_start waiting_view) [moved_there, Accepts, Selects] st \<and>
    CurrentChatServer (self (view st)) = ''10.0.0.4''"
  by (simp add: moved_there_def waiting_view_def loop_start_def StartChat_def trim_suffix_char_absent newline_def)

theorem redirects_wait_for_traffic_witness:
  "\<exists>st st'. loop_run (loop_start waiting_view) [Selects, moved_there, Accepts] st \<and>
    loop_run st [moved_there] st' \<and> CurrentChatServer (self (view st')) = ''10.0.0.3'' \<and>
    (\<exists>st''. loop_run st [Returns (Ret ''bob''), Selects] st'' \<and> CurrentChatServer (self (view st'')) = ''10.0.0.4'')"
proof -
  let ?r = "Redirect (Ret ''10.0.0.4'') (Some 9) True"
  let ?st = "\<lparr>loop_phase = Reading, backlog = [], offered = Some ?r, view = waiting_view\<rparr>"
  let ?st' = "?st\<lparr>backlog := [?r]\<rparr>"
  have run: "loop_run (loop_start waiting_view) [Selects, moved_there, Accepts] ?st"
    by (simp add: moved_there_def loop_start_def)
  have more: "loop_run ?st [moved_there] ?st'" by (simp add: moved_there_def)
  note wait = redirects_wait_for_traffic [OF run, THEN conjunct2]
  have stays: "view ?st' = view ?st"
    using wait [THEN conjunct1, rule_format, of "[moved_there]" ?st'] more by (simp add: moved_there_def)
  have "loop_run ?st [Returns (Ret ''bob''), Selects] st'' \<Longrightarrow> view st'' = chat_loop [ChatRead (Ret ''bob''), ?r] waiting_view" for st''
    using wait [THEN conjunct2, rule_format, of ?r "Ret ''bob''" st''] by simp
  moreover have "\<exists>st''. loop_run ?st [Returns (Ret ''bob''), Selects] st''" by simp
  moreover have "CurrentChatServer (self (chat_loop [ChatRead (Ret ''bob''), ?r] waiting_view)) = ''10.0.0.4''"
    by (simp add: chat_loop_def waiting_view_def StartChat_def trim_suffix_char_absent newline_def splitMessages_split)
  moreover have "CurrentChatServer (self waiting_view) = ''10.0.0.3''" by (simp add: waiting_view_def StartChat_def)
  ultimately show ?thesis using run more by (intro exI [of _ ?st] exI [of _ ?st']) (auto simp del: loop_run_Cons)
qed

end
