(* ===== verification/Session_Steps.thy ===== *)
theory Session_Steps
  imports Matchmaking
begin

text \<open>
  A matchmaking session as a machine that makes one access to the shared store per move:
  \<^verbatim>\<open>handleConnection\<close> of \<^verbatim>\<open>Central/internal/matchmaking/matchmaking.go\<close> cut where other goroutines
  can come in between. \<open>run_session\<close> feeds the machine the stores that its moves find, and
  \<open>handler_of_moves\<close> shows that a run to the end is the handler, with what the others did in
  between as its interference.
\<close>

section \<open>Moves\<close>

text \<open>Where a session is, with the local variables that it still needs.\<close>

datatype session_pc =
    At_Read
  | At_Lookup string string
  | At_Delay1 string string
  | At_Delay2 string string "(string \<rightharpoonup> flt) result"
  | At_Insert string string string string
  | At_End "handler_end result"

fun session_move :: "conn_env \<Rightarrow> session_pc \<Rightarrow> session \<Rightarrow> session_pc \<times> session" where
  "session_move env At_Read s =
     (case cs_Read (remote_ip (remote_addr env)) (store s) of
        Ret username \<Rightarrow>
          if username = '''' then (At_End (Ret Returned), send_conn UNAUTHORIZED s) else
          (let req_user = GetRequestedUsername (name_read env) in
           if req_user = '''' then (At_End (Ret Returned), UserNotFound s)
           else (At_Lookup username req_user, AcknowledgeConnection s))
      | _ \<Rightarrow> (At_End (Ret Returned), send_conn UNAUTHORIZED s))"
| "session_move env (At_Lookup username req_user) s =
     (case cs_ReadByUsername (by_name_order env (store s)) req_user (store s) of
        Ret ip \<Rightarrow>
          (let req_user_ip = (if ip = ''::1'' then ''localhost'' else ip) in
           if \<not> dial_ok env (req_user_ip @ '':3001'') then (At_End (Ret Returned), s) else
           (let goroutine = map_option (requestMatch username) (reply env);
                s1 = (case goroutine of Some (ws, _) \<Rightarrow> fold send_peer ws s
                      | None \<Rightarrow> send_peer (username @ nl) s) in
            case await_result (polls env) (map_option snd goroutine) (RequestSent s1) of
              (Waiting, s2) \<Rightarrow> (At_End (Ret Waiting), s2)
            | (Returned, s2) \<Rightarrow> (At_Delay1 username req_user, s2)))
      | _ \<Rightarrow> (At_End (Ret Returned), UserNotFound s))"
| "session_move env (At_Delay1 username req_user) s =
     (At_Delay2 username req_user (cs_GetDelayList username (store s)), s)"
| "session_move env (At_Delay2 username req_user client1Delay) s =
     (case (client1Delay, cs_GetDelayList req_user (store s)) of
        (Ret c1, Ret c2) \<Rightarrow>
          (case compute_optimal_server (env_orders env) (env_seed env) c1 c2 of
             Ret serverIP \<Rightarrow>
               (case generateRoomId (env_time env) (env_random env) of
                  Ret roomId \<Rightarrow>
                    (let msg = match_response serverIP roomId in
                     (At_Insert username req_user serverIP roomId, send_peer msg (send_conn msg s)))
                | Fail e \<Rightarrow> (At_End (Fail e), s)
                | Panic \<Rightarrow> (At_End Panic, s))
           | _ \<Rightarrow> (At_End (Ret Returned), server_error s))
      | _ \<Rightarrow> (At_End (Ret Returned), server_error s))"
| "session_move env (At_Insert username req_user serverIP roomId) s =
     (At_End (Ret Returned), s\<lparr>store := snd (cs_InsertChatInstance (env_growth env)
        roomId serverIP [username, req_user] (store s))\<rparr>)"
| "session_move env (At_End r) s = (At_End r, s)"

text \<open>The number of the access that comes next, as \<open>interf\<close> of \<^verbatim>\<open>Matchmaking\<close> counts them.\<close>

fun next_access :: "session_pc \<Rightarrow> nat" where
  "next_access At_Read = 0"
| "next_access (At_Lookup u v) = 1"
| "next_access (At_Delay1 u v) = 2"
| "next_access (At_Delay2 u v d) = 3"
| "next_access (At_Insert u v srv room) = 4"
| "next_access (At_End r) = 5"

definition ended :: "session_pc \<Rightarrow> bool" where
  "ended pc \<longleftrightarrow> next_access pc = 5"

lemma ended_simps [simp]:
  "ended (At_End r)" "\<not> ended At_Read" "\<not> ended (At_Lookup u v)" "\<not> ended (At_Delay1 u v)"
  "\<not> ended (At_Delay2 u v d)" "\<not> ended (At_Insert u v srv room)"
  by (simp_all add: ended_def)

lemma endedE: "ended pc \<Longrightarrow> (\<And>r. pc = At_End r \<Longrightarrow> P) \<Longrightarrow> P"
  by (cases pc) simp_all

text \<open>A run: one move on each of the stores that the session finds.\<close>

fun run_session :: "conn_env \<Rightarrow> client_store list \<Rightarrow> session_pc \<times> session \<Rightarrow> session_pc \<times> session" where
  "run_session env [] c = c"
| "run_session env (st # sts) (pc, s) = run_session env sts (session_move env pc (s\<lparr>store := st\<rparr>))"

lemma run_session_snoc:
  "run_session env (sts @ [st]) c =
     (case run_session env sts c of (pc, s) \<Rightarrow> session_move env pc (s\<lparr>store := st\<rparr>))"
  by (induction env sts c rule: run_session.induct) (simp_all split: prod.splits)

lemma session_move_access:
  "session_move env pc s = (pc', s') \<Longrightarrow> \<not> ended pc \<Longrightarrow> next_access pc' = Suc (next_access pc) \<or> ended pc'"
  by (cases pc) (auto simp: Let_def split: result.splits if_splits option.splits prod.splits handler_end.splits)

section \<open>A run to the end is the handler\<close>

text \<open>A move of a session whose interference is given in advance; an ended session stays.\<close>

definition alone :: "conn_env \<Rightarrow> session_pc \<times> session \<Rightarrow> session_pc \<times> session" where
  "alone env c = (case c of (pc, s) \<Rightarrow>
     if ended pc then (pc, s) else session_move env pc (interfere env (next_access pc) s))"

lemma alone_simps [simp]:
  "alone env (At_End r, s) = (At_End r, s)"
  "\<not> ended pc \<Longrightarrow> alone env (pc, s) = session_move env pc (interfere env (next_access pc) s)"
  by (simp_all add: alone_def)

lemma alone_ended [simp]: "ended (fst c) \<Longrightarrow> (alone env ^^ n) c = c"
  by (induction n) (auto simp: alone_def split: prod.splits)

lemma alone_more: "ended (fst ((alone env ^^ n) c)) \<Longrightarrow> n \<le> m \<Longrightarrow> (alone env ^^ m) c = (alone env ^^ n) c"
proof -
  assume e: "ended (fst ((alone env ^^ n) c))" and "n \<le> m"
  then obtain k where "m = k + n" by (metis add.commute le_Suc_ex)
  then show ?thesis using e by (simp add: funpow_add)
qed

lemma moves_route_match:
  "(alone env ^^ 3) (At_Delay1 u v, s) = (case route_match env u v s of (r, s') \<Rightarrow> (At_End r, s'))"
  by (simp add: numeral_3_eq_3 route_match_def Let_def split: result.splits)

lemma moves_ask_peer:
  assumes "cs_ReadByUsername (by_name_order env (store s)) v (store s) = Ret ip"
    and "dial_ok env ((if ip = ''::1'' then ''localhost'' else ip) @ '':3001'')"
  shows "(alone env ^^ 3) (session_move env (At_Lookup u v) s) =
    (case ask_peer env u v s of (r, s') \<Rightarrow> (At_End r, s'))"
proof -
  let ?g = "map_option (requestMatch u) (reply env)"
  let ?s1 = "case ?g of Some (ws, _) \<Rightarrow> fold send_peer ws s | None \<Rightarrow> send_peer (u @ nl) s"
  obtain e s2 where w: "await_result (polls env) (map_option snd ?g) (RequestSent ?s1) = (e, s2)"
    by fastforce
  have "session_move env (At_Lookup u v) s =
      (case e of Waiting \<Rightarrow> (At_End (Ret Waiting), s2) | Returned \<Rightarrow> (At_Delay1 u v, s2))"
    using w assms by (cases e) (simp_all add: Let_def)
  moreover have "ask_peer env u v s =
      (case e of Waiting \<Rightarrow> (Ret Waiting, s2) | Returned \<Rightarrow> route_match env u v s2)"
    using w by (cases e) (simp_all add: ask_peer_def Let_def)
  ultimately show ?thesis by (cases e) (simp_all add: moves_route_match)
qed

lemma moves_unfold: "(alone env ^^ Suc n) c = (alone env ^^ n) (alone env c)"
  by (simp add: funpow_swap1)

lemma handler_of_moves:
  "(alone env ^^ 5) (At_Read, s) = (case handleConnection env s of (r, s') \<Rightarrow> (At_End r, s'))"
proof -
  let ?s1 = "interfere env 0 s"
  have five: "(alone env ^^ 5) (At_Read, s) = (alone env ^^ 4) (session_move env At_Read ?s1)"
    using moves_unfold [of 4] by simp
  have four: "(alone env ^^ 4) (At_Lookup u v, s') = (alone env ^^ 3) (session_move env (At_Lookup u v) (interfere env 1 s'))"
    for u v s' using moves_unfold [of 3] by simp
  consider (refused) "\<And>u. cs_Read (remote_ip (remote_addr env)) (store ?s1) = Ret u \<Longrightarrow>
        u = '''' \<or> GetRequestedUsername (name_read env) = ''''"
    | (asked) u where "cs_Read (remote_ip (remote_addr env)) (store ?s1) = Ret u" "u \<noteq> ''''"
        "GetRequestedUsername (name_read env) \<noteq> ''''"
    by blast
  then show ?thesis
  proof cases
    case refused
    then show ?thesis
      unfolding five by (auto simp: handleConnection_def Let_def split: result.split)
  next
    case (asked u)
    let ?v = "GetRequestedUsername (name_read env)"
    let ?s2 = "interfere env 1 (AcknowledgeConnection ?s1)"
    have move: "session_move env At_Read ?s1 = (At_Lookup u ?v, AcknowledgeConnection ?s1)"
      using asked by simp
    show ?thesis
    proof (cases "\<exists>ip. cs_ReadByUsername (by_name_order env (store ?s2)) ?v (store ?s2) = Ret ip \<and>
        dial_ok env ((if ip = ''::1'' then ''localhost'' else ip) @ '':3001'')")
      case True
      then obtain ip where ip: "cs_ReadByUsername (by_name_order env (store ?s2)) ?v (store ?s2) = Ret ip"
        "dial_ok env ((if ip = ''::1'' then ''localhost'' else ip) @ '':3001'')" by blast
      then have "handleConnection env s = ask_peer env u ?v ?s2"
        using asked by (simp add: handleConnection_def Let_def)
      then show ?thesis
        unfolding five move four by (simp only: moves_ask_peer [OF ip])
    next
      case False
      then show ?thesis
        unfolding five move four using asked by (auto simp: handleConnection_def Let_def split: result.split)
    qed
  qed
qed

text \<open>Only the stores that a session finds matter, not the interference its environment names.\<close>

lemma session_move_interf: "session_move (env\<lparr>interf := f\<rparr>) pc s = session_move env pc s"
  by (cases pc) (simp_all add: Let_def split: result.split)

definition observing :: "conn_env \<Rightarrow> client_store list \<Rightarrow> conn_env" where
  "observing env sts = env\<lparr>interf := (\<lambda>k _. sts ! k)\<rparr>"

text \<open>A run in which every move was one of a session that had not ended.\<close>

definition live_run :: "conn_env \<Rightarrow> client_store list \<Rightarrow> session_pc \<times> session \<Rightarrow> bool" where
  "live_run env sts c \<longleftrightarrow> (\<forall>n<length sts. \<not> ended (fst (run_session env (take n sts) c)))"

lemma live_run_Nil [simp]: "live_run env [] c"
  by (simp add: live_run_def)

lemma live_run_snoc [simp]:
  "live_run env (sts @ [st]) c \<longleftrightarrow> live_run env sts c \<and> \<not> ended (fst (run_session env sts c))"
  by (auto simp: live_run_def less_Suc_eq)

lemma live_run_alone:
  "live_run env sts (At_Read, s) \<Longrightarrow> \<exists>more. all = sts @ more \<Longrightarrow>
    run_session env sts (At_Read, s) = (alone (observing env all) ^^ length sts) (At_Read, s) \<and>
    (ended (fst (run_session env sts (At_Read, s))) \<or>
      next_access (fst (run_session env sts (At_Read, s))) = length sts)"
proof (induction sts rule: rev_induct)
  case (snoc st sts)
  obtain pc s' where r: "run_session env sts (At_Read, s) = (pc, s')" by fastforce
  from snoc.prems(1) r have "\<not> ended pc" by simp
  moreover have "\<exists>more. all = sts @ more" using snoc.prems(2) by auto
  ultimately have IH: "(pc, s') = (alone (observing env all) ^^ length sts) (At_Read, s)" "next_access pc = length sts"
    using snoc.IH snoc.prems(1) r by auto
  have "all ! length sts = st" using snoc.prems(2) by auto
  then have "alone (observing env all) (pc, s') = session_move env pc (s'\<lparr>store := st\<rparr>)"
    using \<open>\<not> ended pc\<close> IH(2)
    by (simp add: observing_def session_move_interf interfere_def)
  moreover obtain pc' s'' where m: "session_move env pc (s'\<lparr>store := st\<rparr>) = (pc', s'')" by fastforce
  moreover have "run_session env (sts @ [st]) (At_Read, s) = (pc', s'')" using r m by (simp add: run_session_snoc)
  moreover have "(alone (observing env all) ^^ length (sts @ [st])) (At_Read, s) = alone (observing env all) (pc, s')"
    unfolding IH(1) by simp
  moreover have "ended pc' \<or> next_access pc' = length (sts @ [st])"
    using session_move_access [OF m \<open>\<not> ended pc\<close>] IH(2) by auto
  ultimately show ?case by simp
qed simp

lemma live_run_length: "live_run env sts (At_Read, s) \<Longrightarrow> length sts \<le> 5"
proof (cases sts rule: rev_cases)
  case (snoc sts' st)
  assume "live_run env sts (At_Read, s)"
  with snoc have "live_run env sts' (At_Read, s)" "\<not> ended (fst (run_session env sts' (At_Read, s)))" by simp_all
  with live_run_alone [OF this(1), of sts'] show ?thesis
    using snoc by (cases "fst (run_session env sts' (At_Read, s))") auto
qed simp

lemma live_run_handler:
  assumes "live_run env sts (At_Read, s)" "run_session env sts (At_Read, s) = (At_End r, s')"
  shows "handleConnection (observing env sts) s = (r, s')"
proof -
  let ?env = "observing env sts"
  note all = live_run_alone [OF assms(1), of sts]
  then have run: "(alone ?env ^^ length sts) (At_Read, s) = (At_End r, s')" using assms(2) by simp
  with run have "(alone ?env ^^ 5) (At_Read, s) = (At_End r, s')"
    using alone_more [of "length sts" ?env "(At_Read, s)" 5] live_run_length [OF assms(1)] by simp
  then show ?thesis by (simp add: handler_of_moves split: prod.splits)
qed

end
