(* ===== verification/Tick_Steps.thy ===== *)
theory Tick_Steps
  imports Background
begin

text \<open>
  A tick of the background job as a machine that makes one access to the shared store per
  move: the body of \<^verbatim>\<open>backgroundAnalysis\<close> in \<^verbatim>\<open>Central/internal/matchmaking/matchmaking.go\<close> cut
  where other goroutines can come in between. \<open>tick_of_moves\<close> shows that its moves, with the
  interference of \<open>Background\<close> before each, are the tick of \<open>Background\<close>.
\<close>

section \<open>Moves\<close>

text \<open>The local variables of the loop's body: the header, the index, what is left of the range,
  the room read there and its users.\<close>

record body_vars =
  rc_hdr :: slice
  rc_index :: nat
  rc_rest :: "nat list"
  rc_inst :: chat_instance
  client1 :: string
  client2 :: string

datatype tick_pc =
    T_Idle
  | T_Elem slice "nat list"
  | T_Delay1 body_vars
  | T_Delay2 body_vars "(string \<rightharpoonup> flt) result"
  | T_Remove1 body_vars string
  | T_Remove2 body_vars string
  | T_Insert body_vars string
  | T_Ip1 body_vars string
  | T_Ip2 body_vars string "string result"
  | T_Panic

text \<open>The head of the loop.\<close>

definition next_elem :: "slice \<Rightarrow> nat list \<Rightarrow> tick_pc" where
  "next_elem hdr is = (if is = [] then T_Idle else T_Elem hdr is)"

definition continue :: "body_vars \<Rightarrow> tick_pc" where
  "continue x = next_elem (rc_hdr x) (rc_rest x)"

fun tick_move :: "bg_env \<Rightarrow> tick_pc \<Rightarrow> bg_state \<Rightarrow> tick_pc \<times> bg_state" where
  "tick_move env T_Idle b = (case cs_GetAllChatInstances (bg_store b) of
       Ret hdr \<Rightarrow> (next_elem hdr [0..<sl_len hdr], b)
     | _ \<Rightarrow> (T_Idle, b))"
| "tick_move env (T_Elem hdr []) b = (T_Idle, b)"
| "tick_move env (T_Elem hdr (i # is)) b =
     (case slice_get (store_arrays (bg_store b)) hdr i of
        Ret inst \<Rightarrow>
          (case (user_at inst 0, user_at inst 1) of
             (Ret u1, Ret u2) \<Rightarrow> (T_Delay1 \<lparr>rc_hdr = hdr, rc_index = i, rc_rest = is, rc_inst = inst,
                client1 = u1, client2 = u2\<rparr>, b)
           | _ \<Rightarrow> (T_Panic, b))
      | _ \<Rightarrow> (T_Panic, b))"
| "tick_move env (T_Delay1 x) b = (T_Delay2 x (cs_GetDelayList (client1 x) (bg_store b)), b)"
| "tick_move env (T_Delay2 x client1Delay) b =
     (case (client1Delay, cs_GetDelayList (client2 x) (bg_store b)) of
        (Ret c1, Ret c2) \<Rightarrow>
          (case compute_optimal_server (bg_orders env (rc_index x)) (bg_seed env (rc_index x)) c1 c2 of
             Ret serverIP \<Rightarrow>
               if serverIP = chat_server (rc_inst x) then (continue x, b) else (T_Remove1 x serverIP, b)
           | _ \<Rightarrow> (continue x, b))
      | _ \<Rightarrow> (continue x, b))"
| "tick_move env (T_Remove1 x srv) b =
     (case cs_RemoveChatInstancesForUser (client1 x) (bg_store b) of
        (Panic, s) \<Rightarrow> (T_Panic, b\<lparr>bg_store := s\<rparr>)
      | (_, s) \<Rightarrow> (T_Remove2 x srv, b\<lparr>bg_store := s\<rparr>))"
| "tick_move env (T_Remove2 x srv) b =
     (case cs_RemoveChatInstancesForUser (client2 x) (bg_store b) of
        (Panic, s) \<Rightarrow> (T_Panic, b\<lparr>bg_store := s\<rparr>)
      | (_, s) \<Rightarrow> (T_Insert x srv, b\<lparr>bg_store := s\<rparr>))"
| "tick_move env (T_Insert x srv) b =
     (case cs_InsertChatInstance (bg_growth env (rc_index x)) (room_id (rc_inst x)) srv
           [client1 x, client2 x] (bg_store b) of
        (Panic, s) \<Rightarrow> (T_Panic, b\<lparr>bg_store := s\<rparr>)
      | (_, s) \<Rightarrow> (T_Ip1 x srv, b\<lparr>bg_store := s\<rparr>))"
| "tick_move env (T_Ip1 x srv) b =
     (T_Ip2 x srv (cs_ReadByUsername (bg_name_order env (bg_store b)) (client1 x) (bg_store b)), b)"
| "tick_move env (T_Ip2 x srv ip1) b =
     (case (ip1, cs_ReadByUsername (bg_name_order env (bg_store b)) (client2 x) (bg_store b)) of
        (Ret client1IP, Ret client2IP) \<Rightarrow>
          if bg_dial env (rc_index x) (client1IP @ '':3003'') \<and> bg_dial env (rc_index x) (client2IP @ '':3003'')
          then (continue x, b\<lparr>redirects := redirects b @ [(client1IP, srv), (client2IP, srv)]\<rparr>)
          else (continue x, b)
      | _ \<Rightarrow> (continue x, b))"
| "tick_move env T_Panic b = (T_Panic, b)"

section \<open>The moves of a tick are the tick\<close>

text \<open>The iteration and the number of the access that comes next, as \<open>bg_interf\<close> counts them.\<close>

fun before_access :: "bg_env \<Rightarrow> tick_pc \<Rightarrow> client_store \<Rightarrow> client_store" where
  "before_access env (T_Elem hdr (i # is)) = bg_interf env i 0"
| "before_access env (T_Delay1 x) = bg_interf env (rc_index x) 1"
| "before_access env (T_Delay2 x d) = bg_interf env (rc_index x) 2"
| "before_access env (T_Remove1 x srv) = bg_interf env (rc_index x) 3"
| "before_access env (T_Remove2 x srv) = bg_interf env (rc_index x) 4"
| "before_access env (T_Insert x srv) = bg_interf env (rc_index x) 5"
| "before_access env (T_Ip1 x srv) = bg_interf env (rc_index x) 6"
| "before_access env (T_Ip2 x srv ip) = bg_interf env (rc_index x) 7"
| "before_access env _ = (\<lambda>s. s)"

inductive tick_step :: "bg_env \<Rightarrow> tick_pc \<times> bg_state \<Rightarrow> tick_pc \<times> bg_state \<Rightarrow> bool" for env where
  move: "pc \<noteq> T_Idle \<Longrightarrow> pc \<noteq> T_Panic \<Longrightarrow>
    tick_step env (pc, b) (tick_move env pc (b\<lparr>bg_store := before_access env pc (bg_store b)\<rparr>))"

abbreviation tick_steps :: "bg_env \<Rightarrow> tick_pc \<times> bg_state \<Rightarrow> tick_pc \<times> bg_state \<Rightarrow> bool" where
  "tick_steps env \<equiv> (tick_step env)\<^sup>*\<^sup>*"

lemma tick_stepI:
  "pc \<noteq> T_Idle \<Longrightarrow> pc \<noteq> T_Panic \<Longrightarrow>
    tick_move env pc (b\<lparr>bg_store := before_access env pc (bg_store b)\<rparr>) = c \<Longrightarrow> tick_steps env c c' \<Longrightarrow>
    tick_steps env (pc, b) c'"
  by (metis converse_rtranclp_into_rtranclp tick_step.move)

text \<open>Where the machine is when an operation of the loop's body has ended.\<close>

definition after :: "'a result \<Rightarrow> tick_pc \<Rightarrow> tick_pc" where
  "after r pc = (case r of Ret _ \<Rightarrow> pc | _ \<Rightarrow> T_Panic)"

lemma after_simps [simp]: "after (Ret a) pc = pc" "after (Fail e) pc = T_Panic" "after Panic pc = T_Panic"
  by (simp_all add: after_def)

lemma redirect_moves:
  "tick_steps env (T_Ip1 x srv, b)
     (continue x, redirect_clients env (rc_index x) srv (client1 x) (client2 x) b)"
proof (rule tick_stepI, simp, simp, rule refl, simp)
  show "tick_steps env (T_Ip2 x srv (cs_ReadByUsername (bg_name_order env (bg_interf env (rc_index x) 6 (bg_store b)))
      (client1 x) (bg_interf env (rc_index x) 6 (bg_store b))), b\<lparr>bg_store := bg_interf env (rc_index x) 6 (bg_store b)\<rparr>)
      (continue x, redirect_clients env (rc_index x) srv (client1 x) (client2 x) b)"
    by (rule tick_stepI [OF _ _ _ rtranclp.rtrancl_refl])
      (auto simp: redirect_clients_def Let_def split: result.splits)
qed

lemma relocate_moves:
  assumes "relocate (bg_interf env (rc_index x)) (bg_growth env (rc_index x)) (room_id (rc_inst x)) srv
      (client1 x) (client2 x) (bg_store b) = (r, s')"
  shows "tick_steps env (T_Remove1 x srv, b)
    (case r of Panic \<Rightarrow> T_Panic | _ \<Rightarrow> T_Ip1 x srv, b\<lparr>bg_store := s'\<rparr>)"
proof -
  let ?i = "bg_interf env (rc_index x)"
  obtain r1 s1 where r1: "cs_RemoveChatInstancesForUser (client1 x) (?i 3 (bg_store b)) = (r1, s1)" by fastforce
  show ?thesis
  proof (cases "r1 = Panic")
    case True
    with assms r1 show ?thesis
      by (intro tick_stepI [OF _ _ _ rtranclp.rtrancl_refl]) (auto simp: relocate_def)
  next
    case False
    obtain r2 s2 where r2: "cs_RemoveChatInstancesForUser (client2 x) (?i 4 s1) = (r2, s2)" by fastforce
    have one: "tick_steps env (T_Remove2 x srv, b\<lparr>bg_store := s1\<rparr>) c \<Longrightarrow> tick_steps env (T_Remove1 x srv, b) c" for c
      using False r1 by (intro tick_stepI) (auto split: result.splits)
    show ?thesis
    proof (cases "r2 = Panic")
      case True
      with assms r1 r2 False show ?thesis
        by (intro one tick_stepI [OF _ _ _ rtranclp.rtrancl_refl]) (auto simp: relocate_def split: result.splits)
    next
      case False2: False
      have two: "tick_steps env (T_Insert x srv, b\<lparr>bg_store := s2\<rparr>) c \<Longrightarrow>
          tick_steps env (T_Remove2 x srv, b\<lparr>bg_store := s1\<rparr>) c" for c
        using False2 r2 by (intro tick_stepI) (auto split: result.splits)
      have "relocate ?i (bg_growth env (rc_index x)) (room_id (rc_inst x)) srv (client1 x) (client2 x) (bg_store b) =
          cs_InsertChatInstance (bg_growth env (rc_index x)) (room_id (rc_inst x)) srv [client1 x, client2 x] (?i 5 s2)"
        using r1 r2 False False2 by (cases r1; cases r2) (simp_all add: relocate_def)
      with assms show ?thesis
        by (intro one two tick_stepI [OF _ _ _ rtranclp.rtrancl_refl]) (auto split: result.splits)
    qed
  qed
qed

lemma body_moves:
  assumes "users (rc_inst x) = client1 x # client2 x # us"
    and "reroute env (rc_index x) (rc_inst x) b = (r, b')"
  shows "tick_steps env (T_Delay1 x, b) (after r (continue x), b')"
proof -
  let ?i = "bg_interf env (rc_index x)"
  let ?s1 = "?i 1 (bg_store b)" and ?s2 = "?i 2 (?i 1 (bg_store b))"
  let ?d1 = "cs_GetDelayList (client1 x) ?s1" and ?d2 = "cs_GetDelayList (client2 x) ?s2"
  have users: "user_at (rc_inst x) 0 = Ret (client1 x)" "user_at (rc_inst x) 1 = Ret (client2 x)"
    using assms(1) by (simp_all add: user_at_def)
  have one: "tick_steps env (T_Delay2 x ?d1, b\<lparr>bg_store := ?s1\<rparr>) c \<Longrightarrow> tick_steps env (T_Delay1 x, b) c" for c
    by (rule tick_stepI) simp_all
  have two: "tick_move env (T_Delay2 x ?d1) (b\<lparr>bg_store := ?s2\<rparr>) = c \<Longrightarrow> tick_steps env c c' \<Longrightarrow>
      tick_steps env (T_Delay1 x, b) c'" for c c'
    by (rule one, rule tick_stepI) simp_all
  show ?thesis
  proof (cases "\<exists>c1 c2 srv. ?d1 = Ret c1 \<and> ?d2 = Ret c2 \<and>
      compute_optimal_server (bg_orders env (rc_index x)) (bg_seed env (rc_index x)) c1 c2 = Ret srv \<and>
      srv \<noteq> chat_server (rc_inst x)")
    case True
    then obtain c1 c2 srv where d: "?d1 = Ret c1" "?d2 = Ret c2" "srv \<noteq> chat_server (rc_inst x)"
      "compute_optimal_server (bg_orders env (rc_index x)) (bg_seed env (rc_index x)) c1 c2 = Ret srv" by blast
    obtain q s3 where rel: "relocate ?i (bg_growth env (rc_index x)) (room_id (rc_inst x)) srv (client1 x) (client2 x) ?s2 =
        (q, s3)" by fastforce
    have "tick_steps env (T_Remove1 x srv, b\<lparr>bg_store := ?s2\<rparr>)
        (case q of Panic \<Rightarrow> T_Panic | _ \<Rightarrow> T_Ip1 x srv, b\<lparr>bg_store := s3\<rparr>)"
      using relocate_moves [of env x srv "b\<lparr>bg_store := ?s2\<rparr>" q s3] rel by simp
    then have "tick_steps env (T_Delay1 x, b) (case q of Panic \<Rightarrow> T_Panic | _ \<Rightarrow> T_Ip1 x srv, b\<lparr>bg_store := s3\<rparr>)"
      using d by (intro two [of "(T_Remove1 x srv, b\<lparr>bg_store := ?s2\<rparr>)"]) simp_all
    moreover have "reroute env (rc_index x) (rc_inst x) b = (case q of Panic \<Rightarrow> (Panic, b\<lparr>bg_store := s3\<rparr>)
        | _ \<Rightarrow> (Ret (), redirect_clients env (rc_index x) srv (client1 x) (client2 x) (b\<lparr>bg_store := s3\<rparr>)))"
      using users d rel by (simp add: reroute_def Let_def split: result.splits)
    ultimately show ?thesis
      using assms(2) redirect_moves [of env x srv "b\<lparr>bg_store := s3\<rparr>"]
      by (cases q) (auto intro: rtranclp_trans)
  next
    case False
    then have "reroute env (rc_index x) (rc_inst x) b = (Ret (), b\<lparr>bg_store := ?s2\<rparr>)"
      using users by (auto simp: reroute_def Let_def split: result.splits)
    moreover have "tick_move env (T_Delay2 x ?d1) (b\<lparr>bg_store := ?s2\<rparr>) = (continue x, b\<lparr>bg_store := ?s2\<rparr>)"
      using False by (auto split: result.splits)
    ultimately show ?thesis
      using assms(2) two [OF _ rtranclp.rtrancl_refl] by fastforce
  qed
qed

text \<open>What the head of the loop reads: a room of two users, or nothing it can go on with.\<close>

lemma elem_reads [consumes 1]:
  assumes b0: "b0 = b\<lparr>bg_store := bg_interf env i 0 (bg_store b)\<rparr>"
  obtains (stuck) "tick_move env (T_Elem hdr (i # is)) b0 = (T_Panic, b0)" "bg_loop env hdr (i # is) b = (Panic, b0)"
  | (body) inst u1 u2 us where "slice_get (store_arrays (bg_store b0)) hdr i = Ret inst" "users inst = u1 # u2 # us"
proof (cases "slice_get (store_arrays (bg_store b0)) hdr i")
  case (Ret inst)
  show thesis
  proof (cases "length (users inst) < 2")
    case True
    with Ret b0 have "tick_move env (T_Elem hdr (i # is)) b0 = (T_Panic, b0)"
      "bg_loop env hdr (i # is) b = (Panic, b0)"
      by (auto simp: user_at_def reroute_def Let_def split: result.splits)
    then show thesis by (rule stuck)
  next
    case False
    then obtain u1 u2 us where "users inst = u1 # u2 # us"
      by (cases "users inst"; cases "tl (users inst)") auto
    with Ret show thesis by (rule body)
  qed
qed (use b0 in \<open>auto simp: Let_def intro: stuck\<close>)

lemma elem_moves:
  assumes "bg_loop env hdr (i # is) b = (r, b')"
  shows "\<exists>(q :: unit result) b1. tick_steps env (T_Elem hdr (i # is), b) (after q (next_elem hdr is), b1) \<and>
    (case q of Ret _ \<Rightarrow> bg_loop env hdr is b1 = (r, b') | _ \<Rightarrow> r = Panic \<and> b1 = b')"
proof -
  let ?b0 = "b\<lparr>bg_store := bg_interf env i 0 (bg_store b)\<rparr>"
  have move: "tick_steps env (tick_move env (T_Elem hdr (i # is)) ?b0) c \<Longrightarrow>
      tick_steps env (T_Elem hdr (i # is), b) c" for c
    by (rule tick_stepI) simp_all
  have "?b0 = b\<lparr>bg_store := bg_interf env i 0 (bg_store b)\<rparr>" by (rule refl)
  then show ?thesis
  proof (cases rule: elem_reads [of ?b0 env i b hdr "is"])
    case stuck
    then have "tick_steps env (T_Elem hdr (i # is), b) (after Panic (next_elem hdr is), ?b0)"
      using move by auto
    with stuck(2) assms show ?thesis by (intro exI [of _ Panic] exI [of _ ?b0]) simp
  next
    case (body inst u1 u2 us)
    let ?x = "\<lparr>rc_hdr = hdr, rc_index = i, rc_rest = is, rc_inst = inst, client1 = u1, client2 = u2\<rparr>"
    obtain q b1 where q: "reroute env i inst ?b0 = (q, b1)" by fastforce
    have "tick_move env (T_Elem hdr (i # is)) ?b0 = (T_Delay1 ?x, ?b0)"
      using body by (simp add: user_at_def)
    then have "tick_steps env (T_Elem hdr (i # is), b) (after q (continue ?x), b1)"
      using body_moves [of ?x us env ?b0 q b1] body(2) q move by simp
    moreover have "bg_loop env hdr (i # is) b = then_op (reroute env i inst) (bg_loop env hdr is) ?b0"
      using body(1) by (simp add: Let_def)
    then have "case q of Ret _ \<Rightarrow> bg_loop env hdr is b1 = (r, b') | Fail e \<Rightarrow> r = Fail e \<and> b1 = b' | Panic \<Rightarrow> r = Panic \<and> b1 = b'"
      using assms q by (cases q) (auto simp del: bg_loop.simps)
    moreover have "\<forall>e. q \<noteq> Fail e"
      using q by (auto simp: reroute_def Let_def split: result.splits prod.splits if_splits)
    ultimately have "tick_steps env (T_Elem hdr (i # is), b) (after q (next_elem hdr is), b1) \<and>
        (case q of Ret _ \<Rightarrow> bg_loop env hdr is b1 = (r, b') | _ \<Rightarrow> r = Panic \<and> b1 = b')"
      by (cases q) (simp_all add: continue_def)
    then show ?thesis by blast
  qed
qed

lemma loop_moves:
  "bg_loop env hdr is b = (r, b') \<Longrightarrow> tick_steps env (next_elem hdr is, b) (after r T_Idle, b')"
proof (induction "is" arbitrary: b)
  case Nil
  then show ?case by (auto simp: next_elem_def)
next
  case (Cons i js)
  obtain q :: "unit result" and b1 where q: "tick_steps env (T_Elem hdr (i # js), b) (after q (next_elem hdr js), b1)"
    "case q of Ret _ \<Rightarrow> bg_loop env hdr js b1 = (r, b') | _ \<Rightarrow> r = Panic \<and> b1 = b'"
    using elem_moves [OF Cons.prems] by blast
  show ?case
  proof (cases q)
    case (Ret a)
    with q Cons.IH [of b1] show ?thesis by (auto simp: next_elem_def intro: rtranclp_trans)
  qed (use q in \<open>auto simp: next_elem_def\<close>)
qed

text \<open>From the start of a tick to its end, or to the panic.\<close>

lemma tick_of_moves:
  assumes "bg_tick env b = (r, b')"
  shows "tick_steps env (tick_move env T_Idle b) (after r T_Idle, b')"
  using assms loop_moves [of env "chat_instances (bg_store b)" "[0..<sl_len (chat_instances (bg_store b))]" b r b']
  by (simp add: bg_tick_def cs_GetAllChatInstances_def)

end
