(* ===== verification/Lock_Discipline.thy ===== *)
theory Lock_Discipline
  imports Main
begin

text \<open>
  Which calls on the two stores of the central server can get in each other's way. Each store
  has a \<^verbatim>\<open>sync.RWMutex\<close>; every method takes it for writing or for reading and gives it back when
  it returns (\<^verbatim>\<open>Central/internal/client/store.go\<close>, \<^verbatim>\<open>Central/internal/service/store.go\<close>). Some
  take it for reading and write all the same. Here a method is the lock it takes and the shared
  memory it touches, in order; calls of any number of goroutines are interleaved under the rules
  of the mutex, and a race is a state in which two of them touch the same memory and one writes.
\<close>

section \<open>Methods\<close>

datatype place = DataMap | DelayMap | RoomHeader | RoomCells | HeartbeatMap

datatype access = Reads place | Writes place

datatype lock_mode = Unlocked | RLock | WLock

datatype client_method =
    M_Create | M_Read | M_Delete | M_ReadByUsername | M_UpdateDelayList | M_GetDelayList
  | M_InsertChatInstance | M_RemoveChatInstance | M_RemoveChatInstancesForServer
  | M_RemoveChatInstancesForUser | M_GetAllChatInstances

datatype service_method = S_Create | S_Read | S_Delete | S_Patch

text \<open>\<open>RangeRooms\<close>: the background job reads the rooms of the slice that \<^verbatim>\<open>GetAllChatInstances\<close> gave it
  after that call has returned.\<close>

datatype store_call = Client client_method | Service service_method | RangeRooms

fun client_lock :: "client_method \<Rightarrow> lock_mode" where
  "client_lock M_Create = WLock"
| "client_lock M_Read = RLock"
| "client_lock M_ReadByUsername = RLock"
| "client_lock M_Delete = WLock"
| "client_lock M_UpdateDelayList = WLock"
| "client_lock M_GetDelayList = RLock"
| "client_lock M_InsertChatInstance = RLock"
| "client_lock M_RemoveChatInstance = RLock"
| "client_lock M_RemoveChatInstancesForServer = RLock"
| "client_lock M_RemoveChatInstancesForUser = RLock"
| "client_lock M_GetAllChatInstances = RLock"

text \<open>What a call touches on its longest path; \<^verbatim>\<open>append\<close> reads the old cells when it reallocates.\<close>

fun client_accesses :: "client_method \<Rightarrow> access list" where
  "client_accesses M_Create = [Reads DataMap, Writes DataMap]"
| "client_accesses M_Read = [Reads DataMap]"
| "client_accesses M_ReadByUsername = [Reads DataMap]"
| "client_accesses M_Delete = [Reads DataMap, Writes DataMap]"
| "client_accesses M_UpdateDelayList = [Writes DelayMap]"
| "client_accesses M_GetDelayList = [Reads DelayMap]"
| "client_accesses M_InsertChatInstance = [Reads RoomHeader, Reads RoomCells, Writes RoomCells, Writes RoomHeader]"
| "client_accesses M_RemoveChatInstance =
     [Reads RoomHeader, Reads RoomCells, Reads RoomHeader, Reads RoomCells, Writes RoomCells, Writes RoomHeader]"
| "client_accesses M_RemoveChatInstancesForServer =
     [Reads RoomHeader, Reads RoomCells, Reads RoomHeader, Reads RoomCells, Writes RoomCells, Writes RoomHeader]"
| "client_accesses M_RemoveChatInstancesForUser =
     [Reads RoomHeader, Reads RoomCells, Reads RoomHeader, Reads RoomCells, Writes RoomCells, Writes RoomHeader]"
| "client_accesses M_GetAllChatInstances = [Reads RoomHeader]"

fun service_lock :: "service_method \<Rightarrow> lock_mode" where
  "service_lock S_Create = WLock"
| "service_lock S_Read = RLock"
| "service_lock S_Delete = WLock"
| "service_lock S_Patch = RLock"

fun service_accesses :: "service_method \<Rightarrow> access list" where
  "service_accesses S_Create = [Writes HeartbeatMap]"
| "service_accesses S_Read = [Reads HeartbeatMap]"
| "service_accesses S_Delete = [Reads HeartbeatMap, Writes HeartbeatMap]"
| "service_accesses S_Patch = [Reads HeartbeatMap, Writes HeartbeatMap]"

fun lock_of :: "store_call \<Rightarrow> lock_mode" where
  "lock_of (Client m) = client_lock m"
| "lock_of (Service m) = service_lock m"
| "lock_of RangeRooms = Unlocked"

fun accesses :: "store_call \<Rightarrow> access list" where
  "accesses (Client m) = client_accesses m"
| "accesses (Service m) = service_accesses m"
| "accesses RangeRooms = [Reads RoomCells]"

section \<open>Calls under the mutex\<close>

text \<open>The mutex of one store keeps two of its calls apart unless both only read-lock it.\<close>

fun same_mutex :: "store_call \<Rightarrow> store_call \<Rightarrow> bool" where
  "same_mutex (Client m) (Client n) = True"
| "same_mutex (Service m) (Service n) = True"
| "same_mutex _ _ = False"

definition excludes :: "store_call \<Rightarrow> store_call \<Rightarrow> bool" where
  "excludes m n \<longleftrightarrow> same_mutex m n \<and> (lock_of m = WLock \<or> lock_of n = WLock)"

text \<open>The goroutines that are inside a call, with what it has still to touch, the access they are
  making first. A call may return early.\<close>

type_synonym goroutines = "nat \<rightharpoonup> store_call \<times> access list"

inductive lock_step :: "goroutines \<Rightarrow> goroutines \<Rightarrow> bool" where
  enter: "gs i = None \<Longrightarrow> (\<And>j n bs. gs j = Some (n, bs) \<Longrightarrow> \<not> excludes m n) \<Longrightarrow>
    lock_step gs (gs(i \<mapsto> (m, accesses m)))"
| advance: "gs i = Some (m, a # as) \<Longrightarrow> lock_step gs (gs(i \<mapsto> (m, as)))"
| return: "gs i = Some (m, as) \<Longrightarrow> lock_step gs (gs(i := None))"

inductive lock_reachable :: "goroutines \<Rightarrow> bool" where
  nobody: "lock_reachable Map.empty"
| step: "lock_reachable gs \<Longrightarrow> lock_step gs gs' \<Longrightarrow> lock_reachable gs'"

fun interferes :: "access \<Rightarrow> access \<Rightarrow> bool" where
  "interferes (Reads p) (Reads q) = False"
| "interferes (Writes p) (Reads q) = (p = q)"
| "interferes (Reads p) (Writes q) = (p = q)"
| "interferes (Writes p) (Writes q) = (p = q)"

definition race :: "store_call \<Rightarrow> store_call \<Rightarrow> goroutines \<Rightarrow> bool" where
  "race m n gs \<longleftrightarrow> (\<exists>i j a as b bs. i \<noteq> j \<and> gs i = Some (m, a # as) \<and> gs j = Some (n, b # bs) \<and> interferes a b)"

text \<open>Whether two calls can be in a race, computed from their locks and accesses.\<close>

definition can_race :: "store_call \<Rightarrow> store_call \<Rightarrow> bool" where
  "can_race m n \<longleftrightarrow> \<not> excludes m n \<and> list_ex (\<lambda>a. list_ex (interferes a) (accesses n)) (accesses m)"

section \<open>The computed relation is the reachable one\<close>

definition held :: "goroutines \<Rightarrow> bool" where
  "held gs \<longleftrightarrow> (\<forall>i m as. gs i = Some (m, as) \<longrightarrow> set as \<subseteq> set (accesses m)) \<and>
     (\<forall>i j m as n bs. i \<noteq> j \<longrightarrow> gs i = Some (m, as) \<longrightarrow> gs j = Some (n, bs) \<longrightarrow> \<not> excludes m n)"

lemma excludes_sym: "excludes m n \<longleftrightarrow> excludes n m"
  by (cases m; cases n) (auto simp: excludes_def)

lemma held_step: "lock_step gs gs' \<Longrightarrow> held gs \<Longrightarrow> held gs'"
proof (induction rule: lock_step.induct)
  case (enter gs i m)
  then have free: "gs j = Some (n, bs) \<Longrightarrow> \<not> excludes m n \<and> \<not> excludes n m" for j n bs
    using excludes_sym by blast
  from enter.prems free show ?case by (auto simp: held_def split: if_splits)
next
  case (advance gs i m a as)
  then have "set (a # as) \<subseteq> set (accesses m)" unfolding held_def by blast
  with advance show ?case by (auto simp: held_def split: if_splits)
next
  case (return gs i m as)
  then show ?case by (auto simp: held_def split: if_splits)
qed

lemma held_reachable: "lock_reachable gs \<Longrightarrow> held gs"
proof (induction rule: lock_reachable.induct)
  case (step gs gs')
  then show ?case by (blast intro: held_step)
qed (simp add: held_def)

lemma race_can:
  assumes "lock_reachable gs" "race m n gs"
  shows "can_race m n"
proof -
  obtain i j a as b bs where ij: "i \<noteq> j" "gs i = Some (m, a # as)" "gs j = Some (n, b # bs)" "interferes a b"
    using assms(2) by (auto simp: race_def)
  have "held gs" by (rule held_reachable [OF assms(1)])
  then have "set (a # as) \<subseteq> set (accesses m)" "set (b # bs) \<subseteq> set (accesses n)" "\<not> excludes m n"
    using ij(1-3) unfolding held_def by blast+
  with ij(4) show ?thesis by (auto simp: can_race_def list_ex_iff)
qed

text \<open>A goroutine inside a call gets to any of its accesses.\<close>

lemma advance_to:
  "lock_reachable gs \<Longrightarrow> gs i = Some (m, xs @ ys) \<Longrightarrow> lock_reachable (gs(i \<mapsto> (m, ys)))"
proof (induction xs arbitrary: gs)
  case Nil
  then show ?case by (simp add: fun_upd_idem)
next
  case (Cons x xs)
  then have "lock_reachable (gs(i \<mapsto> (m, xs @ ys)))" by (auto intro: lock_reachable.step lock_step.advance)
  then have "lock_reachable ((gs(i \<mapsto> (m, xs @ ys)))(i \<mapsto> (m, ys)))" by (rule Cons.IH) simp
  then show ?case by (simp only: fun_upd_upd)
qed

lemma can_race_reached: "can_race m n \<Longrightarrow> \<exists>gs. lock_reachable gs \<and> race m n gs"
proof -
  assume can: "can_race m n"
  then obtain a b where ab: "a \<in> set (accesses m)" "b \<in> set (accesses n)" "interferes a b"
    by (auto simp: can_race_def list_ex_iff)
  obtain xs ys xs' ys' where split: "accesses m = xs @ a # ys" "accesses n = xs' @ b # ys'"
    using ab(1,2) by (meson split_list)
  have "lock_reachable [0 \<mapsto> (m, accesses m)]"
    by (intro lock_reachable.step [OF lock_reachable.nobody] lock_step.enter) simp_all
  then have one: "lock_reachable [0 \<mapsto> (m, a # ys)]"
    using advance_to [of "[0 \<mapsto> (m, accesses m)]" 0 m xs "a # ys"] split(1) by simp
  have "lock_step [0 \<mapsto> (m, a # ys)] ([0 \<mapsto> (m, a # ys)](1 \<mapsto> (n, accesses n)))"
    using can excludes_sym by (intro lock_step.enter) (auto simp: can_race_def split: if_splits)
  then have "lock_reachable ([0 \<mapsto> (m, a # ys)](1 \<mapsto> (n, accesses n)))" by (rule lock_reachable.step [OF one])
  then have "lock_reachable ([0 \<mapsto> (m, a # ys)](1 \<mapsto> (n, b # ys')))"
    using advance_to [of "[0 \<mapsto> (m, a # ys)](1 \<mapsto> (n, accesses n))" 1 n xs' "b # ys'"] split(2) by simp
  moreover have "race m n ([0 \<mapsto> (m, a # ys)](1 \<mapsto> (n, b # ys')))"
    unfolding race_def
    by (intro exI [of _ 0] exI [of _ 1] exI [of _ a] exI [of _ ys] exI [of _ b] exI [of _ ys']) (simp add: ab(3))
  ultimately show ?thesis by blast
qed

section \<open>Properties\<close>

definition writes_rooms :: "store_call \<Rightarrow> bool" where
  "writes_rooms m \<longleftrightarrow> m \<in> {Client M_InsertChatInstance, Client M_RemoveChatInstance,
     Client M_RemoveChatInstancesForServer, Client M_RemoveChatInstancesForUser}"

definition uses_rooms :: "store_call \<Rightarrow> bool" where
  "uses_rooms m \<longleftrightarrow> writes_rooms m \<or> m = Client M_GetAllChatInstances \<or> m = RangeRooms"

definition uses_heartbeats :: "store_call \<Rightarrow> bool" where
  "uses_heartbeats m \<longleftrightarrow> m = Service S_Patch \<or> m = Service S_Read"

lemma can_race_client:
  "can_race (Client m) (Client n) \<longleftrightarrow>
    writes_rooms (Client m) \<and> uses_rooms (Client n) \<or> uses_rooms (Client m) \<and> writes_rooms (Client n)"
  by (cases m; cases n; simp add: can_race_def excludes_def writes_rooms_def uses_rooms_def)

lemma can_race_service:
  "can_race (Service m) (Service n) \<longleftrightarrow>
    m = S_Patch \<and> uses_heartbeats (Service n) \<or> uses_heartbeats (Service m) \<and> n = S_Patch"
  by (cases m; cases n; simp add: can_race_def excludes_def uses_heartbeats_def)

lemma can_race_range:
  "can_race (Client m) RangeRooms \<longleftrightarrow> writes_rooms (Client m)"
  "can_race RangeRooms (Client m) \<longleftrightarrow> writes_rooms (Client m)"
  by (cases m; simp add: can_race_def excludes_def writes_rooms_def)+

lemma can_race_apart:
  "\<not> can_race (Client m) (Service k)" "\<not> can_race (Service k) (Client m)"
  "\<not> can_race (Service k) RangeRooms" "\<not> can_race RangeRooms (Service k)" "\<not> can_race RangeRooms RangeRooms"
  by (cases m; cases k; simp add: can_race_def)+

lemma can_race_cases:
  "can_race m n \<longleftrightarrow> (writes_rooms m \<and> uses_rooms n \<or> uses_rooms m \<and> writes_rooms n \<or>
     m = Service S_Patch \<and> uses_heartbeats n \<or> uses_heartbeats m \<and> n = Service S_Patch)"
  by (cases m; cases n)
    (auto simp: can_race_client can_race_service can_race_range can_race_apart writes_rooms_def uses_rooms_def uses_heartbeats_def)

text \<open>C26. The data races of the central server. However the calls of any number of goroutines run under
  the mutexes, two of them can touch the same memory, one of them writing, exactly when one
  is an insertion or removal of rooms and the other uses the rooms too (listing them or ranging
  over the list included), or when one is the heartbeat update and the other is it as
  well or lists the services. The registrations and the delay lists are never in a race.\<close>

theorem races_characterised:
  "(\<exists>gs. lock_reachable gs \<and> race m n gs) \<longleftrightarrow>
    (writes_rooms m \<and> uses_rooms n \<or> uses_rooms m \<and> writes_rooms n \<or>
     m = Service S_Patch \<and> uses_heartbeats n \<or> uses_heartbeats m \<and> n = Service S_Patch)"
proof -
  have "(\<exists>gs. lock_reachable gs \<and> race m n gs) \<longleftrightarrow> can_race m n"
    using race_can can_race_reached by blast
  also have "can_race m n \<longleftrightarrow> (writes_rooms m \<and> uses_rooms n \<or> uses_rooms m \<and> writes_rooms n \<or>
     m = Service S_Patch \<and> uses_heartbeats n \<or> uses_heartbeats m \<and> n = Service S_Patch)"
    by (rule can_race_cases)
  finally show ?thesis .
qed

end
