(* ===== verification/Central_Server.thy ===== *)
theory Central_Server
  imports Session_Steps Tick_Steps Service_Registry Lock_Discipline
begin

text \<open>
  The central server as one process, as \<^verbatim>\<open>Central/cmd/central/main.go\<close> puts it together: the two
  stores, the REST handlers of both services, any number of matchmaking sessions and the
  background job, all of them goroutines over the same stores. An event is one request that
  the router passes to its handler, the arrival of a connection, or one move of a goroutine
  (\<open>Session_Steps\<close>, \<open>Tick_Steps\<close>). A handler is one event: each makes a single access to its
  store, except \<^verbatim>\<open>PatchService\<close>, whose two accesses are taken together. A panic in a session or
  in the job ends the process, so that nothing happens after it.

  A call on a store is one step of such an event. That is what it does as long as no other call
  races with it, which the mutexes do not prevent for all of them (\<open>Lock_Discipline\<close>). So two
  pending calls that can race may also do so, which is the event \<open>Race\<close>: it ends the run, since Go
  ends the process when it notices that a map is written and used at once, and gives no
  meaning to what follows a race on a slice (\<open>Room_Races\<close> and \<open>Room_Removals\<close> show lost rooms
  and a panic). What holds of the reachable states therefore holds up to the first race.
\<close>

section \<open>State\<close>

text \<open>A session's goroutine, with what it has written to its two connections. \<open>g_seen\<close> remembers
  the stores that its moves have found.\<close>

record goroutine =
  g_env :: conn_env
  g_pc :: session_pc
  g_conn :: "string list"
  g_peer :: "string list"
  g_seen :: "client_store list"

record central =
  clientStore :: client_store
  serviceStore :: service_store
  sessions :: "nat \<rightharpoonup> goroutine"
  job :: "(bg_env \<times> tick_pc) option"
  told_clients :: "(string \<times> string) list"
  answers :: "response list"
  raced :: "(store_call \<times> store_call) option"

definition central_main :: central where
  "central_main = \<lparr>clientStore = new_client_store, serviceStore = new_service_store, sessions = Map.empty,
     job = None, told_clients = [], answers = [], raced = None\<rparr>"

section \<open>Events\<close>

text \<open>The routes of the service API, with the clock and the orders of the map's iterations.\<close>

datatype service_request =
    PostServices int string
  | GetServicesAt int "string list"
  | PatchServices int int "service_store \<Rightarrow> string list" string
  | DeleteServices int "string list" string

fun service_api :: "service_request \<Rightarrow> service_store \<Rightarrow> response \<times> service_store" where
  "service_api (PostServices now ip) s = RegisterService now ip s"
| "service_api (GetServicesAt now ks) s = (GetServices now ks s, s)"
| "service_api (PatchServices t1 t2 ord ip) s = PatchService t1 t2 ord ip s"
| "service_api (DeleteServices now ks ip) s = DeleteService now ks ip s"

text \<open>Who makes calls on the stores, and the call that each has pending.\<close>

datatype caller = RequestHandler | SessionOf nat | Job

fun session_call :: "session_pc \<Rightarrow> client_method option" where
  "session_call At_Read = Some M_Read"
| "session_call (At_Lookup u v) = Some M_ReadByUsername"
| "session_call (At_Delay1 u v) = Some M_GetDelayList"
| "session_call (At_Delay2 u v d) = Some M_GetDelayList"
| "session_call (At_Insert u v srv room) = Some M_InsertChatInstance"
| "session_call (At_End r) = None"

fun tick_call :: "tick_pc \<Rightarrow> store_call option" where
  "tick_call T_Idle = Some (Client M_GetAllChatInstances)"
| "tick_call (T_Elem hdr js) = Some RangeRooms"
| "tick_call (T_Delay1 x) = Some (Client M_GetDelayList)"
| "tick_call (T_Delay2 x d) = Some (Client M_GetDelayList)"
| "tick_call (T_Remove1 x srv) = Some (Client M_RemoveChatInstancesForUser)"
| "tick_call (T_Remove2 x srv) = Some (Client M_RemoveChatInstancesForUser)"
| "tick_call (T_Insert x srv) = Some (Client M_InsertChatInstance)"
| "tick_call (T_Ip1 x srv) = Some (Client M_ReadByUsername)"
| "tick_call (T_Ip2 x srv ip) = Some (Client M_ReadByUsername)"
| "tick_call T_Panic = None"

fun handler_call :: "store_call \<Rightarrow> bool" where
  "handler_call (Client m) \<longleftrightarrow> m \<in> {M_Create, M_Read, M_Delete, M_ReadByUsername, M_UpdateDelayList}"
| "handler_call (Service m) \<longleftrightarrow> True"
| "handler_call RangeRooms \<longleftrightarrow> False"

fun pending_call :: "central \<Rightarrow> caller \<Rightarrow> store_call \<Rightarrow> bool" where
  "pending_call c RequestHandler m \<longleftrightarrow> handler_call m"
| "pending_call c (SessionOf i) m \<longleftrightarrow> (case sessions c i of
     Some g \<Rightarrow> map_option Client (session_call (g_pc g)) = Some m | None \<Rightarrow> False)"
| "pending_call c Job m \<longleftrightarrow> tick_call (case job c of Some (env, pc) \<Rightarrow> pc | None \<Rightarrow> T_Idle) = Some m"

datatype event =
    ClientRequest "string list" client_request
  | ServiceRequest service_request
  | Connect nat conn_env
  | SessionMove nat
  | Tick bg_env
  | JobMove
  | Race caller store_call caller store_call

definition new_goroutine :: "conn_env \<Rightarrow> goroutine" where
  "new_goroutine env = \<lparr>g_env = env, g_pc = At_Read, g_conn = [], g_peer = [], g_seen = []\<rparr>"

definition session_of :: "goroutine \<Rightarrow> client_store \<Rightarrow> session" where
  "session_of g st = \<lparr>store = st, sent_conn = g_conn g, sent_peer = g_peer g\<rparr>"

definition move_goroutine :: "goroutine \<Rightarrow> client_store \<Rightarrow> goroutine \<times> client_store" where
  "move_goroutine g st = (case session_move (g_env g) (g_pc g) (session_of g st) of
     (pc, s) \<Rightarrow> (g\<lparr>g_pc := pc, g_conn := sent_conn s, g_peer := sent_peer s, g_seen := g_seen g @ [st]\<rparr>, store s))"

definition job_at :: "bg_env \<Rightarrow> tick_pc \<Rightarrow> (bg_env \<times> tick_pc) option" where
  "job_at env pc = (if pc = T_Idle then None else Some (env, pc))"

definition move_job :: "bg_env \<Rightarrow> tick_pc \<Rightarrow> central \<Rightarrow> central" where
  "move_job env pc c = (case tick_move env pc \<lparr>bg_store = clientStore c, redirects = told_clients c\<rparr> of
     (pc', b) \<Rightarrow> c\<lparr>clientStore := bg_store b, job := job_at env pc', told_clients := redirects b\<rparr>)"

fun central_do :: "event \<Rightarrow> central \<Rightarrow> central" where
  "central_do (ClientRequest ks rq) c = (case client_api ks rq (clientStore c) of
     (r, s) \<Rightarrow> c\<lparr>clientStore := s, answers := answers c @ [r]\<rparr>)"
| "central_do (ServiceRequest rq) c = (case service_api rq (serviceStore c) of
     (r, s) \<Rightarrow> c\<lparr>serviceStore := s, answers := answers c @ [r]\<rparr>)"
| "central_do (Connect i env) c = c\<lparr>sessions := (sessions c)(i \<mapsto> new_goroutine env)\<rparr>"
| "central_do (SessionMove i) c = (case sessions c i of
     Some g \<Rightarrow> (case move_goroutine g (clientStore c) of
       (g', s) \<Rightarrow> c\<lparr>clientStore := s, sessions := (sessions c)(i \<mapsto> g')\<rparr>)
   | None \<Rightarrow> c)"
| "central_do (Tick env) c = move_job env T_Idle c"
| "central_do JobMove c = (case job c of Some (env, pc) \<Rightarrow> move_job env pc c | None \<Rightarrow> c)"
| "central_do (Race p m q n) c = c\<lparr>raced := Some (m, n)\<rparr>"

text \<open>When an event can happen. The orders of a request visit the map as it is. Two calls race only if
  two goroutines make them; of request handlers there are many.\<close>

definition crashed :: "central \<Rightarrow> bool" where
  "crashed c \<longleftrightarrow> (\<exists>env. job c = Some (env, T_Panic)) \<or> (\<exists>i g. sessions c i = Some g \<and> g_pc g = At_End Panic) \<or>
     raced c \<noteq> None"

fun enabled :: "event \<Rightarrow> central \<Rightarrow> bool" where
  "enabled (ClientRequest ks rq) c \<longleftrightarrow> map_order (data (clientStore c)) ks"
| "enabled (ServiceRequest rq) c \<longleftrightarrow> True"
| "enabled (Connect i env) c \<longleftrightarrow> sessions c i = None"
| "enabled (SessionMove i) c \<longleftrightarrow> (\<exists>g. sessions c i = Some g \<and> \<not> ended (g_pc g))"
| "enabled (Tick env) c \<longleftrightarrow> job c = None"
| "enabled JobMove c \<longleftrightarrow> job c \<noteq> None"
| "enabled (Race p m q n) c \<longleftrightarrow> (p \<noteq> q \<or> p = RequestHandler) \<and> pending_call c p m \<and> pending_call c q n \<and> can_race m n"

inductive central_reachable :: "central \<Rightarrow> bool" where
  main: "central_reachable central_main"
| event: "central_reachable c \<Longrightarrow> \<not> crashed c \<Longrightarrow> enabled ev c \<Longrightarrow> central_reachable (central_do ev c)"

section \<open>Sessions\<close>

text \<open>Who a session is about: the user registered under its address when it looked, and the name
  it was asked for.\<close>

definition about :: "goroutine \<Rightarrow> string \<Rightarrow> string \<Rightarrow> bool" where
  "about g u v \<longleftrightarrow> g_seen g \<noteq> [] \<and> data (hd (g_seen g)) (remote_ip (remote_addr (g_env g))) = Some u \<and>
     GetRequestedUsername (name_read (g_env g)) = v"

fun pc_facts :: "goroutine \<Rightarrow> session_pc \<Rightarrow> bool" where
  "pc_facts g At_Read \<longleftrightarrow> g_seen g = []"
| "pc_facts g (At_Lookup u v) \<longleftrightarrow> about g u v"
| "pc_facts g (At_Delay1 u v) \<longleftrightarrow> about g u v"
| "pc_facts g (At_Delay2 u v d) \<longleftrightarrow> about g u v"
| "pc_facts g (At_Insert u v srv room) \<longleftrightarrow> about g u v \<and>
     match_response srv room \<in> set (g_conn g) \<and> match_response srv room \<in> set (g_peer g)"
| "pc_facts g (At_End r) \<longleftrightarrow> (r = Panic \<longrightarrow> env_random (g_env g) = None)"

definition blank :: session where
  "blank = fresh_session new_client_store"

text \<open>A session is where the moves on the stores that it has seen lead, and these were sound.\<close>

definition session_ok :: "goroutine \<Rightarrow> bool" where
  "session_ok g \<longleftrightarrow> pc_facts g (g_pc g) \<and> (\<forall>st\<in>set (g_seen g). store_inv st) \<and>
     live_run (g_env g) (g_seen g) (At_Read, blank) \<and>
     (\<exists>st. run_session (g_env g) (g_seen g) (At_Read, blank) = (g_pc g, session_of g st))"

lemma session_ok_new: "session_ok (new_goroutine env)"
  by (simp add: session_ok_def new_goroutine_def session_of_def blank_def fresh_session_def)

lemma about_seen: "about g u v \<Longrightarrow> g_seen g' = g_seen g @ sts \<Longrightarrow> g_env g' = g_env g \<Longrightarrow> about g' u v"
  by (simp add: about_def)

lemma move_goroutine_simps:
  "move_goroutine g st = (g', st') \<Longrightarrow> g_env g' = g_env g \<and> g_seen g' = g_seen g @ [st] \<and>
    session_move (g_env g) (g_pc g) (session_of g st) = (g_pc g', session_of g' st')"
  by (auto simp: move_goroutine_def session_of_def split: prod.splits)

text \<open>Only the last move changes the store.\<close>

lemma session_move_store:
  "session_move env pc s = (pc', s') \<Longrightarrow> (\<And>u v srv room. pc \<noteq> At_Insert u v srv room) \<Longrightarrow> store s' = store s"
  by (cases pc) (auto simp: Let_def await_result_eq server_error_def fold_send_peer
      split: result.splits if_splits option.splits prod.splits)

lemma cs_Read_Ret: "cs_Read ip st = Ret u \<Longrightarrow> data st ip = Some u"
  by (simp add: cs_Read_def split: option.splits)

lemma session_of_simps [simp]:
  "store (session_of g st) = st" "sent_conn (session_of g st) = g_conn g" "sent_peer (session_of g st) = g_peer g"
  "(session_of g st)\<lparr>store := st'\<rparr> = session_of g st'"
  by (simp_all add: session_of_def)

lemma generateRoomId_Panic: "generateRoomId now rnd = Panic \<Longrightarrow> rnd = None"
  by (simp add: generateRoomId_def split: option.splits)

lemma pc_facts_move:
  assumes "pc_facts g (g_pc g)" "\<not> ended (g_pc g)" "move_goroutine g st = (g', st')"
  shows "pc_facts g' (g_pc g')"
proof -
  let ?m = "session_move (g_env g) (g_pc g) (session_of g st)"
  have m: "g_env g' = g_env g" "g_seen g' = g_seen g @ [st]" "g_pc g' = fst ?m"
    "g_conn g' = sent_conn (snd ?m)" "g_peer g' = sent_peer (snd ?m)"
    using move_goroutine_simps [OF assms(3)] by simp_all
  note about' = about_seen [OF _ m(2,1)]
  show ?thesis
  proof (cases "g_pc g")
    case At_Read
    then have "about g' u v" if "cs_Read (remote_ip (remote_addr (g_env g))) st = Ret u"
        "GetRequestedUsername (name_read (g_env g)) = v" for u v
      using that assms(1) m(1,2) by (simp add: about_def cs_Read_Ret)
    with At_Read m(3) show ?thesis by (auto simp: Let_def split: result.split)
  next
    case (At_Lookup u v)
    with assms(1) m(3) about' [of u v] show ?thesis
      by (auto simp: Let_def split: result.split prod.split handler_end.split)
  next
    case (At_Delay1 u v)
    with assms(1) m(3) about' [of u v] show ?thesis by auto
  next
    case (At_Delay2 u v d)
    with assms(1) m(1,3-5) about' [of u v] show ?thesis
      by (auto simp: Let_def generateRoomId_Panic split: result.split)
  next
    case (At_Insert u v srv room)
    with m(3) show ?thesis by auto
  qed (use assms(2) in simp)
qed

lemma session_ok_move:
  assumes "session_ok g" "\<not> ended (g_pc g)" "store_inv st" "move_goroutine g st = (g', st')"
  shows "session_ok g'"
proof -
  have m: "g_env g' = g_env g" "g_seen g' = g_seen g @ [st]"
    "session_move (g_env g) (g_pc g) (session_of g st) = (g_pc g', session_of g' st')"
    using move_goroutine_simps [OF assms(4)] by simp_all
  obtain st0 where run: "run_session (g_env g) (g_seen g) (At_Read, blank) = (g_pc g, session_of g st0)"
    using assms(1) by (auto simp: session_ok_def)
  then have "run_session (g_env g') (g_seen g') (At_Read, blank) = (g_pc g', session_of g' st')"
    using m by (simp add: run_session_snoc)
  moreover have "live_run (g_env g') (g_seen g') (At_Read, blank)"
    using assms(1,2) run m(1,2) by (simp add: session_ok_def)
  ultimately show ?thesis
    using assms(1,3) m(2) pc_facts_move [OF _ assms(2,4)] by (auto simp: session_ok_def)
qed

text \<open>Rooms and the sessions that announced them.\<close>

definition announced :: "(nat \<rightharpoonup> goroutine) \<Rightarrow> chat_instance \<Rightarrow> bool" where
  "announced ss c \<longleftrightarrow> (\<exists>i g u v srv. ss i = Some g \<and> g_pc g = At_End (Ret Returned) \<and> users c = [u, v] \<and>
     about g u v \<and> match_response srv (room_id c) \<in> set (g_conn g) \<and> match_response srv (room_id c) \<in> set (g_peer g))"

lemma announced_moved: "announced ss c \<Longrightarrow> announced ss (new_instance (room_id c) srv (users c))"
  by (simp add: announced_def new_instance_def)

lemma announced_users: "announced ss c \<Longrightarrow> \<exists>u v. users c = [u, v]"
  by (auto simp: announced_def)

lemma announced_update:
  assumes "announced ss c" "\<And>g. ss i = Some g \<Longrightarrow> \<not> ended (g_pc g)"
  shows "announced (ss(i \<mapsto> g')) c"
proof -
  obtain j g u v srv where j: "ss j = Some g" "g_pc g = At_End (Ret Returned)" "users c = [u, v]"
     "about g u v" "match_response srv (room_id c) \<in> set (g_conn g)" "match_response srv (room_id c) \<in> set (g_peer g)"
    using assms(1) by (auto simp: announced_def)
  moreover have "j \<noteq> i" using assms(2) j(1,2) by auto
  ultimately show ?thesis unfolding announced_def by (intro exI [of _ j] exI [of _ g]) auto
qed

lemma inserted_announced:
  assumes "session_ok g" "g_pc g = At_Insert u v srv room" "move_goroutine g st = (g', st')"
  shows "announced (ss(i \<mapsto> g')) (new_instance room srv [u, v])"
    and "st' = snd (cs_InsertChatInstance (env_growth (g_env g)) room srv [u, v] st)"
proof -
  have m: "g_env g' = g_env g" "g_seen g' = g_seen g @ [st]"
    "(At_End (Ret Returned), session_of g st') = (g_pc g', session_of g' st')"
    "st' = snd (cs_InsertChatInstance (env_growth (g_env g)) room srv [u, v] st)"
    using move_goroutine_simps [OF assms(3)] assms(2) by (auto simp: session_of_def)
  have facts: "about g u v" "match_response srv room \<in> set (g_conn g)" "match_response srv room \<in> set (g_peer g)"
    using assms(1,2) by (simp_all add: session_ok_def)
  have "about g' u v" "g_conn g' = g_conn g" "g_peer g' = g_peer g" "g_pc g' = At_End (Ret Returned)"
    using about_seen [OF facts(1) m(2,1)] m(3) by (simp_all add: session_of_def)
  with facts show "announced (ss(i \<mapsto> g')) (new_instance room srv [u, v])"
    unfolding announced_def by (intro exI [of _ i] exI [of _ g'] exI [of _ u] exI [of _ v] exI [of _ srv])
      (simp add: new_instance_def)
  show "st' = snd (cs_InsertChatInstance (env_growth (g_env g)) room srv [u, v] st)" by (rule m(4))
qed

section \<open>The job\<close>

text \<open>What the job relies on at each of its moves: the header it ranges over lies in an allocated
  array of good rooms, whatever has been moved in it, and the room in hand is a good one.\<close>

definition body_ok :: "(chat_instance \<Rightarrow> bool) \<Rightarrow> body_vars \<Rightarrow> client_store \<Rightarrow> bool" where
  "body_ok P x st \<longleftrightarrow> header_cells P (rc_hdr x) st \<and> set (rc_rest x) \<subseteq> {..<sl_len (rc_hdr x)} \<and>
     P (rc_inst x) \<and> users (rc_inst x) = [client1 x, client2 x]"

fun tick_ok :: "(chat_instance \<Rightarrow> bool) \<Rightarrow> tick_pc \<Rightarrow> client_store \<Rightarrow> bool" where
  "tick_ok P T_Idle st \<longleftrightarrow> True"
| "tick_ok P (T_Elem hdr is) st \<longleftrightarrow> header_cells P hdr st \<and> set is \<subseteq> {..<sl_len hdr}"
| "tick_ok P (T_Delay1 x) st \<longleftrightarrow> body_ok P x st"
| "tick_ok P (T_Delay2 x d) st \<longleftrightarrow> body_ok P x st"
| "tick_ok P (T_Remove1 x srv) st \<longleftrightarrow> body_ok P x st"
| "tick_ok P (T_Remove2 x srv) st \<longleftrightarrow> body_ok P x st"
| "tick_ok P (T_Insert x srv) st \<longleftrightarrow> body_ok P x st"
| "tick_ok P (T_Ip1 x srv) st \<longleftrightarrow> body_ok P x st"
| "tick_ok P (T_Ip2 x srv ip) st \<longleftrightarrow> body_ok P x st"
| "tick_ok P T_Panic st \<longleftrightarrow> False"

text \<open>Stability: the job's assertion survives what keeps its headers good.\<close>

lemma body_ok_stable:
  "body_ok P x st \<Longrightarrow> (\<And>hdr. header_cells P hdr st \<Longrightarrow> header_cells Q hdr st') \<Longrightarrow> (\<And>c. P c \<Longrightarrow> Q c) \<Longrightarrow>
    body_ok Q x st'"
  by (simp add: body_ok_def)

lemma body_ok_keep:
  "body_ok P x st \<Longrightarrow> \<forall>hdr. header_cells P hdr st \<longrightarrow> header_cells P hdr st' \<Longrightarrow> body_ok P x st'"
  by (simp add: body_ok_def)

lemma tick_ok_stable:
  assumes "tick_ok P pc st" "\<And>hdr. header_cells P hdr st \<Longrightarrow> header_cells Q hdr st'" "\<And>c. P c \<Longrightarrow> Q c"
  shows "tick_ok Q pc st'"
  using assms by (cases pc) (auto intro: body_ok_stable)

text \<open>The store as a goroutine that moves rooms relies on it.\<close>

definition rooms_ok :: "(chat_instance \<Rightarrow> bool) \<Rightarrow> client_store \<Rightarrow> bool" where
  "rooms_ok P st \<longleftrightarrow> store_inv st \<and> (\<forall>c\<in>set (rooms st). P c)"

lemma rooms_ok_insert:
  assumes "rooms_ok P st" "P (new_instance r srv us)"
  shows "\<exists>st'. cs_InsertChatInstance e r srv us st = (Ret r, st') \<and> rooms_ok P st' \<and>
    (\<forall>hdr. header_cells P hdr st \<longrightarrow> header_cells P hdr st')"
proof -
  obtain st' where st': "cs_InsertChatInstance e r srv us st = (Ret r, st')" "store_inv st'"
    "rooms st' = rooms st @ [new_instance r srv us]"
    using cs_InsertChatInstance_spec [of st e r srv us] assms(1) unfolding rooms_ok_def new_instance_def by blast
  moreover have "header_cells P hdr st'" if "header_cells P hdr st" for hdr
    using header_cells_insert [OF _ that assms(2), of e] assms(1) st'(1) by (simp add: rooms_ok_def)
  ultimately show ?thesis using assms by (auto simp: rooms_ok_def)
qed

lemma rooms_ok_remove_user:
  assumes "rooms_ok P st"
  shows "\<exists>r st'. cs_RemoveChatInstancesForUser u st = (r, st') \<and> r \<noteq> Panic \<and> rooms_ok P st' \<and>
    (\<forall>hdr. header_cells P hdr st \<longrightarrow> header_cells P hdr st')"
proof -
  obtain r st' where st': "cs_RemoveChatInstancesForUser u st = (r, st')" "r \<noteq> Panic" "store_inv st'"
    "rooms st' = remove_first (\<lambda>c. u \<in> set (users c)) (rooms st)"
    using client_rooms.remove_view [of st u] assms by (auto simp: rooms_ok_def)
  moreover have "header_cells P hdr st'" if "header_cells P hdr st" for hdr
    using header_cells_remove_user [of st P hdr u] that assms st'(1) by (simp add: rooms_ok_def)
  ultimately show ?thesis using assms by (auto simp: rooms_ok_def dest: remove_firstD)
qed

definition movable :: "(chat_instance \<Rightarrow> bool) \<Rightarrow> bool" where
  "movable P \<longleftrightarrow> (\<forall>c srv. P c \<longrightarrow> P (new_instance (room_id c) srv (users c)) \<and> (\<exists>u v. users c = [u, v]))"

lemma movable_announced: "movable (announced ss)"
  by (auto simp: movable_def dest: announced_moved announced_users)

lemma continue_ok: "body_ok P x st \<Longrightarrow> tick_ok P (continue x) st"
  by (simp add: continue_def next_elem_def body_ok_def)

lemma remove_user_keeps:
  assumes "rooms_ok P st" "body_ok P x st" "cs_RemoveChatInstancesForUser u st = (r, st')"
  shows "r \<noteq> Panic \<and> rooms_ok P st' \<and> body_ok P x st'"
  using rooms_ok_remove_user [OF assms(1), of u] assms(2,3) by (auto intro: body_ok_keep)

lemma tick_move_ok:
  assumes "rooms_ok P (bg_store b)" "movable P" "tick_ok P pc (bg_store b)" "tick_move env pc b = (pc', b')"
  shows "rooms_ok P (bg_store b') \<and> tick_ok P pc' (bg_store b')"
proof (cases pc)
  case T_Idle
  have "header_cells P (chat_instances (bg_store b)) (bg_store b)"
    using assms(1) by (intro header_cells_own) (simp_all add: rooms_ok_def)
  with T_Idle assms(1,4) show ?thesis
    by (auto simp: cs_GetAllChatInstances_def next_elem_def)
next
  case (T_Elem hdr js)
  show ?thesis
  proof (cases js)
    case (Cons i "is")
    with T_Elem assms(3) obtain c where c: "slice_get (store_arrays (bg_store b)) hdr i = Ret c" "P c"
      using header_cells_get [of P hdr "bg_store b" i] by auto
    obtain u v where "users c = [u, v]" using assms(2) c(2) by (auto simp: movable_def)
    with c T_Elem Cons assms(1,3,4) show ?thesis by (auto simp: user_at_def body_ok_def)
  qed (use T_Elem assms in auto)
next
  case (T_Delay2 x d)
  then have "b' = b" "pc' = continue x \<or> (\<exists>srv. pc' = T_Remove1 x srv)"
    using assms(4) by (auto split: result.splits if_splits)
  with T_Delay2 assms(1,3) show ?thesis by (auto intro: continue_ok)
next
  case (T_Remove1 x srv)
  with assms show ?thesis by (auto split: prod.splits result.splits dest: remove_user_keeps)
next
  case (T_Remove2 x srv)
  with assms show ?thesis by (auto split: prod.splits result.splits dest: remove_user_keeps)
next
  case (T_Insert x srv)
  then have "P (new_instance (room_id (rc_inst x)) srv [client1 x, client2 x])"
    using assms(2,3) by (auto simp: body_ok_def movable_def)
  from rooms_ok_insert [OF assms(1) this] obtain st' where
    "cs_InsertChatInstance (bg_growth env (rc_index x)) (room_id (rc_inst x)) srv [client1 x, client2 x] (bg_store b) =
      (Ret (room_id (rc_inst x)), st')" "rooms_ok P st'"
    "\<forall>hdr. header_cells P hdr (bg_store b) \<longrightarrow> header_cells P hdr st'" by blast
  with T_Insert assms(3,4) show ?thesis by (auto intro: body_ok_keep)
next
  case (T_Ip2 x srv ip)
  then have "bg_store b' = bg_store b" "pc' = continue x"
    using assms(4) by (auto split: result.splits if_splits)
  with T_Ip2 assms(1,3) show ?thesis by (auto intro: continue_ok)
qed (use assms in auto)

section \<open>The process\<close>

definition central_inv :: "central \<Rightarrow> bool" where
  "central_inv c \<longleftrightarrow> rooms_ok (announced (sessions c)) (clientStore c) \<and>
     (\<forall>env pc. job c = Some (env, pc) \<longrightarrow> tick_ok (announced (sessions c)) pc (clientStore c)) \<and>
     (\<forall>i g. sessions c i = Some g \<longrightarrow> session_ok g) \<and> panic_response \<notin> set (answers c)"

text \<open>No handler panics.\<close>

lemma client_api_answers: "fst (client_api ks rq s) \<noteq> panic_response"
  by (cases rq) (auto simp: RegisterClient_def GetClient_def GetClientByUsername_def DeleteClient_def UpdateDelayList_def
      cs_Create_def cs_Read_def cs_ReadByUsername_def cs_Delete_def cs_UpdateDelayList_def panic_response_def error_body_def
      status_defs split: option.split sum.split)

lemma ss_Delete_total: "fst (ss_Delete now ks ip s) \<noteq> Panic"
  by (induction now ks ip s rule: ss_Delete.induct) simp_all

lemma ss_Patch_total: "fst (ss_Patch now ks ip s) \<noteq> Panic"
  by (induction now ks ip s rule: ss_Patch.induct) simp_all

lemma service_api_answers: "fst (service_api rq s) \<noteq> panic_response"
proof (cases rq)
  case (DeleteServices now ks ip)
  with ss_Delete_total [of now ks ip s] show ?thesis
    by (auto simp: DeleteService_def panic_response_def error_body_def status_defs split: result.split prod.split)
next
  case (PatchServices t1 t2 ord ip)
  with ss_Patch_total [of t2 "ord (snd (ss_Create t1 ip s))" ip "snd (ss_Create t1 ip s)"] show ?thesis
    by (auto simp: PatchService_def panic_response_def error_body_def status_defs Let_def split: result.split prod.split)
qed (simp_all add: RegisterService_def GetServices_def ss_Create_def ss_Read_def panic_response_def status_defs)

text \<open>Each kind of event keeps the invariant.\<close>

lemma central_inv_main: "central_inv central_main"
  by (simp add: central_inv_def central_main_def rooms_ok_def store_inv_new rooms_new)

lemma client_request_inv:
  assumes "central_inv c" "enabled (ClientRequest ks rq) c"
  shows "central_inv (central_do (ClientRequest ks rq) c)"
proof -
  obtain r st where rq: "client_api ks rq (clientStore c) = (r, st)" by fastforce
  have "store_inv st" "rooms st = rooms (clientStore c)" "store_arrays st = store_arrays (clientStore c)"
    using client_api_keeps [of "clientStore c" ks rq] client_api_arrays [of ks rq "clientStore c"] assms rq
    by (simp_all add: central_inv_def rooms_ok_def)
  moreover have "r \<noteq> panic_response" using client_api_answers [of ks rq "clientStore c"] rq by simp
  ultimately show ?thesis
    using assms(1) rq header_cells_same [of st "clientStore c"]
    by (auto simp: central_inv_def rooms_ok_def intro: tick_ok_stable)
qed

lemma service_request_inv: "central_inv c \<Longrightarrow> central_inv (central_do (ServiceRequest rq) c)"
  using service_api_answers [of rq "serviceStore c"]
  by (cases "service_api rq (serviceStore c)") (auto simp: central_inv_def)

lemma rooms_ok_mono: "rooms_ok P st \<Longrightarrow> (\<And>c. P c \<Longrightarrow> Q c) \<Longrightarrow> rooms_ok Q st"
  by (simp add: rooms_ok_def)

lemma tick_ok_mono: "tick_ok P pc st \<Longrightarrow> (\<And>c. P c \<Longrightarrow> Q c) \<Longrightarrow> tick_ok Q pc st"
  by (rule tick_ok_stable [of P pc st Q]) (auto simp: header_cells_def)

lemma connect_inv:
  assumes "central_inv c" "enabled (Connect i env) c"
  shows "central_inv (central_do (Connect i env) c)"
proof -
  have mono: "announced (sessions c) r \<Longrightarrow> announced ((sessions c)(i \<mapsto> new_goroutine env)) r" for r
    by (rule announced_update) (use assms(2) in simp_all)
  then show ?thesis
    using assms(1) session_ok_new rooms_ok_mono [OF _ mono] tick_ok_mono [OF _ mono]
    by (auto simp: central_inv_def)
qed

lemma session_move_inv:
  assumes "central_inv c" "enabled (SessionMove i) c"
  shows "central_inv (central_do (SessionMove i) c)"
proof -
  let ?st = "clientStore c"
  obtain g where g: "sessions c i = Some g" "\<not> ended (g_pc g)" using assms(2) by auto
  obtain g' st' where m: "move_goroutine g ?st = (g', st')" by fastforce
  let ?ss = "(sessions c)(i \<mapsto> g')"
  have ok: "session_ok g" "rooms_ok (announced (sessions c)) ?st" using assms(1) g(1) by (auto simp: central_inv_def)
  have mono: "announced (sessions c) r \<Longrightarrow> announced ?ss r" for r
    by (rule announced_update) (use g in simp_all)
  have rooms: "rooms_ok (announced ?ss) ?st" using ok(2) mono by (rule rooms_ok_mono)
  have next_ok: "rooms_ok (announced ?ss) st' \<and>
      (\<forall>hdr. header_cells (announced ?ss) hdr ?st \<longrightarrow> header_cells (announced ?ss) hdr st')"
  proof (cases "\<exists>u v srv room. g_pc g = At_Insert u v srv room")
    case True
    then obtain u v srv room where pc: "g_pc g = At_Insert u v srv room" by blast
    note ins = inserted_announced [OF ok(1) pc m]
    from rooms_ok_insert [OF rooms ins(1), of "env_growth (g_env g)"] show ?thesis
      unfolding ins(2) by (elim exE conjE) (simp only: snd_conv simp_thms)
  next
    case False
    then have "st' = ?st"
      using session_move_store [of "g_env g" "g_pc g" "session_of g ?st" "g_pc g'" "session_of g' st'"]
        move_goroutine_simps [OF m] by auto
    with rooms show ?thesis by simp
  qed
  have job_ok: "tick_ok (announced ?ss) pc st'" if "job c = Some (env, pc)" for env pc
  proof (rule tick_ok_stable)
    show "tick_ok (announced (sessions c)) pc ?st" using assms(1) that by (simp add: central_inv_def)
    show "header_cells (announced ?ss) hdr st'" if "header_cells (announced (sessions c)) hdr ?st" for hdr
      using header_cells_mono [OF that mono] next_ok by simp
  qed (rule mono)
  have "session_ok g'"
    using session_ok_move [OF ok(1) g(2) _ m] ok(2) by (simp add: rooms_ok_def)
  moreover have "central_do (SessionMove i) c = c\<lparr>clientStore := st', sessions := ?ss\<rparr>"
    using g(1) m by simp
  ultimately show ?thesis
    using assms(1) next_ok job_ok unfolding central_inv_def by simp
qed

lemma move_job_inv:
  assumes "central_inv c" "tick_ok (announced (sessions c)) pc (clientStore c)"
  shows "central_inv (move_job env pc c)"
proof -
  let ?b = "\<lparr>bg_store = clientStore c, redirects = told_clients c\<rparr>"
  obtain pc' b' where m: "tick_move env pc ?b = (pc', b')" by fastforce
  have "rooms_ok (announced (sessions c)) (bg_store b') \<and> tick_ok (announced (sessions c)) pc' (bg_store b')"
    using tick_move_ok [OF _ movable_announced _ m] assms by (simp add: central_inv_def)
  with m assms(1) show ?thesis
    by (auto simp: move_job_def central_inv_def job_at_def split: if_splits)
qed

lemma race_inv: "central_inv c \<Longrightarrow> central_inv (central_do (Race p m q n) c)"
  by (simp add: central_inv_def)

lemma central_do_inv: "central_inv c \<Longrightarrow> enabled ev c \<Longrightarrow> central_inv (central_do ev c)"
proof (cases ev)
  case JobMove
  assume inv: "central_inv c" and "enabled ev c"
  with JobMove obtain env pc where j: "job c = Some (env, pc)" by auto
  with inv have "tick_ok (announced (sessions c)) pc (clientStore c)" by (simp add: central_inv_def)
  with inv j JobMove show ?thesis by (simp add: move_job_inv)
next
  case (Tick env)
  assume "central_inv c"
  with Tick show ?thesis by (simp add: move_job_inv)
qed (simp_all only: client_request_inv service_request_inv connect_inv session_move_inv race_inv)

lemma central_reachable_inv: "central_reachable c \<Longrightarrow> central_inv c"
  by (induction rule: central_reachable.induct) (auto intro: central_inv_main central_do_inv)

section \<open>Runs\<close>

lemma observed_stores:
  "central_reachable c \<Longrightarrow> sessions c i = Some g \<Longrightarrow> st \<in> set (g_seen g) \<Longrightarrow>
    \<exists>c'. central_reachable c' \<and> clientStore c' = st"
proof (induction arbitrary: i g st rule: central_reachable.induct)
  case (event c ev)
  show ?case
  proof (cases ev)
    case (SessionMove j)
    then obtain h where h: "sessions c j = Some h" using event.hyps(3) by auto
    obtain h' st' where m: "move_goroutine h (clientStore c) = (h', st')" by fastforce
    from event.prems(1) SessionMove h m have "sessions c i = Some g \<or> g = h'" by (auto split: if_splits)
    then show ?thesis
      using event.prems(2) event.IH [of i g st] event.IH [of j h st] event.hyps(1) h move_goroutine_simps [OF m] by auto
  qed (use event in \<open>auto simp: move_job_def new_goroutine_def split: prod.splits if_splits option.splits\<close>)
qed (simp add: central_main_def)

text \<open>A session that nobody disturbs runs to its end as the handler does.\<close>

lemma undisturbed_session:
  assumes "interf env = (\<lambda>_ s. s)"
  shows "central_reachable c \<Longrightarrow> \<not> crashed c \<Longrightarrow> sessions c i = Some g \<Longrightarrow> g_env g = env \<Longrightarrow>
    (alone env ^^ k) (g_pc g, session_of g (clientStore c)) = (At_End r, s') \<Longrightarrow>
    \<exists>c' g'. central_reachable c' \<and> sessions c' i = Some g' \<and> g_pc g' = At_End r \<and>
      session_of g' (clientStore c') = s'"
proof (induction k arbitrary: c g)
  case (Suc k)
  show ?case
  proof (cases "ended (g_pc g)")
    case True
    with Suc.prems(3,5) Suc.prems(1) show ?thesis
      by (intro exI [of _ c] exI [of _ g]) (simp del: funpow.simps)
  next
    case False
    obtain g1 st1 where m: "move_goroutine g (clientStore c) = (g1, st1)" by fastforce
    let ?c1 = "central_do (SessionMove i) c"
    have c1: "?c1 = c\<lparr>clientStore := st1, sessions := (sessions c)(i \<mapsto> g1)\<rparr>" using Suc.prems(3) m by simp
    have reach: "central_reachable ?c1"
      by (rule central_reachable.event [OF Suc.prems(1,2)]) (use Suc.prems(3) False in simp)
    have id: "interfere env n s = s" for n s using assms by (simp add: interfere_def)
    have "alone env (g_pc g, session_of g (clientStore c)) = (g_pc g1, session_of g1 st1)"
      using False move_goroutine_simps [OF m] Suc.prems(4) id by simp
    then have rest: "(alone env ^^ k) (g_pc g1, session_of g1 (clientStore ?c1)) = (At_End r, s')"
      using Suc.prems(5) c1 moves_unfold [of k env] by simp
    show ?thesis
    proof (cases "crashed ?c1")
      case True
      with Suc.prems(2) c1 have "g_pc g1 = At_End Panic" by (auto simp: crashed_def split: if_splits)
      with rest reach c1 show ?thesis
        by (intro exI [of _ ?c1] exI [of _ g1]) simp
    next
      case False
      have "g_env g1 = env" "sessions ?c1 i = Some g1" using move_goroutine_simps [OF m] Suc.prems(4) c1 by simp_all
      with Suc.IH [OF reach False _ _ rest] show ?thesis by blast
    qed
  qed
qed auto

text \<open>A process with two users, their delays and a match between them.\<close>

definition registrations :: "event list" where
  "registrations =
     [ClientRequest [] (PostClients ''10.0.0.1'' (Some ''alice'')),
      ClientRequest [''10.0.0.1''] (PostClients ''10.0.0.2'' (Some ''bob'')),
      ClientRequest [''10.0.0.1'', ''10.0.0.2''] (PutDelays (Inr (''alice'', Some [''10.0.0.3'' \<mapsto> Fin 30]))),
      ClientRequest [''10.0.0.1'', ''10.0.0.2''] (PutDelays (Inr (''bob'', Some [''10.0.0.3'' \<mapsto> Fin 20])))]"

definition registered_users :: central where
  "registered_users = fold central_do registrations central_main"

lemma requests_reachable:
  "central_reachable c \<Longrightarrow> sessions c = Map.empty \<Longrightarrow> job c = None \<Longrightarrow> raced c = None \<Longrightarrow> enabled (ClientRequest ks rq) c \<Longrightarrow>
    central_reachable (central_do (ClientRequest ks rq) c) \<and>
    sessions (central_do (ClientRequest ks rq) c) = Map.empty \<and> job (central_do (ClientRequest ks rq) c) = None \<and>
    raced (central_do (ClientRequest ks rq) c) = None"
proof (intro conjI)
  assume c: "central_reachable c" "sessions c = Map.empty" "job c = None" "raced c = None" "enabled (ClientRequest ks rq) c"
  then show "central_reachable (central_do (ClientRequest ks rq) c)"
    by (intro central_reachable.event) (simp_all add: crashed_def)
qed (simp_all split: prod.split)

lemma registered_users_state:
  "central_reachable registered_users \<and> sessions registered_users = Map.empty \<and> job registered_users = None \<and>
    raced registered_users = None"
  "clientStore registered_users = example_store"
proof -
  let ?c1 = "central_do (ClientRequest [] (PostClients ''10.0.0.1'' (Some ''alice''))) central_main"
  let ?c2 = "central_do (ClientRequest [''10.0.0.1''] (PostClients ''10.0.0.2'' (Some ''bob''))) ?c1"
  let ?c3 = "central_do (ClientRequest [''10.0.0.1'', ''10.0.0.2'']
    (PutDelays (Inr (''alice'', Some [''10.0.0.3'' \<mapsto> Fin 30])))) ?c2"
  let ?c4 = "central_do (ClientRequest [''10.0.0.1'', ''10.0.0.2'']
    (PutDelays (Inr (''bob'', Some [''10.0.0.3'' \<mapsto> Fin 20])))) ?c3"
  let ?ok = "\<lambda>c. central_reachable c \<and> sessions c = Map.empty \<and> job c = None \<and> raced c = None"
  have main: "?ok central_main" "clientStore central_main = new_client_store" "data new_client_store = Map.empty"
    "delay_lists new_client_store = Map.empty"
    by (intro conjI central_reachable.main)
      (simp_all add: central_main_def new_client_store_def split: prod.split)
  have s1: "clientStore ?c1 = new_client_store\<lparr>data := [''10.0.0.1'' \<mapsto> ''alice'']\<rparr>"
    by (simp add: main RegisterClient_def cs_Create_def split: prod.split)
  have s2: "clientStore ?c2 = new_client_store\<lparr>data := [''10.0.0.1'' \<mapsto> ''alice'', ''10.0.0.2'' \<mapsto> ''bob'']\<rparr>"
    using s1 by (simp add: RegisterClient_def cs_Create_def split: prod.split)
  have s3: "clientStore ?c3 = new_client_store\<lparr>data := [''10.0.0.1'' \<mapsto> ''alice'', ''10.0.0.2'' \<mapsto> ''bob''],
      delay_lists := [''alice'' \<mapsto> [''10.0.0.3'' \<mapsto> Fin 30]]\<rparr>"
    using s2 by (simp add: UpdateDelayList_def bind_delays_def cs_UpdateDelayList_def main split: prod.split)
  have s4: "clientStore ?c4 = example_store"
    using s3 by (simp add: UpdateDelayList_def bind_delays_def cs_UpdateDelayList_def example_store_def split: prod.split)
  have c4: "registered_users = ?c4" by (simp add: registered_users_def registrations_def)
  have "?ok ?c1" by (intro requests_reachable) (use main in simp_all)
  then have "?ok ?c2" using s1
    by (intro requests_reachable) (simp_all only: enabled.simps, simp add: map_order_def)
  then have "?ok ?c3" using s2
    by (intro requests_reachable) (simp_all only: enabled.simps, auto simp: map_order_def)
  then have "?ok ?c4" using s3
    by (intro requests_reachable) (simp_all only: enabled.simps, auto simp: map_order_def)
  then show "?ok registered_users" unfolding c4 .
  show "clientStore registered_users = example_store" unfolding c4 by (rule s4)
qed

text \<open>A connection that nobody disturbs, from the fresh session on.\<close>

lemma undisturbed_connection:
  assumes "interf env = (\<lambda>_ s. s)" "central_reachable c" "sessions c = Map.empty" "job c = None" "raced c = None"
    and "handleConnection env (fresh_session (clientStore c)) = (r, s')"
  shows "\<exists>c' g. central_reachable c' \<and> sessions c' 0 = Some g \<and> g_pc g = At_End r \<and> session_of g (clientStore c') = s'"
proof -
  let ?c = "central_do (Connect 0 env) c"
  have "central_reachable ?c" by (rule central_reachable.event [OF assms(2)]) (use assms(3-5) in \<open>simp_all add: crashed_def\<close>)
  moreover have "\<not> crashed ?c" using assms(3-5) by (auto simp: crashed_def new_goroutine_def)
  moreover have "sessions ?c 0 = Some (new_goroutine env)" by simp
  moreover have "g_env (new_goroutine env) = env" "g_pc (new_goroutine env) = At_Read"
    "session_of (new_goroutine env) (clientStore ?c) = fresh_session (clientStore c)"
    by (simp_all add: new_goroutine_def session_of_def fresh_session_def)
  moreover have "(alone env ^^ 5) (At_Read, fresh_session (clientStore c)) = (At_End r, s')"
    using assms(6) by (simp add: handler_of_moves)
  ultimately show ?thesis using undisturbed_session [OF assms(1), of ?c 0 "new_goroutine env" 5 r s'] by simp
qed

lemma matched_users:
  "\<exists>c g room srv. central_reachable c \<and> sessions c 0 = Some g \<and> g_pc g = At_End (Ret Returned) \<and>
    new_instance room srv [''alice'', ''bob''] \<in> set (rooms (clientStore c))"
proof -
  let ?env = "example_env (ACCEPT_REQ @ nl)"
  obtain srv room st' sent_c sent_p where h: "handleConnection ?env (fresh_session example_store) = (Ret Returned,
      \<lparr>store = st', sent_conn = sent_c, sent_peer = sent_p\<rparr>)"
    and st': "rooms st' = rooms example_store @ [new_instance room srv [''alice'', ''bob'']]"
    using answered_session [OF example_env_simps(1) example_store_inv _ example_env_simps(3) _
        example_env_simps(4) _ example_env_simps(5,6,7) example_delay_lists(1-5) _ example_env_simps(8), of "ACCEPT_REQ @ nl"]
    by (simp add: example_env_simps(2) example_store_order) blast
  obtain c g where c: "central_reachable c" "sessions c 0 = Some g" "g_pc g = At_End (Ret Returned)"
    "session_of g (clientStore c) = \<lparr>store = st', sent_conn = sent_c, sent_peer = sent_p\<rparr>"
    using undisturbed_connection [OF example_env_simps(1), of registered_users "ACCEPT_REQ @ nl" "Ret Returned"]
      registered_users_state h by metis
  from c(4) have "clientStore c = st'" by (simp add: session_of_def)
  with c st' have "central_reachable c" "sessions c 0 = Some g" "g_pc g = At_End (Ret Returned)"
    "rooms (clientStore c) = rooms example_store @ [new_instance room srv [''alice'', ''bob'']]" by simp_all
  then show ?thesis by (intro exI [of _ c] exI [of _ g] exI [of _ room] exI [of _ srv]) simp
qed

section \<open>Races\<close>

text \<open>The races that the process can come to, of those that the mutexes allow: no request touches the
  rooms, and a session touches them only to insert.\<close>

definition room_race :: "store_call \<Rightarrow> store_call \<Rightarrow> bool" where
  "room_race m n \<longleftrightarrow> {m, n} \<subseteq> {Client M_InsertChatInstance, Client M_RemoveChatInstancesForUser,
     Client M_GetAllChatInstances, RangeRooms} \<and> Client M_InsertChatInstance \<in> {m, n}"

definition heartbeat_race :: "store_call \<Rightarrow> store_call \<Rightarrow> bool" where
  "heartbeat_race m n \<longleftrightarrow> {m, n} \<subseteq> {Service S_Patch, Service S_Read} \<and> Service S_Patch \<in> {m, n}"

definition inserting :: "central \<Rightarrow> bool" where
  "inserting c \<longleftrightarrow> (\<exists>i g u v srv room. sessions c i = Some g \<and> g_pc g = At_Insert u v srv room)"

lemma handler_pending: "pending_call c RequestHandler m \<Longrightarrow> \<not> uses_rooms m"
  by (cases m) (auto simp: uses_rooms_def writes_rooms_def)

lemma session_pending:
  "pending_call c (SessionOf i) m \<Longrightarrow>
    \<not> uses_heartbeats m \<and> (uses_rooms m \<longrightarrow> m = Client M_InsertChatInstance \<and> inserting c)"
proof -
  assume "pending_call c (SessionOf i) m"
  then obtain g where g: "sessions c i = Some g" "map_option Client (session_call (g_pc g)) = Some m"
    by (auto split: option.splits)
  moreover have "inserting c" if "g_pc g = At_Insert u v srv room" for u v srv room
    using g(1) that unfolding inserting_def by blast
  ultimately show ?thesis
    by (cases "g_pc g") (auto simp: uses_rooms_def writes_rooms_def uses_heartbeats_def)
qed

lemma job_pending:
  "pending_call c Job m \<Longrightarrow> \<not> uses_heartbeats m \<and>
    (uses_rooms m \<longrightarrow> m \<in> {Client M_InsertChatInstance, Client M_RemoveChatInstancesForUser,
       Client M_GetAllChatInstances, RangeRooms})"
  unfolding pending_call.simps
  by (cases "case job c of Some (env, pc) \<Rightarrow> pc | None \<Rightarrow> T_Idle")
    (auto simp: uses_rooms_def writes_rooms_def uses_heartbeats_def)

lemma race_kinds:
  assumes "enabled (Race p m q n) c"
  shows "heartbeat_race m n \<or> room_race m n \<and> inserting c"
proof -
  have e: "p \<noteq> q \<or> p = RequestHandler" "pending_call c p m" "pending_call c q n" "can_race m n"
    using assms by simp_all
  consider "m = Service S_Patch \<and> uses_heartbeats n \<or> uses_heartbeats m \<and> n = Service S_Patch"
    | (rooms) "uses_rooms m" "uses_rooms n"
    using e(4) by (auto simp: can_race_cases uses_rooms_def)
  then show ?thesis
  proof cases
    case rooms
    with e show ?thesis
      using handler_pending [of c m] handler_pending [of c n] session_pending [of c _ m] session_pending [of c _ n]
        job_pending [of c m] job_pending [of c n]
      by (cases p; cases q) (auto simp: room_race_def)
  qed (auto simp: heartbeat_race_def uses_heartbeats_def)
qed

lemma raced_kinds:
  "central_reachable c \<Longrightarrow> raced c = Some (m, n) \<Longrightarrow> heartbeat_race m n \<or> room_race m n \<and> inserting c"
proof (induction rule: central_reachable.induct)
  case (event c ev)
  then have "raced c = None" unfolding crashed_def by blast
  with event.prems obtain p q where ev: "ev = Race p m q n"
    by (cases ev) (auto simp: move_job_def split: prod.splits option.splits)
  with event.hyps(3) race_kinds have "heartbeat_race m n \<or> room_race m n \<and> inserting c" by blast
  with ev show ?case by (simp add: inserting_def)
qed (simp add: central_main_def)

section \<open>Properties\<close>

text \<open>C6. The sessions of the running process are the handler: whatever requests, other sessions and
  ticks come in between, a session makes at most five accesses to the store, each finds a
  store that the process went through, and a session that has ended has written what
  \<^verbatim>\<open>handleConnection\<close> writes when the others interfere in just this way, a word of the protocol.\<close>

theorem sessions_are_handlers:
  assumes "central_reachable c" "sessions c i = Some g"
  shows "length (g_seen g) \<le> 5 \<and> (\<forall>st\<in>set (g_seen g). \<exists>c'. central_reachable c' \<and> clientStore c' = st) \<and>
    (\<forall>r. g_pc g = At_End r \<longrightarrow>
      (\<exists>st. handleConnection (observing (g_env g) (g_seen g)) blank = (r, session_of g st)) \<and>
      session_trace (g_conn g))"
proof -
  have ok: "session_ok g" using central_reachable_inv [OF assms(1)] assms(2) by (auto simp: central_inv_def)
  then obtain st where run: "live_run (g_env g) (g_seen g) (At_Read, blank)"
    "run_session (g_env g) (g_seen g) (At_Read, blank) = (g_pc g, session_of g st)"
    by (auto simp: session_ok_def)
  have "(\<exists>st. handleConnection (observing (g_env g) (g_seen g)) blank = (r, session_of g st)) \<and> session_trace (g_conn g)"
    if "g_pc g = At_End r" for r
  proof -
    have "handleConnection (observing (g_env g) (g_seen g)) blank = (r, session_of g st)"
      using live_run_handler [OF run(1)] run(2) that by simp
    moreover from this have "session_trace (g_conn g)"
      using handleConnection_trace [of "observing (g_env g) (g_seen g)" new_client_store]
      by (simp add: blank_def)
    ultimately show ?thesis by blast
  qed
  with live_run_length [OF run(1)] observed_stores [OF assms] show ?thesis by blast
qed

theorem sessions_are_handlers_witness:
  "\<exists>c g. central_reachable c \<and> sessions c 0 = Some g \<and> g_pc g = At_End (Ret Returned) \<and>
    (\<exists>st. handleConnection (observing (g_env g) (g_seen g)) blank = (Ret Returned, session_of g st))"
proof -
  obtain c g where c: "central_reachable c" "sessions c 0 = Some g" "g_pc g = At_End (Ret Returned)"
    using matched_users by blast
  with sessions_are_handlers [OF c(1,2)] show ?thesis by blast
qed

text \<open>C5. Every room of the running process comes from a session that has ended and told both its
  clients the room: its first user was registered under the session's address, its second
  one is whom the session was asked for. The background job, whatever it reads through its
  old header, moves such rooms and makes up none.\<close>

theorem rooms_are_announced:
  assumes "central_reachable c" "room \<in> set (rooms (clientStore c))"
  shows "\<exists>i g u v srv. sessions c i = Some g \<and> g_pc g = At_End (Ret Returned) \<and> users room = [u, v] \<and>
    data (hd (g_seen g)) (remote_ip (remote_addr (g_env g))) = Some u \<and>
    GetRequestedUsername (name_read (g_env g)) = v \<and>
    match_response srv (room_id room) \<in> set (g_conn g) \<and> match_response srv (room_id room) \<in> set (g_peer g)"
proof -
  have "announced (sessions c) room"
    using central_reachable_inv [OF assms(1)] assms(2) by (simp add: central_inv_def rooms_ok_def)
  then show ?thesis unfolding announced_def about_def by blast
qed

theorem rooms_are_announced_witness:
  "\<exists>c i g room srv. central_reachable c \<and> users room = [''alice'', ''bob''] \<and> room \<in> set (rooms (clientStore c)) \<and>
    sessions c i = Some g \<and> match_response srv (room_id room) \<in> set (g_conn g)"
proof -
  obtain c room srv where c: "central_reachable c" "new_instance room srv [''alice'', ''bob''] \<in> set (rooms (clientStore c))"
    using matched_users by blast
  let ?room = "new_instance room srv [''alice'', ''bob'']"
  obtain i g srv' where "sessions c i = Some g" "match_response srv' (room_id ?room) \<in> set (g_conn g)"
    using rooms_are_announced [OF c] by blast
  moreover have "users ?room = [''alice'', ''bob'']" by (simp add: new_instance_def)
  ultimately show ?thesis using c by blast
qed

text \<open>C10. The process stays well-formed, in every state up to and including the one in which two store
  calls race: names are unique, the room list lies in its array, rooms have two users, no handler
  has answered with a recovered panic and the job has not panicked. And there are three ways only in
  which the process can end: a session's random source fails; two heartbeats, or a
  heartbeat and a listing of the services, use the registry at once; or a session inserts its
  room while another session or the job is at the rooms, the read lock keeping neither out.\<close>

theorem central_process_sound:
  assumes "central_reachable c"
  shows "inj_on (data (clientStore c)) (dom (data (clientStore c))) \<and>
    slice_wf (store_arrays (clientStore c)) (chat_instances (clientStore c)) \<and>
    (\<forall>room\<in>set (rooms (clientStore c)). length (users room) = 2) \<and>
    panic_response \<notin> set (answers c) \<and> (\<forall>env. job c \<noteq> Some (env, T_Panic)) \<and>
    (crashed c \<longrightarrow> (\<exists>i g. sessions c i = Some g \<and> env_random (g_env g) = None) \<or>
      (\<exists>m n. raced c = Some (m, n) \<and> (heartbeat_race m n \<or> room_race m n \<and> inserting c)))"
proof -
  have inv: "central_inv c" by (rule central_reachable_inv [OF assms])
  then have job: "job c \<noteq> Some (env, T_Panic)" for env by (auto simp: central_inv_def)
  have "\<exists>i g. sessions c i = Some g \<and> env_random (g_env g) = None"
    if "sessions c i = Some g" "g_pc g = At_End Panic" for i g
    using that inv by (force simp: central_inv_def session_ok_def)
  moreover have "\<exists>m n. raced c = Some (m, n) \<and> (heartbeat_race m n \<or> room_race m n \<and> inserting c)"
    if "raced c \<noteq> None" using that raced_kinds [OF assms] by fast
  ultimately have "crashed c \<longrightarrow> (\<exists>i g. sessions c i = Some g \<and> env_random (g_env g) = None) \<or>
      (\<exists>m n. raced c = Some (m, n) \<and> (heartbeat_race m n \<or> room_race m n \<and> inserting c))"
    using job unfolding crashed_def by blast
  moreover have "length (users room) = 2" if "room \<in> set (rooms (clientStore c))" for room
  proof -
    have "announced (sessions c) room" using inv that by (simp add: central_inv_def rooms_ok_def)
    then show ?thesis using announced_users by fastforce
  qed
  ultimately show ?thesis using inv job by (simp add: central_inv_def rooms_ok_def store_inv_def)
qed

theorem central_process_sound_witness:
  "central_reachable registered_users \<and> inj_on (data example_store) (dom (data example_store)) \<and>
    panic_response \<notin> set (answers registered_users)"
  using central_process_sound [of registered_users] registered_users_state by simp

end
