(* ===== verification/Room_Races.thy ===== *)
theory Room_Races
  imports Client_Store
begin

text \<open>
  Concurrent \<^verbatim>\<open>InsertChatInstance\<close> (\<^verbatim>\<open>Central/internal/client/store.go\<close>). The method holds the
  read lock, which many goroutines may hold at once, so its body
  \<^verbatim>\<open>s.chatInstances = append(s.chatInstances, newInstance)\<close> is taken apart into the load of the
  header, the append and the store of the header, and the calls of several goroutines are
  interleaved step by step.
\<close>

section \<open>Steps and schedules\<close>

datatype insert_pc = Ready | Loaded slice | Appended slice | Stored

definition insert_step :: "nat \<Rightarrow> chat_instance \<Rightarrow> insert_pc \<Rightarrow> client_store \<Rightarrow> insert_pc \<times> client_store" where
  "insert_step extra newInstance pc s = (case pc of
       Ready \<Rightarrow> (Loaded (chat_instances s), s)
     | Loaded hdr \<Rightarrow>
         (case slice_append zero_instance extra (store_arrays s) hdr [newInstance] of
            (sl, h) \<Rightarrow> (Appended sl, s\<lparr>store_arrays := h\<rparr>))
     | Appended sl \<Rightarrow> (Stored, s\<lparr>chat_instances := sl\<rparr>)
     | Stored \<Rightarrow> (Stored, s))"

text \<open>\<open>calls t\<close> is the call of goroutine \<open>t\<close>; a schedule is the list of who takes the next step.\<close>

fun run_inserts :: "(nat \<Rightarrow> nat \<times> chat_instance) \<Rightarrow> nat list \<Rightarrow> (nat \<Rightarrow> insert_pc) \<times> client_store \<Rightarrow>
    (nat \<Rightarrow> insert_pc) \<times> client_store" where
  "run_inserts calls [] st = st"
| "run_inserts calls (t # sched) (pcs, s) =
     (case insert_step (fst (calls t)) (snd (calls t)) (pcs t) s of
        (pc, s') \<Rightarrow> run_inserts calls sched (pcs(t := pc), s'))"

lemma run_inserts_append:
  "run_inserts calls (xs @ ys) st = run_inserts calls ys (run_inserts calls xs st)"
  by (induction calls xs st rule: run_inserts.induct) (simp_all split: prod.split)

text \<open>Three steps in a row are the method of the store.\<close>

lemma insert_alone:
  assumes "pcs t = Ready" "calls t = (e, new_instance r srv us)"
  shows "run_inserts calls [t, t, t] (pcs, s) = (pcs(t := Stored), snd (cs_InsertChatInstance e r srv us s))"
  using assms by (simp add: insert_step_def cs_InsertChatInstance_def new_instance_def split: prod.split)

section \<open>One call after the other\<close>

lemma insert_block:
  assumes "pcs t = Ready" "store_inv s"
  shows "\<exists>s'. run_inserts calls [t, t, t] (pcs, s) = (pcs(t := Stored), s') \<and> store_inv s' \<and>
    rooms s' = rooms s @ [snd (calls t)]"
proof -
  obtain sl h where a: "slice_append zero_instance (fst (calls t)) (store_arrays s) (chat_instances s) [snd (calls t)] = (sl, h)"
    by fastforce
  have wf: "slice_wf (store_arrays s) (chat_instances s)" using assms(2) by (simp add: store_inv_def)
  from slice_append_elems [OF wf a] slice_append_wf [OF wf a] assms show ?thesis
    by (simp add: insert_step_def a rooms_def store_inv_def)
qed

lemma insert_blocks:
  "store_inv s \<Longrightarrow> distinct ts \<Longrightarrow> \<forall>t\<in>set ts. pcs t = Ready \<Longrightarrow>
    \<exists>pcs' s'. run_inserts calls (concat (map (\<lambda>t. [t, t, t]) ts)) (pcs, s) = (pcs', s') \<and> store_inv s' \<and>
      rooms s' = rooms s @ map (\<lambda>t. snd (calls t)) ts"
proof (induction ts arbitrary: pcs s)
  case (Cons t ts)
  from insert_block [of pcs t s calls] Cons.prems obtain s1
    where s1: "run_inserts calls [t, t, t] (pcs, s) = (pcs(t := Stored), s1)" "store_inv s1"
      "rooms s1 = rooms s @ [snd (calls t)]" by auto
  have "\<forall>t'\<in>set ts. (pcs(t := Stored)) t' = Ready" using Cons.prems by auto
  from Cons.IH [OF s1(2) _ this] Cons.prems(2) obtain pcs' s'
    where s': "run_inserts calls (concat (map (\<lambda>t. [t, t, t]) ts)) (pcs(t := Stored), s1) = (pcs', s')" "store_inv s'"
      "rooms s' = rooms s1 @ map (\<lambda>t. snd (calls t)) ts" by (auto simp del: fun_upd_apply)
  have "concat (map (\<lambda>t. [t, t, t]) (t # ts)) = [t, t, t] @ concat (map (\<lambda>t. [t, t, t]) ts)" by simp
  then have "run_inserts calls (concat (map (\<lambda>t. [t, t, t]) (t # ts))) (pcs, s) = (pcs', s')"
    by (simp only: run_inserts_append s1(1) s'(1))
  with s'(2,3) s1(3) show ?case by (intro exI [of _ pcs'] exI [of _ s'] conjI) simp_all
qed simp

section \<open>Any interleaving\<close>

text \<open>A header that lies within its array and reads rooms of \<open>G\<close> only.\<close>

definition header_in :: "chat_instance set \<Rightarrow> chat_instance arrays \<Rightarrow> slice \<Rightarrow> bool" where
  "header_in G h hdr \<longleftrightarrow> slice_wf h hdr \<and> set (slice_elems h hdr) \<subseteq> G"

lemma header_in_own:
  assumes "header_in G h hdr" "x \<in> G" "slice_append z e h hdr [x] = (sl, h')"
  shows "header_in G h' sl"
proof -
  have "slice_wf h hdr" using assms(1) by (simp add: header_in_def)
  from slice_append_elems [OF this assms(3)] slice_append_wf [OF this assms(3)] assms(1,2)
  show ?thesis by (simp add: header_in_def)
qed

lemma set_overwrite: "set (overwrite xs i ys) \<subseteq> set xs \<union> set ys"
  by (auto simp: overwrite_def dest: in_set_takeD in_set_dropD)

lemma set_window_overwrite:
  assumes "p < length a"
  shows "set (take n (drop k (overwrite a p [x]))) \<subseteq> set (take n (drop k a)) \<union> {x}"
proof -
  have "overwrite a p [x] = a[p := x]" using assms by (simp add: overwrite_def upd_conv_take_nth_drop)
  then have "take n (drop k (overwrite a p [x])) = (if p < k then take n (drop k a) else (take n (drop k a))[p - k := x])"
    by (simp add: drop_update_swap take_update_swap)
  then show ?thesis using set_update_subset_insert [of "take n (drop k a)" "p - k" x] by auto
qed

lemma header_in_other:
  assumes "header_in G h hdr" "header_in G h other" "x \<in> G" "slice_append z e h hdr [x] = (sl, h')"
  shows "header_in G h' other"
proof (cases "sl_len hdr + 1 \<le> sl_cap hdr")
  case True
  let ?a = "arr h (sl_arr hdr)" and ?p = "sl_off hdr + sl_len hdr"
  have h': "h' = h\<lparr>arr := (arr h)(sl_arr hdr := overwrite ?a ?p [x])\<rparr>"
    using assms(4) True by (auto simp: slice_append_def)
  have p: "?p < length ?a" using assms(1) True by (simp add: header_in_def slice_wf_def)
  then have "length (overwrite ?a ?p [x]) = length ?a" by (intro length_overwrite) simp
  then have "slice_wf h' other" using assms(2) by (auto simp: h' header_in_def slice_wf_def)
  moreover have "set (slice_elems h' other) \<subseteq> G"
  proof (cases "sl_arr other = sl_arr hdr")
    case True
    then have "set (slice_elems h' other) \<subseteq> set (slice_elems h other) \<union> {x}"
      using set_window_overwrite [OF p, of "sl_len other" "sl_off other" x] by (simp add: h' slice_elems_def)
    with assms(2,3) show ?thesis by (auto simp: header_in_def)
  qed (use assms(2) in \<open>simp add: h' header_in_def slice_elems_def\<close>)
  ultimately show ?thesis by (simp add: header_in_def)
next
  case False
  then show ?thesis
    using assms(2,4) by (auto simp: slice_append_def header_in_def slice_wf_def slice_elems_def)
qed

definition pc_in :: "chat_instance set \<Rightarrow> chat_instance arrays \<Rightarrow> insert_pc \<Rightarrow> bool" where
  "pc_in G h pc \<longleftrightarrow> (case pc of Loaded hdr \<Rightarrow> header_in G h hdr | Appended sl \<Rightarrow> header_in G h sl | _ \<Rightarrow> True)"

definition race_inv :: "chat_instance set \<Rightarrow> (nat \<Rightarrow> insert_pc) \<times> client_store \<Rightarrow> bool" where
  "race_inv G st \<longleftrightarrow> header_in G (store_arrays (snd st)) (chat_instances (snd st)) \<and>
     (\<forall>t. pc_in G (store_arrays (snd st)) (fst st t))"

lemma pc_in_other:
  "pc_in G h pc \<Longrightarrow> header_in G h hdr \<Longrightarrow> x \<in> G \<Longrightarrow> slice_append z e h hdr [x] = (sl, h') \<Longrightarrow> pc_in G h' pc"
  by (auto simp: pc_in_def intro: header_in_other split: insert_pc.splits)

lemma insert_step_inv:
  assumes "race_inv G (pcs, s)" "newInstance \<in> G" "insert_step e newInstance (pcs t) s = (pc, s')"
  shows "race_inv G (pcs(t := pc), s') \<and> data s' = data s"
proof -
  have pcs: "pc_in G (store_arrays s) (pcs t')" for t' using assms(1) by (simp add: race_inv_def)
  show ?thesis
  proof (cases "pcs t")
    case Ready
    then show ?thesis using assms(1,3) by (auto simp: insert_step_def race_inv_def pc_in_def)
  next
    case (Loaded hdr)
    then have hdr: "header_in G (store_arrays s) hdr" using pcs [of t] by (simp add: pc_in_def)
    obtain sl h where a: "slice_append zero_instance e (store_arrays s) hdr [newInstance] = (sl, h)" by fastforce
    note keep = header_in_own [OF hdr assms(2) a] header_in_other [OF hdr _ assms(2) a]
      pc_in_other [OF pcs hdr assms(2) a]
    show ?thesis using assms(1,3) Loaded a keep by (auto simp: insert_step_def race_inv_def pc_in_def [of _ _ "Appended sl"])
  next
    case (Appended sl)
    then show ?thesis using assms(1,3) pcs [of t] by (auto simp: insert_step_def race_inv_def pc_in_def [of _ _ Stored] pc_in_def [of _ _ "Appended sl"])
  next
    case Stored
    then show ?thesis using assms(1,3) by (auto simp: insert_step_def fun_upd_idem)
  qed
qed

lemma run_inserts_inv:
  "race_inv G st \<Longrightarrow> \<forall>t. snd (calls t) \<in> G \<Longrightarrow>
    race_inv G (run_inserts calls sched st) \<and> data (snd (run_inserts calls sched st)) = data (snd st)"
proof (induction calls sched st rule: run_inserts.induct)
  case (2 calls t sched pcs s)
  obtain pc s' where s': "insert_step (fst (calls t)) (snd (calls t)) (pcs t) s = (pc, s')" by fastforce
  from insert_step_inv [OF 2(2) _ s'] 2(1) [OF s' [symmetric]] 2(3) s' show ?case by auto
qed simp


section \<open>Two calls that overlap\<close>

lemma append_keeps_old:
  assumes "slice_wf h c" "slice_append z e h c [x] = (sl, h')"
  shows "slice_wf h' c" "slice_elems h' c = slice_elems h c"
proof -
  show "slice_wf h' c" using assms by (auto simp: slice_append_def slice_wf_def length_overwrite split: if_splits)
  show "slice_elems h' c = slice_elems h c"
    using assms by (auto simp: slice_append_def slice_elems_def slice_wf_def overwrite_def drop_take split: if_splits)
qed

lemma overlapping_inserts:
  assumes "store_inv s" "i \<noteq> j" "pcs i = Ready" "pcs j = Ready"
  shows "\<exists>s'. run_inserts calls [i, j, i, j, i, j] (pcs, s) = (pcs(i := Stored, j := Stored), s') \<and>
    rooms s' = rooms s @ [snd (calls j)]"
proof -
  let ?c = "chat_instances s"
  have wf: "slice_wf (store_arrays s) ?c" using assms(1) by (simp add: store_inv_def)
  obtain sl h where a: "slice_append zero_instance (fst (calls i)) (store_arrays s) ?c [snd (calls i)] = (sl, h)"
    by fastforce
  obtain sl2 h2 where b: "slice_append zero_instance (fst (calls j)) h ?c [snd (calls j)] = (sl2, h2)" by fastforce
  have "run_inserts calls [i, j, i, j, i, j] (pcs, s) =
      (pcs(i := Stored, j := Stored), s\<lparr>store_arrays := h2, chat_instances := sl2\<rparr>)"
    using assms(2-4) a b by (simp add: insert_step_def fun_upd_twist)
  with slice_append_elems [OF append_keeps_old(1) [OF wf a] b] append_keeps_old(2) [OF wf a]
  show ?thesis by (simp add: rooms_def)
qed

section \<open>Properties\<close>

definition race_calls :: "nat \<Rightarrow> nat \<times> chat_instance" where
  "race_calls t = (3, new_instance (if t = 0 then ''r0'' else ''r1'') ''s'' [''a'', ''b''])"

text \<open>C37. Insertions that run one after the other add all their rooms, in order. Two that overlap,
  as the read lock allows, lose one: both load the same header, and the second store
  overwrites the first, whether the append reallocates or writes into the same cell.\<close>

theorem racing_inserts_lose_rooms:
  assumes "store_inv s" "distinct ts" "i \<noteq> j"
  shows "(\<exists>pcs s'. run_inserts calls (concat (map (\<lambda>t. [t, t, t]) ts)) (\<lambda>_. Ready, s) = (pcs, s') \<and>
      rooms s' = rooms s @ map (\<lambda>t. snd (calls t)) ts) \<and>
    (\<exists>pcs s'. run_inserts calls [i, j, i, j, i, j] (\<lambda>_. Ready, s) = (pcs, s') \<and> pcs i = Stored \<and> pcs j = Stored \<and>
      rooms s' = rooms s @ [snd (calls j)])"
proof
  show "\<exists>pcs s'. run_inserts calls (concat (map (\<lambda>t. [t, t, t]) ts)) (\<lambda>_. Ready, s) = (pcs, s') \<and>
      rooms s' = rooms s @ map (\<lambda>t. snd (calls t)) ts"
    using insert_blocks [OF assms(1,2)] by fastforce
  show "\<exists>pcs s'. run_inserts calls [i, j, i, j, i, j] (\<lambda>_. Ready, s) = (pcs, s') \<and> pcs i = Stored \<and> pcs j = Stored \<and>
      rooms s' = rooms s @ [snd (calls j)]"
    using overlapping_inserts [OF assms(1,3), of "\<lambda>_. Ready" calls] assms(3) by fastforce
qed

theorem racing_inserts_lose_rooms_witness:
  "(\<exists>pcs s'. run_inserts race_calls (concat (map (\<lambda>t. [t, t, t]) [0, 1])) (\<lambda>_. Ready, new_client_store) = (pcs, s') \<and>
      rooms s' = rooms new_client_store @ map (\<lambda>t. snd (race_calls t)) [0, 1]) \<and>
    (\<exists>pcs s'. run_inserts race_calls [0, 1, 0, 1, 0, 1] (\<lambda>_. Ready, new_client_store) = (pcs, s') \<and>
      pcs 0 = Stored \<and> pcs 1 = Stored \<and> rooms s' = rooms new_client_store @ [snd (race_calls 1)])"
  by (rule racing_inserts_lose_rooms [OF store_inv_new]) simp_all

text \<open>C15. However the insertions of any number of goroutines are interleaved, the store stays sound:
  its header lies within its array, the registrations are untouched, and every room it reads
  is one that was there or one of those being inserted. Rooms can be lost, not invented.\<close>

theorem races_keep_store_sound:
  assumes "store_inv s" "run_inserts calls sched (\<lambda>_. Ready, s) = (pcs, s')"
  shows "store_inv s' \<and> data s' = data s \<and> set (rooms s') \<subseteq> set (rooms s) \<union> range (\<lambda>t. snd (calls t))"
proof -
  let ?G = "set (rooms s) \<union> range (\<lambda>t. snd (calls t))"
  have "race_inv ?G (\<lambda>_. Ready, s)"
    using assms(1) by (simp add: race_inv_def pc_in_def header_in_def store_inv_def rooms_def)
  from run_inserts_inv [OF this, of calls sched] assms show ?thesis
    by (auto simp: race_inv_def header_in_def store_inv_def rooms_def)
qed

theorem races_keep_store_sound_witness:
  "let s' = snd (run_inserts race_calls [0, 1, 1, 0, 2, 0] (\<lambda>_. Ready, new_client_store)) in
   store_inv s' \<and> data s' = data new_client_store \<and>
   set (rooms s') \<subseteq> set (rooms new_client_store) \<union> range (\<lambda>t. snd (race_calls t))"
  unfolding Let_def by (rule races_keep_store_sound [OF store_inv_new]) (rule prod.collapse [symmetric])

end
