(* ===== verification/Room_Removals.thy ===== *)
theory Room_Removals
  imports Room_Races
begin

text \<open>
  \<^verbatim>\<open>RemoveChatInstancesForUser\<close> among concurrent insertions (\<^verbatim>\<open>Central/internal/client/store.go\<close>).
  Both methods hold the read lock only, so the removal too is taken apart: the header its
  loop ranges over, the cells it reads, and then every load of \<^verbatim>\<open>s.chatInstances\<close>, the slice
  expressions, the append and the store of the result. Alone it is the method of \<open>Client_Store\<close>;
  among insertions it can slice beyond the header and panic.
\<close>

section \<open>Steps and schedules\<close>

datatype remove_pc =
    R_Ready
  | R_Scan slice nat
  | R_Found nat string
  | R_Last nat string
  | R_Front nat string
  | R_Back nat string slice
  | R_Append string slice slice
  | R_Store string slice
  | R_Done "string result"

definition remove_step :: "string \<Rightarrow> remove_pc \<Rightarrow> client_store \<Rightarrow> remove_pc \<times> client_store" where
  "remove_step user pc s = (case pc of
       R_Ready \<Rightarrow> (R_Scan (chat_instances s) 0, s)
     | R_Scan hdr i \<Rightarrow>
         if sl_len hdr \<le> i then (R_Done (Fail (''chat instance with user '' @ user @ '' not found'')), s)
         else (case slice_get (store_arrays s) hdr i of
                 Ret inst \<Rightarrow> (if List.member (users inst) user then R_Found i (room_id inst) else R_Scan hdr (Suc i), s)
               | _ \<Rightarrow> (R_Done Panic, s))
     | R_Found i room \<Rightarrow> (if Suc i = sl_len (chat_instances s) then R_Last i room else R_Front i room, s)
     | R_Last i room \<Rightarrow> (case slice_to (chat_instances s) i of
           Ret sl \<Rightarrow> (R_Store room sl, s) | _ \<Rightarrow> (R_Done Panic, s))
     | R_Front i room \<Rightarrow> (case slice_to (chat_instances s) i of
           Ret front \<Rightarrow> (R_Back i room front, s) | _ \<Rightarrow> (R_Done Panic, s))
     | R_Back i room front \<Rightarrow> (case slice_from (chat_instances s) (Suc i) of
           Ret back \<Rightarrow> (R_Append room front back, s) | _ \<Rightarrow> (R_Done Panic, s))
     | R_Append room front back \<Rightarrow>
         (case slice_append zero_instance 0 (store_arrays s) front (slice_elems (store_arrays s) back) of
            (sl, h) \<Rightarrow> (R_Store room sl, s\<lparr>store_arrays := h\<rparr>))
     | R_Store room sl \<Rightarrow> (R_Done (Ret room), s\<lparr>chat_instances := sl\<rparr>)
     | R_Done r \<Rightarrow> (R_Done r, s))"

text \<open>The calls of the goroutines, where each is, and a schedule of who takes the next step.\<close>

datatype room_call = InsertRoom nat chat_instance | RemoveUser string

datatype room_pc = Inserting insert_pc | Removing remove_pc

fun room_start :: "room_call \<Rightarrow> room_pc" where
  "room_start (InsertRoom extra newInstance) = Inserting Ready"
| "room_start (RemoveUser user) = Removing R_Ready"

fun room_step :: "room_call \<Rightarrow> room_pc \<Rightarrow> client_store \<Rightarrow> room_pc \<times> client_store" where
  "room_step (InsertRoom extra newInstance) (Inserting pc) s = apfst Inserting (insert_step extra newInstance pc s)"
| "room_step (RemoveUser user) (Removing pc) s = apfst Removing (remove_step user pc s)"
| "room_step call pc s = (pc, s)"

fun run_rooms :: "(nat \<Rightarrow> room_call) \<Rightarrow> nat list \<Rightarrow> (nat \<Rightarrow> room_pc) \<times> client_store \<Rightarrow>
    (nat \<Rightarrow> room_pc) \<times> client_store" where
  "run_rooms calls [] st = st"
| "run_rooms calls (t # sched) (pcs, s) =
     (case room_step (calls t) (pcs t) s of (pc, s') \<Rightarrow> run_rooms calls sched (pcs(t := pc), s'))"

lemma run_rooms_append: "run_rooms calls (xs @ ys) st = run_rooms calls ys (run_rooms calls xs st)"
  by (induction calls xs st rule: run_rooms.induct) (simp_all split: prod.split)

section \<open>Alone it is the method\<close>

text \<open>\<open>n\<close> steps of a removal with nobody in between.\<close>

fun solo :: "string \<Rightarrow> nat \<Rightarrow> remove_pc \<times> client_store \<Rightarrow> remove_pc \<times> client_store" where
  "solo user 0 c = c"
| "solo user (Suc n) (pc, s) = solo user n (remove_step user pc s)"

definition reaches :: "string \<Rightarrow> remove_pc \<times> client_store \<Rightarrow> remove_pc \<times> client_store \<Rightarrow> bool" where
  "reaches user c c' \<longleftrightarrow> (\<exists>n. solo user n c = c')"

lemma reaches_refl: "reaches user c c"
  unfolding reaches_def by (rule exI [of _ 0]) simp

lemma reaches_step:
  assumes "remove_step user pc s = c" "reaches user c c'"
  shows "reaches user (pc, s) c'"
proof -
  obtain n where "solo user n c = c'" using assms(2) by (auto simp: reaches_def)
  with assms(1) have "solo user (Suc n) (pc, s) = c'" by simp
  then show ?thesis unfolding reaches_def by blast
qed

lemma run_solo:
  "calls t = RemoveUser user \<Longrightarrow> pcs t = Removing pc \<Longrightarrow> solo user n (pc, s) = (pc', s') \<Longrightarrow>
    run_rooms calls (replicate n t) (pcs, s) = (pcs(t := Removing pc'), s')"
proof (induction n arbitrary: pcs pc s)
  case 0
  then show ?case by (simp add: fun_upd_idem)
next
  case (Suc n)
  obtain pc1 s1 where one: "remove_step user pc s = (pc1, s1)" by fastforce
  with Suc.prems(3) have "solo user n (pc1, s1) = (pc', s')" by simp
  then have "run_rooms calls (replicate n t) (pcs(t := Removing pc1), s1) =
      ((pcs(t := Removing pc1))(t := Removing pc'), s')"
    by (intro Suc.IH [OF Suc.prems(1)]) simp_all
  then have "run_rooms calls (replicate n t) (pcs(t := Removing pc1), s1) = (pcs(t := Removing pc'), s')"
    by (simp only: fun_upd_upd)
  with Suc.prems(1,2) one show ?case by (simp del: fun_upd_apply)
qed

text \<open>Cutting out the room found: the two ways of \<open>Client_Store\<close>.\<close>

lemma last_is_truncate:
  assumes "Suc i = sl_len (chat_instances s)" "then_op (truncate_at i) (ret_op room) s = (r, s')"
  shows "reaches user (R_Found i room, s) (R_Done r, s')"
proof -
  have "solo user 3 (R_Found i room, s) = (R_Done r, s')"
    using assms
    by (auto simp: numeral_3_eq_3 remove_step_def truncate_at_def slice_to_def then_op_def bind_op_def ret_op_def
        split: if_splits)
  then show ?thesis unfolding reaches_def by blast
qed

lemma front_is_delete:
  assumes "Suc i \<noteq> sl_len (chat_instances s)" "then_op (delete_at i) (ret_op room) s = (r, s')"
  shows "reaches user (R_Found i room, s) (R_Done r, s')"
proof -
  have five: "(5::nat) = Suc (Suc (Suc (Suc (Suc 0))))" by simp
  have "solo user 5 (R_Found i room, s) = (R_Done r, s')"
    unfolding five using assms
    by (auto simp: remove_step_def delete_at_def slice_delete_def slice_to_def slice_from_def then_op_def bind_op_def
        ret_op_def split: if_splits prod.splits)
  then show ?thesis unfolding reaches_def by blast
qed

lemma scan_is_loop:
  "i \<le> sl_len hdr \<Longrightarrow> remove_user_loop user hdr [i..<sl_len hdr] s = (r, s') \<Longrightarrow>
    reaches user (R_Scan hdr i, s) (R_Done r, s')"
proof (induction "sl_len hdr - i" arbitrary: i)
  case 0
  then show ?case by (intro reaches_step [of user "R_Scan hdr i"]) (auto simp: remove_step_def reaches_refl)
next
  case (Suc n)
  then have i: "i < sl_len hdr" "[i..<sl_len hdr] = i # [Suc i..<sl_len hdr]" by (simp_all add: upt_conv_Cons)
  let ?inst = "arr (store_arrays s) (sl_arr hdr) ! (sl_off hdr + i)"
  have get: "slice_get (store_arrays s) hdr i = Ret ?inst" using i(1) by (simp add: slice_get_def)
  have "reaches user (if List.member (users ?inst) user then R_Found i (room_id ?inst) else R_Scan hdr (Suc i), s) (R_Done r, s')"
  proof (cases "List.member (users ?inst) user")
    case True
    with Suc.prems(2) i(2) get show ?thesis
      by (cases "Suc i = sl_len (chat_instances s)") (auto intro: last_is_truncate front_is_delete)
  qed (use Suc i get in \<open>auto intro!: Suc.hyps(1)\<close>)
  then show ?case using i(1) get by (intro reaches_step [of user "R_Scan hdr i"]) (simp_all add: remove_step_def)
qed

lemma solo_removal:
  "\<exists>n. solo user n (R_Ready, s) = apfst R_Done (cs_RemoveChatInstancesForUser user s)"
proof -
  obtain r s' where r: "cs_RemoveChatInstancesForUser user s = (r, s')" by fastforce
  then have "reaches user (R_Scan (chat_instances s) 0, s) (R_Done r, s')"
    by (intro scan_is_loop) (simp_all add: cs_RemoveChatInstancesForUser_def)
  then have "reaches user (R_Ready, s) (R_Done r, s')"
    by (intro reaches_step [of user R_Ready]) (simp_all add: remove_step_def)
  with r show ?thesis by (simp add: reaches_def)
qed

section \<open>Among insertions\<close>

lemma slice_append_len:
  "slice_append z e h hdr xs = (sl, h') \<Longrightarrow> sl_len sl = sl_len hdr + length xs \<and> sl_len sl \<le> sl_cap sl"
  by (auto simp: slice_append_def Let_def split: if_splits)

lemma whole_insert:
  assumes "calls t = InsertRoom e x" "pcs t = Inserting Ready" "store_inv s"
  shows "\<exists>s'. run_rooms calls [t, t, t] (pcs, s) = (pcs(t := Inserting Stored), s') \<and> store_inv s' \<and>
    rooms s' = rooms s @ [x]"
proof -
  obtain sl h where a: "slice_append zero_instance e (store_arrays s) (chat_instances s) [x] = (sl, h)" by fastforce
  have wf: "slice_wf (store_arrays s) (chat_instances s)" using assms(3) by (simp add: store_inv_def)
  from slice_append_elems [OF wf a] slice_append_wf [OF wf a] assms show ?thesis
    by (simp add: insert_step_def a rooms_def store_inv_def)
qed

text \<open>A store that has grown by an insertion ends in a longer header.\<close>

lemma insert_ends:
  assumes "calls t = InsertRoom e x" "pcs t = Inserting (Loaded hdr)"
  shows "\<exists>s'. run_rooms calls [t, t] (pcs, s) = (pcs(t := Inserting Stored), s') \<and>
    sl_len (chat_instances s') = Suc (sl_len hdr) \<and> sl_len (chat_instances s') \<le> sl_cap (chat_instances s')"
proof -
  obtain sl h where a: "slice_append zero_instance e (store_arrays s) hdr [x] = (sl, h)" by fastforce
  from slice_append_len [OF a] assms show ?thesis by (simp add: insert_step_def a)
qed

lemma scan_to:
  assumes "store_inv s" "m < length (rooms s)" "List.member (users (rooms s ! m)) user"
    and "\<forall>k<m. \<not> List.member (users (rooms s ! k)) user"
  shows "i \<le> m \<Longrightarrow> solo user (Suc (m - i)) (R_Scan (chat_instances s) i, s) = (R_Found m (room_id (rooms s ! m)), s)"
proof (induction "m - i" arbitrary: i)
  case 0
  with assms show ?case
    by (simp add: remove_step_def own_header_reads [OF assms(1)] sl_len_rooms [OF assms(1)])
next
  case (Suc n)
  then have i: "i < m" "Suc (m - i) = Suc (Suc (m - Suc i))" "n = m - Suc i" by simp_all
  from Suc.hyps(1) [OF i(3)] i assms(2,4) show ?case
    unfolding i(2) by (simp add: remove_step_def own_header_reads [OF assms(1)] sl_len_rooms [OF assms(1)])
qed

text \<open>Goroutine 0 loads the header; two insertions complete; the removal scans to the second of the
  rooms they added; then goroutine 0 stores its shorter header.\<close>

definition bad_schedule :: "nat \<Rightarrow> nat list" where
  "bad_schedule n = [0] @ [1, 1, 1] @ [2, 2, 2] @ replicate (n + 3) 3 @ [0, 0] @ [3, 3, 3]"

lemma bad_schedule_panics:
  assumes "store_inv s" "calls 0 = InsertRoom e0 a" "calls 1 = InsertRoom e1 b" "calls 2 = InsertRoom e2 c"
    and "calls 3 = RemoveUser user" "\<forall>room\<in>set (rooms s) \<union> {b}. \<not> List.member (users room) user"
    and "List.member (users c) user" "pcs0 = room_start \<circ> calls"
  shows "\<exists>pcs s'. run_rooms calls (bad_schedule (length (rooms s))) (pcs0, s) = (pcs, s') \<and>
    pcs 3 = Removing (R_Done Panic)"
proof -
  let ?hdr = "chat_instances s" and ?n = "length (rooms s)"
  let ?p1 = "pcs0(0 := Inserting (Loaded ?hdr))"
  have r1: "run_rooms calls [0] (pcs0, s) = (?p1, s)" using assms(2,8) by (simp add: insert_step_def)
  obtain s1 where r2: "run_rooms calls [1, 1, 1] (?p1, s) = (?p1(1 := Inserting Stored), s1)" "store_inv s1"
      "rooms s1 = rooms s @ [b]"
    using whole_insert [of calls 1 e1 b ?p1 s] assms(1,3,8) by auto
  obtain s2 where r3: "run_rooms calls [2, 2, 2] (?p1(1 := Inserting Stored), s1) =
      (?p1(1 := Inserting Stored, 2 := Inserting Stored), s2)" "store_inv s2" "rooms s2 = rooms s @ [b, c]"
    using whole_insert [of calls 2 e2 c "?p1(1 := Inserting Stored)" s1] assms(4,8) r2(2,3) by auto
  let ?p3 = "?p1(1 := Inserting Stored, 2 := Inserting Stored)" and ?room = "room_id c"
  have "solo user (Suc (Suc ?n - 0)) (R_Scan (chat_instances s2) 0, s2) =
      (R_Found (Suc ?n) (room_id (rooms s2 ! Suc ?n)), s2)"
    by (rule scan_to [OF r3(2)])
      (use assms(6,7) in \<open>auto simp: r3(3) nth_append less_Suc_eq split: if_splits\<close>)
  then have "solo user (?n + 3) (R_Ready, s2) = (R_Found (Suc ?n) ?room, s2)"
    by (simp add: remove_step_def r3(3) nth_append numeral_3_eq_3)
  then have r4: "run_rooms calls (replicate (?n + 3) 3) (?p3, s2) = (?p3(3 := Removing (R_Found (Suc ?n) ?room)), s2)"
    using assms(5,8) by (intro run_solo [where t = 3 and pc = R_Ready]) simp_all
  let ?p4 = "?p3(3 := Removing (R_Found (Suc ?n) ?room))"
  obtain s3 where r5: "run_rooms calls [0, 0] (?p4, s2) = (?p4(0 := Inserting Stored), s3)"
      "sl_len (chat_instances s3) = Suc ?n" "sl_len (chat_instances s3) \<le> sl_cap (chat_instances s3)"
    using insert_ends [of calls 0 e0 a ?p4 ?hdr s2] assms(1,2) by (auto simp: sl_len_rooms)
  have "solo user 3 (R_Found (Suc ?n) ?room, s3) = (R_Done Panic, s3)"
    using r5(2,3) by (simp add: numeral_3_eq_3 remove_step_def slice_to_def slice_from_def)
  then have "run_rooms calls (replicate 3 3) (?p4(0 := Inserting Stored), s3) =
      (?p4(0 := Inserting Stored, 3 := Removing (R_Done Panic)), s3)"
    using assms(5) by (intro run_solo [where t = 3]) simp_all
  then have "run_rooms calls [3, 3, 3] (?p4(0 := Inserting Stored), s3) =
      (?p4(0 := Inserting Stored, 3 := Removing (R_Done Panic)), s3)"
    by (simp add: numeral_3_eq_3 del: fun_upd_apply run_rooms.simps)
  then show ?thesis
    unfolding bad_schedule_def run_rooms_append r1 r2(1) r3(1) r4 r5(1) by (intro exI conjI) (assumption, simp)
qed

section \<open>Properties\<close>

text \<open>C34. A removal that no other call overlaps is the method of the store and never panics on a sound
  one. Among insertions it can panic, which ends the process when the background job makes the
  call: an insertion that began before it stores its header, and with it a shorter list, after
  the removal has found its room and before it slices behind it.\<close>

theorem removal_among_inserts:
  assumes "store_inv s" "calls 0 = InsertRoom e0 a" "calls 1 = InsertRoom e1 b" "calls 2 = InsertRoom e2 c"
    and "calls 3 = RemoveUser user" "\<forall>room\<in>set (rooms s) \<union> {b}. \<not> List.member (users room) user"
    and "List.member (users c) user"
  shows "(\<exists>n r s'. run_rooms calls (replicate n 3) (room_start \<circ> calls, s) =
      ((room_start \<circ> calls)(3 := Removing (R_Done r)), s') \<and>
      cs_RemoveChatInstancesForUser user s = (r, s') \<and> r \<noteq> Panic \<and> store_inv s') \<and>
    (\<exists>sched pcs s'. run_rooms calls sched (room_start \<circ> calls, s) = (pcs, s') \<and> pcs 3 = Removing (R_Done Panic))"
proof
  obtain r s' where r: "cs_RemoveChatInstancesForUser user s = (r, s')" "r \<noteq> Panic" "store_inv s'"
    using cs_RemoveChatInstancesForUser_spec [OF assms(1), of user] by (auto split: option.splits)
  obtain n where "solo user n (R_Ready, s) = (R_Done r, s')" using solo_removal [of user s] r(1) by auto
  then have "run_rooms calls (replicate n 3) (room_start \<circ> calls, s) = ((room_start \<circ> calls)(3 := Removing (R_Done r)), s')"
    using assms(5) by (intro run_solo [where t = 3]) simp_all
  with r show "\<exists>n r s'. run_rooms calls (replicate n 3) (room_start \<circ> calls, s) =
      ((room_start \<circ> calls)(3 := Removing (R_Done r)), s') \<and>
      cs_RemoveChatInstancesForUser user s = (r, s') \<and> r \<noteq> Panic \<and> store_inv s'" by blast
  show "\<exists>sched pcs s'. run_rooms calls sched (room_start \<circ> calls, s) = (pcs, s') \<and> pcs 3 = Removing (R_Done Panic)"
    using bad_schedule_panics [OF assms refl] by blast
qed

definition race_of_four :: "nat \<Rightarrow> room_call" where
  "race_of_four t = (if t = 3 then RemoveUser ''cy''
     else InsertRoom 0 (new_instance ''r'' ''10.0.0.3'' (if t = 2 then [''cy'', ''di''] else [''al'', ''bo''])))"

theorem removal_among_inserts_witness:
  "\<exists>sched pcs s'. run_rooms race_of_four sched (room_start \<circ> race_of_four, new_client_store) = (pcs, s') \<and>
    pcs 3 = Removing (R_Done Panic)"
  by (rule removal_among_inserts [OF store_inv_new, THEN conjunct2])
    (simp add: race_of_four_def new_instance_def rooms_new)+

end
