(* ===== verification/Hash.thy ===== *)
theory Hash
  imports Go_Base
begin

text \<open>
  The hash functions of the Go library that \<^verbatim>\<open>TLS/tls/crypto-utils.go\<close> uses, \<^verbatim>\<open>crypto/sha256\<close>
  (FIPS 180-4) and \<^verbatim>\<open>crypto/hmac\<close> (FIPS 198-1), and the repository's own \<^verbatim>\<open>prf\<close> and
  \<^verbatim>\<open>generateMasterSecret\<close> on top of them.

  The locale \<open>fixed_hash\<close> states what the key derivation needs of a keyed hash, a fixed
  positive length; HMAC with SHA-256 interprets it.
\<close>

unbundle bit_operations_syntax

type_synonym byte = "8 word"

section \<open>SHA-256\<close>

text \<open>The round constants, in decimal.\<close>

definition sha_K :: "32 word list" where
  "sha_K = [1116352408, 1899447441, 3049323471, 3921009573, 961987163, 1508970993,
     2453635748, 2870763221, 3624381080, 310598401, 607225278, 1426881987,
     1925078388, 2162078206, 2614888103, 3248222580, 3835390401, 4022224774,
     264347078, 604807628, 770255983, 1249150122, 1555081692, 1996064986,
     2554220882, 2821834349, 2952996808, 3210313671, 3336571891, 3584528711,
     113926993, 338241895, 666307205, 773529912, 1294757372, 1396182291,
     1695183700, 1986661051, 2177026350, 2456956037, 2730485921, 2820302411,
     3259730800, 3345764771, 3516065817, 3600352804, 4094571909, 275423344,
     430227734, 506948616, 659060556, 883997877, 958139571, 1322822218,
     1537002063, 1747873779, 1955562222, 2024104815, 2227730452, 2361852424,
     2428436474, 2756734187, 3204031479, 3329325298]"

definition sha_H0 :: "32 word list" where
  "sha_H0 = [0x6a09e667, 0xbb67ae85, 0x3c6ef372, 0xa54ff53a, 0x510e527f, 0x9b05688c,
     0x1f83d9ab, 0x5be0cd19]"

definition rotr :: "nat \<Rightarrow> 32 word \<Rightarrow> 32 word" where
  "rotr n x = drop_bit n x OR push_bit (32 - n) x"

definition sha_ch :: "32 word \<Rightarrow> 32 word \<Rightarrow> 32 word \<Rightarrow> 32 word" where
  "sha_ch x y z = (x AND y) XOR (NOT x AND z)"

definition sha_maj :: "32 word \<Rightarrow> 32 word \<Rightarrow> 32 word \<Rightarrow> 32 word" where
  "sha_maj x y z = (x AND y) XOR (x AND z) XOR (y AND z)"

definition sha_S0 :: "32 word \<Rightarrow> 32 word" where
  "sha_S0 x = rotr 2 x XOR rotr 13 x XOR rotr 22 x"

definition sha_S1 :: "32 word \<Rightarrow> 32 word" where
  "sha_S1 x = rotr 6 x XOR rotr 11 x XOR rotr 25 x"

definition sha_s0 :: "32 word \<Rightarrow> 32 word" where
  "sha_s0 x = rotr 7 x XOR rotr 18 x XOR drop_bit 3 x"

definition sha_s1 :: "32 word \<Rightarrow> 32 word" where
  "sha_s1 x = rotr 17 x XOR rotr 19 x XOR drop_bit 10 x"

text \<open>Big-endian conversions.\<close>

fun be_bytes :: "nat \<Rightarrow> nat \<Rightarrow> byte list" where
  "be_bytes 0 n = []"
| "be_bytes (Suc k) n = be_bytes k (n div 256) @ [of_nat (n mod 256)]"

definition be_nat :: "byte list \<Rightarrow> nat" where
  "be_nat bs = foldl (\<lambda>n b. n * 256 + unat b) 0 bs"

definition be_word :: "byte list \<Rightarrow> 32 word" where
  "be_word bs = foldl (\<lambda>w b. push_bit 8 w OR ucast b) 0 bs"

definition word_bytes :: "32 word \<Rightarrow> byte list" where
  "word_bytes w = [ucast (drop_bit 24 w), ucast (drop_bit 16 w), ucast (drop_bit 8 w), ucast w]"

text \<open>\<open>chunks n xs\<close> cuts a list into pieces of length \<open>n\<close>, the last one possibly shorter.\<close>

function chunks :: "nat \<Rightarrow> 'a list \<Rightarrow> 'a list list" where
  "chunks n xs = (if xs = [] \<or> n = 0 then [] else take n xs # chunks n (drop n xs))"
  by pat_completeness auto
termination
  by (relation "measure (\<lambda>(n, xs). length xs)") auto

declare chunks.simps [simp del]

definition sha_words :: "byte list \<Rightarrow> 32 word list" where
  "sha_words bs = map be_word (chunks 4 bs)"

definition sha_pad :: "byte list \<Rightarrow> byte list" where
  "sha_pad m = m @ [0x80] @ replicate ((119 - length m mod 64) mod 64) 0 @ be_bytes 8 (8 * length m)"

text \<open>The message schedule, kept in reverse: the newest word first.\<close>

fun sha_schedule :: "nat \<Rightarrow> 32 word list \<Rightarrow> 32 word list" where
  "sha_schedule 0 ws = rev ws"
| "sha_schedule (Suc k) ws =
     sha_schedule k ((sha_s1 (ws ! 1) + ws ! 6 + sha_s0 (ws ! 14) + ws ! 15) # ws)"

text \<open>One round on the eight working variables.\<close>

fun sha_round :: "32 word \<times> 32 word \<Rightarrow> 32 word list \<Rightarrow> 32 word list" where
  "sha_round (k, w) [a, b, c, d, e, f, g, h] =
     (let t1 = h + sha_S1 e + sha_ch e f g + k + w;
          t2 = sha_S0 a + sha_maj a b c in
      [t1 + t2, a, b, c, d + t1, e, f, g])"
| "sha_round kw vs = vs"

definition sha_block :: "byte list \<Rightarrow> 32 word list \<Rightarrow> 32 word list" where
  "sha_block block hs =
     map2 (+) hs (fold sha_round (zip sha_K (sha_schedule 48 (rev (sha_words block)))) hs)"

definition sha256 :: "byte list \<Rightarrow> byte list" where
  "sha256 m = concat (map word_bytes (fold sha_block (chunks 64 (sha_pad m)) sha_H0))"

section \<open>HMAC\<close>

definition hmac_key :: "byte list \<Rightarrow> byte list" where
  "hmac_key key = (let k = (if length key > 64 then sha256 key else key) in
     k @ replicate (64 - length k) 0)"

definition hmac_sha256 :: "byte list \<Rightarrow> byte list \<Rightarrow> byte list" where
  "hmac_sha256 key m =
     (let k = hmac_key key in
      sha256 (map (\<lambda>b. b XOR 0x5c) k @ sha256 (map (\<lambda>b. b XOR 0x36) k @ m)))"

section \<open>Lengths\<close>

lemma length_be_bytes [simp]: "length (be_bytes k n) = k"
  by (induction k arbitrary: n) simp_all

lemma length_sha_round [simp]: "length (sha_round kw vs) = length vs"
  by (induction kw vs rule: sha_round.induct) (simp_all add: Let_def)

lemma length_sha_rounds [simp]: "length (fold sha_round kws vs) = length vs"
  by (induction kws arbitrary: vs) simp_all

lemma length_sha_blocks [simp]: "length (fold sha_block bs hs) = length hs"
  by (induction bs arbitrary: hs) (simp_all add: sha_block_def)

lemma length_concat_const: "\<forall>x\<in>set xs. length (f x) = n \<Longrightarrow> length (concat (map f xs)) = n * length xs"
  by (induction xs) auto

lemma length_sha256 [simp]: "length (sha256 m) = 32"
  by (simp add: sha256_def length_concat_const [where n = 4] word_bytes_def sha_H0_def)

lemma length_hmac [simp]: "length (hmac_sha256 key m) = 32"
  by (simp add: hmac_sha256_def Let_def)


section \<open>The key derivation of the repository\<close>

text \<open>
  \<^verbatim>\<open>prf\<close>: the loop runs while the output is too short; it ends because a MAC is never empty.
\<close>

function prf_loop :: "byte list \<Rightarrow> byte list \<Rightarrow> byte list \<Rightarrow> byte list \<Rightarrow> nat \<Rightarrow> byte list" where
  "prf_loop secret seed A out outputLength =
     (if length out < outputLength
      then (let A' = hmac_sha256 secret A in
            prf_loop secret seed A' (out @ hmac_sha256 secret (A' @ seed)) outputLength)
      else out)"
  by pat_completeness auto
termination
  by (relation "measure (\<lambda>(secret, seed, A, out, n). n - length out)") auto

declare prf_loop.simps [simp del]

definition tls_prf :: "byte list \<Rightarrow> byte list \<Rightarrow> nat \<Rightarrow> byte list" where
  "tls_prf secret seed outputLength = take outputLength (prf_loop secret seed seed [] outputLength)"

definition ascii :: "string \<Rightarrow> byte list" where
  "ascii s = map (\<lambda>c. of_nat (of_char c)) s"

definition generateMasterSecret :: "byte list \<Rightarrow> byte list \<Rightarrow> byte list \<Rightarrow> byte list" where
  "generateMasterSecret clientRandom serverRandom preMasterSecret =
     tls_prf preMasterSecret (ascii ''master secret'' @ clientRandom @ serverRandom) 48"

section \<open>The function it computes\<close>

text \<open>
  \<^verbatim>\<open>P_hash\<close> of RFC 5246, section 5, over any keyed hash: \<open>A(0) = seed\<close>,
  \<open>A(i) = mac secret A(i-1)\<close>, and the first \<open>k\<close> blocks of the output.
\<close>

fun p_A :: "('k \<Rightarrow> byte list \<Rightarrow> byte list) \<Rightarrow> 'k \<Rightarrow> byte list \<Rightarrow> nat \<Rightarrow> byte list" where
  "p_A mac secret seed 0 = seed"
| "p_A mac secret seed (Suc i) = mac secret (p_A mac secret seed i)"

definition p_hash :: "('k \<Rightarrow> byte list \<Rightarrow> byte list) \<Rightarrow> 'k \<Rightarrow> byte list \<Rightarrow> nat \<Rightarrow> byte list" where
  "p_hash mac secret seed k =
     concat (map (\<lambda>i. mac secret (p_A mac secret seed (Suc i) @ seed)) [0..<k])"

lemma p_hash_Suc:
  "p_hash mac secret seed (Suc k) =
     p_hash mac secret seed k @ mac secret (p_A mac secret seed (Suc k) @ seed)"
  by (simp add: p_hash_def)

locale fixed_hash =
  fixes mac :: "'k \<Rightarrow> byte list \<Rightarrow> byte list" and len :: nat
  assumes mac_length: "length (mac k m) = len"
    and len_positive: "0 < len"
begin

lemma length_p_hash: "length (p_hash mac secret seed k) = len * k"
  by (simp add: p_hash_def length_concat_const [where n = len] mac_length)

text \<open>A longer output extends a shorter one, so a truncation does not depend on the block count.\<close>

lemma p_hash_extends:
  "k \<le> k' \<Longrightarrow> \<exists>rest. p_hash mac secret seed k' = p_hash mac secret seed k @ rest"
proof (induction "k' - k" arbitrary: k')
  case (Suc d)
  then obtain k'' where k'': "k' = Suc k''" "k \<le> k''" "d = k'' - k" by (cases k') auto
  with Suc.hyps(1) [of k''] show ?case by (auto simp: p_hash_Suc)
qed simp

lemma take_p_hash:
  assumes "n \<le> len * k" "n \<le> len * k'"
  shows "take n (p_hash mac secret seed k) = take n (p_hash mac secret seed k')"
proof -
  have "take n (p_hash mac secret seed k) = take n (p_hash mac secret seed k')"
    if "k \<le> k'" "n \<le> len * k" for k k'
    using p_hash_extends [OF that(1), of secret seed] that(2) length_p_hash [of secret seed k] by auto
  from this [of k k'] this [of k' k] show ?thesis using assms by (metis nat_le_linear)
qed

lemma enough_blocks: "\<exists>k. n \<le> len * k"
  using len_positive by (intro exI [of _ n]) simp

end

interpretation sha_mac: fixed_hash hmac_sha256 32
  by unfold_locales simp_all

lemma prf_loop_p_hash:
  "A = p_A hmac_sha256 secret seed i \<Longrightarrow> out = p_hash hmac_sha256 secret seed i \<Longrightarrow>
    \<exists>k. prf_loop secret seed A out n = p_hash hmac_sha256 secret seed k \<and> n \<le> 32 * k"
proof (induction secret seed A out n arbitrary: i rule: prf_loop.induct)
  case (1 secret seed A out n)
  show ?case
  proof (cases "length out < n")
    case True
    have "\<exists>k. prf_loop secret seed (hmac_sha256 secret A)
        (out @ hmac_sha256 secret (hmac_sha256 secret A @ seed)) n = p_hash hmac_sha256 secret seed k \<and> n \<le> 32 * k"
      by (rule "1.IH" [OF True refl, of "Suc i"]) (simp_all add: "1.prems" p_hash_Suc)
    with True show ?thesis by (simp add: prf_loop.simps [of secret seed A] Let_def)
  next
    case False
    then have "n \<le> 32 * i" using sha_mac.length_p_hash [of secret seed i] by (simp add: "1.prems"(2))
    with False 1(3) show ?thesis by (auto simp: prf_loop.simps [of secret seed A])
  qed
qed

lemma prf_take:
  assumes "n \<le> 32 * k"
  shows "tls_prf secret seed n = take n (p_hash hmac_sha256 secret seed k)"
proof -
  obtain k' where "prf_loop secret seed seed [] n = p_hash hmac_sha256 secret seed k'" "n \<le> 32 * k'"
    using prf_loop_p_hash [of seed secret seed 0 "[]" n] by (auto simp: p_hash_def)
  with sha_mac.take_p_hash [OF assms, of k'] show ?thesis by (simp add: tls_prf_def)
qed

lemma length_prf [simp]: "length (tls_prf secret seed n) = n"
proof -
  obtain k where "n \<le> 32 * k" using sha_mac.enough_blocks by blast
  then show ?thesis
    using prf_take [of n k] sha_mac.length_p_hash [of secret seed k] by simp
qed

section \<open>Properties\<close>

text \<open>C22. \<^verbatim>\<open>prf\<close> terminates and computes \<^verbatim>\<open>P_SHA256\<close> of RFC 5246: the first bytes of the blocks
  \<^verbatim>\<open>HMAC(secret, A(i) + seed)\<close>, exactly as many as asked for, and a shorter output is a prefix
  of a longer one.\<close>

theorem prf_is_P_SHA256:
  assumes "n \<le> 32 * k"
  shows "tls_prf secret seed n = take n (p_hash hmac_sha256 secret seed k) \<and>
    length (tls_prf secret seed n) = n \<and> (m \<le> n \<longrightarrow> tls_prf secret seed m = take m (tls_prf secret seed n))"
proof -
  have "m \<le> n \<Longrightarrow> tls_prf secret seed m = take m (tls_prf secret seed n)"
    using prf_take [of m k secret seed] prf_take [OF assms, of secret seed] assms by (simp add: min_def)
  with prf_take [OF assms, of secret seed] show ?thesis by (metis length_prf)
qed

theorem prf_is_P_SHA256_witness:
  "tls_prf [1, 2] [3] 48 = take 48 (p_hash hmac_sha256 [1, 2] [3] 2) \<and> length (tls_prf [1, 2] [3] 48) = 48"
  by (rule conjI, rule conjunct1 [OF prf_is_P_SHA256 [of 48 2 "[1, 2]" "[3]" 0]], simp)
    (rule conjunct1 [OF conjunct2 [OF prf_is_P_SHA256 [of 48 2 "[1, 2]" "[3]" 0]]], simp)

end
