(* ===== verification/Block_Cipher.thy ===== *)
theory Block_Cipher
  imports Hash
begin

text \<open>
  The encryption of \<^verbatim>\<open>TLS/tls/internal-tls-api.go\<close>: AES-128 (\<^verbatim>\<open>crypto/aes\<close>, FIPS 197) in CBC
  mode (\<^verbatim>\<open>crypto/cipher\<close>) with the padding of \<^verbatim>\<open>encryptContent\<close> and \<^verbatim>\<open>decryptContent\<close>.

  The locale \<open>block_cipher\<close> states what the record encryption needs of the cipher, and its
  lemmas are the round trip of CBC; AES-128 interprets it, which takes the proof that every
  step of its decryption undoes one of its encryption.
\<close>

section \<open>AES-128\<close>

definition sbox_table :: "nat list" where
  "sbox_table = [99, 124, 119, 123, 242, 107, 111, 197, 48, 1, 103, 43, 254, 215, 171, 118,
     202, 130, 201, 125, 250, 89, 71, 240, 173, 212, 162, 175, 156, 164, 114, 192,
     183, 253, 147, 38, 54, 63, 247, 204, 52, 165, 229, 241, 113, 216, 49, 21,
     4, 199, 35, 195, 24, 150, 5, 154, 7, 18, 128, 226, 235, 39, 178, 117,
     9, 131, 44, 26, 27, 110, 90, 160, 82, 59, 214, 179, 41, 227, 47, 132,
     83, 209, 0, 237, 32, 252, 177, 91, 106, 203, 190, 57, 74, 76, 88, 207,
     208, 239, 170, 251, 67, 77, 51, 133, 69, 249, 2, 127, 80, 60, 159, 168,
     81, 163, 64, 143, 146, 157, 56, 245, 188, 182, 218, 33, 16, 255, 243, 210,
     205, 12, 19, 236, 95, 151, 68, 23, 196, 167, 126, 61, 100, 93, 25, 115,
     96, 129, 79, 220, 34, 42, 144, 136, 70, 238, 184, 20, 222, 94, 11, 219,
     224, 50, 58, 10, 73, 6, 36, 92, 194, 211, 172, 98, 145, 149, 228, 121,
     231, 200, 55, 109, 141, 213, 78, 169, 108, 86, 244, 234, 101, 122, 174, 8,
     186, 120, 37, 46, 28, 166, 180, 198, 232, 221, 116, 31, 75, 189, 139, 138,
     112, 62, 181, 102, 72, 3, 246, 14, 97, 53, 87, 185, 134, 193, 29, 158,
     225, 248, 152, 17, 105, 217, 142, 148, 155, 30, 135, 233, 206, 85, 40, 223,
     140, 161, 137, 13, 191, 230, 66, 104, 65, 153, 45, 15, 176, 84, 187, 22]"

definition inv_sbox_table :: "nat list" where
  "inv_sbox_table = [82, 9, 106, 213, 48, 54, 165, 56, 191, 64, 163, 158, 129, 243, 215, 251,
     124, 227, 57, 130, 155, 47, 255, 135, 52, 142, 67, 68, 196, 222, 233, 203,
     84, 123, 148, 50, 166, 194, 35, 61, 238, 76, 149, 11, 66, 250, 195, 78,
     8, 46, 161, 102, 40, 217, 36, 178, 118, 91, 162, 73, 109, 139, 209, 37,
     114, 248, 246, 100, 134, 104, 152, 22, 212, 164, 92, 204, 93, 101, 182, 146,
     108, 112, 72, 80, 253, 237, 185, 218, 94, 21, 70, 87, 167, 141, 157, 132,
     144, 216, 171, 0, 140, 188, 211, 10, 247, 228, 88, 5, 184, 179, 69, 6,
     208, 44, 30, 143, 202, 63, 15, 2, 193, 175, 189, 3, 1, 19, 138, 107,
     58, 145, 17, 65, 79, 103, 220, 234, 151, 242, 207, 206, 240, 180, 230, 115,
     150, 172, 116, 34, 231, 173, 53, 133, 226, 249, 55, 232, 28, 117, 223, 110,
     71, 241, 26, 113, 29, 41, 197, 137, 111, 183, 98, 14, 170, 24, 190, 27,
     252, 86, 62, 75, 198, 210, 121, 32, 154, 219, 192, 254, 120, 205, 90, 244,
     31, 221, 168, 51, 136, 7, 199, 49, 177, 18, 16, 89, 39, 128, 236, 95,
     96, 81, 127, 169, 25, 181, 74, 13, 45, 229, 122, 159, 147, 201, 156, 239,
     160, 224, 59, 77, 174, 42, 245, 176, 200, 235, 187, 60, 131, 83, 153, 97,
     23, 43, 4, 126, 186, 119, 214, 38, 225, 105, 20, 99, 85, 33, 12, 125]"

definition sbox :: "byte \<Rightarrow> byte" where
  "sbox b = of_nat (sbox_table ! unat b)"

definition inv_sbox :: "byte \<Rightarrow> byte" where
  "inv_sbox b = of_nat (inv_sbox_table ! unat b)"

text \<open>Multiplication by \<open>x\<close> in the field of 256 elements; the other factors are sums of its powers.\<close>

definition xtime :: "byte \<Rightarrow> byte" where
  "xtime b = push_bit 1 b XOR (if bit b 7 then 0x1B else 0)"

text \<open>A block is the state column by column.\<close>

definition shift_rows :: "byte list \<Rightarrow> byte list" where
  "shift_rows s = map (\<lambda>i. s ! i) [0, 5, 10, 15, 4, 9, 14, 3, 8, 13, 2, 7, 12, 1, 6, 11]"

definition inv_shift_rows :: "byte list \<Rightarrow> byte list" where
  "inv_shift_rows s = map (\<lambda>i. s ! i) [0, 13, 10, 7, 4, 1, 14, 11, 8, 5, 2, 15, 12, 9, 6, 3]"

fun mix_columns :: "byte list \<Rightarrow> byte list" where
  "mix_columns (a # b # c # d # s) =
     (xtime a XOR xtime b XOR b XOR c XOR d) #
     (a XOR xtime b XOR xtime c XOR c XOR d) #
     (a XOR b XOR xtime c XOR xtime d XOR d) #
     (xtime a XOR a XOR b XOR c XOR xtime d) # mix_columns s"
| "mix_columns s = s"

definition times9 :: "byte \<Rightarrow> byte" where "times9 a = xtime (xtime (xtime a)) XOR a"
definition times11 :: "byte \<Rightarrow> byte" where "times11 a = xtime (xtime (xtime a)) XOR xtime a XOR a"
definition times13 :: "byte \<Rightarrow> byte" where "times13 a = xtime (xtime (xtime a)) XOR xtime (xtime a) XOR a"
definition times14 :: "byte \<Rightarrow> byte" where
  "times14 a = xtime (xtime (xtime a)) XOR xtime (xtime a) XOR xtime a"

fun inv_mix_columns :: "byte list \<Rightarrow> byte list" where
  "inv_mix_columns (a # b # c # d # s) =
     (times14 a XOR times11 b XOR times13 c XOR times9 d) #
     (times9 a XOR times14 b XOR times11 c XOR times13 d) #
     (times13 a XOR times9 b XOR times14 c XOR times11 d) #
     (times11 a XOR times13 b XOR times9 c XOR times14 d) # inv_mix_columns s"
| "inv_mix_columns s = s"

definition xor_bytes :: "byte list \<Rightarrow> byte list \<Rightarrow> byte list" where
  "xor_bytes xs ys = map2 (XOR) xs ys"

text \<open>The key schedule: 44 words of four bytes, from the newest to the oldest.\<close>

definition rcon :: "byte list" where
  "rcon = [0x01, 0x02, 0x04, 0x08, 0x10, 0x20, 0x40, 0x80, 0x1B, 0x36]"

fun expand_key :: "byte list \<Rightarrow> byte list list \<Rightarrow> byte list list" where
  "expand_key [] ws = rev ws"
| "expand_key (r # rs) ws =
     (let t = xor_bytes (map sbox (rotate1 (ws ! 0))) [r, 0, 0, 0];
          w0 = xor_bytes (ws ! 3) t;
          w1 = xor_bytes (ws ! 2) w0;
          w2 = xor_bytes (ws ! 1) w1;
          w3 = xor_bytes (ws ! 0) w2 in
      expand_key rs (w3 # w2 # w1 # w0 # ws))"

definition round_keys :: "byte list \<Rightarrow> byte list list" where
  "round_keys key = map concat (chunks 4 (expand_key rcon (rev (chunks 4 key))))"

definition aes_round :: "byte list \<Rightarrow> byte list \<Rightarrow> byte list" where
  "aes_round rk s = xor_bytes (mix_columns (shift_rows (map sbox s))) rk"

definition aes_last :: "byte list \<Rightarrow> byte list \<Rightarrow> byte list" where
  "aes_last rk s = xor_bytes (shift_rows (map sbox s)) rk"

definition inv_aes_round :: "byte list \<Rightarrow> byte list \<Rightarrow> byte list" where
  "inv_aes_round rk s = map inv_sbox (inv_shift_rows (inv_mix_columns (xor_bytes s rk)))"

definition inv_aes_last :: "byte list \<Rightarrow> byte list \<Rightarrow> byte list" where
  "inv_aes_last rk s = map inv_sbox (inv_shift_rows (xor_bytes s rk))"

definition aes_encrypt :: "byte list \<Rightarrow> byte list \<Rightarrow> byte list" where
  "aes_encrypt key block =
     (let rks = round_keys key in
      aes_last (rks ! 10) (fold aes_round (take 9 (drop 1 rks)) (xor_bytes block (rks ! 0))))"

definition aes_decrypt :: "byte list \<Rightarrow> byte list \<Rightarrow> byte list" where
  "aes_decrypt key block =
     (let rks = round_keys key in
      xor_bytes (fold inv_aes_round (rev (take 9 (drop 1 rks))) (inv_aes_last (rks ! 10) block)) (rks ! 0))"

section \<open>Every step is undone\<close>

lemma length_xor_bytes [simp]: "length (xor_bytes xs ys) = min (length xs) (length ys)"
  by (simp add: xor_bytes_def)

lemma xor_bytes_undo [simp]: "length xs \<le> length ys \<Longrightarrow> xor_bytes (xor_bytes xs ys) ys = xs"
  by (rule nth_equalityI) (simp_all add: xor_bytes_def xor.assoc)

lemma sbox_tables:
  "length sbox_table = 256" "map ((!) inv_sbox_table) sbox_table = [0..<256]"
  "list_all (\<lambda>n. n < 256) sbox_table"
  by (simp_all add: sbox_table_def inv_sbox_table_def upt_rec)

lemma inv_sbox_sbox [simp]: "inv_sbox (sbox b) = b"
proof -
  have b: "unat b < 256" using unsigned_less [where 'a = nat, of b] by simp
  then have "inv_sbox_table ! (sbox_table ! unat b) = unat b"
    using sbox_tables(1,2) by (metis add_0 length_map nth_map nth_upt)
  moreover have "sbox_table ! unat b < 256"
    using sbox_tables(1,3) b by (simp add: list_all_length)
  ultimately show ?thesis by (simp add: sbox_def inv_sbox_def unat_of_nat)
qed

lemma xtime_xor: "xtime (a XOR b) = xtime a XOR xtime b"
  by (auto simp: xtime_def bit_xor_iff push_bit_xor ac_simps)

lemma xor_cancel [simp]: "x XOR (x XOR y) = (y :: byte)"
  by (simp flip: xor.assoc)

lemma times_xor:
  "times9 (a XOR b) = times9 a XOR times9 b" "times11 (a XOR b) = times11 a XOR times11 b"
  "times13 (a XOR b) = times13 a XOR times13 b" "times14 (a XOR b) = times14 a XOR times14 b"
  by (simp_all add: times9_def times11_def times13_def times14_def xtime_xor ac_simps)


lemma inv_mix_column:
  fixes a b c d :: byte
  shows "times14 (xtime a XOR xtime b XOR b XOR c XOR d) XOR times11 (a XOR xtime b XOR xtime c XOR c XOR d) XOR
      times13 (a XOR b XOR xtime c XOR xtime d XOR d) XOR times9 (xtime a XOR a XOR b XOR c XOR xtime d) = a"
    and "times9 (xtime a XOR xtime b XOR b XOR c XOR d) XOR times14 (a XOR xtime b XOR xtime c XOR c XOR d) XOR
      times11 (a XOR b XOR xtime c XOR xtime d XOR d) XOR times13 (xtime a XOR a XOR b XOR c XOR xtime d) = b"
    and "times13 (xtime a XOR xtime b XOR b XOR c XOR d) XOR times9 (a XOR xtime b XOR xtime c XOR c XOR d) XOR
      times14 (a XOR b XOR xtime c XOR xtime d XOR d) XOR times11 (xtime a XOR a XOR b XOR c XOR xtime d) = c"
    and "times11 (xtime a XOR xtime b XOR b XOR c XOR d) XOR times13 (a XOR xtime b XOR xtime c XOR c XOR d) XOR
      times9 (a XOR b XOR xtime c XOR xtime d XOR d) XOR times14 (xtime a XOR a XOR b XOR c XOR xtime d) = d"
  unfolding times9_def times11_def times13_def times14_def xtime_xor
  by (simp_all add: xor.assoc xor.left_commute xor.commute)

lemma inv_mix_columns_mix [simp]: "inv_mix_columns (mix_columns s) = s"
proof (induction s rule: mix_columns.induct)
  case (1 a b c d s)
  show ?case unfolding mix_columns.simps inv_mix_columns.simps inv_mix_column 1 ..
qed simp_all

lemma length_mix_columns [simp]: "length (mix_columns s) = length s"
  by (induction s rule: mix_columns.induct) simp_all

lemma length_shift_rows [simp]: "length (shift_rows s) = 16"
  by (simp add: shift_rows_def)

lemma inv_shift_rows_shift [simp]: "length s = 16 \<Longrightarrow> inv_shift_rows (shift_rows s) = s"
proof -
  assume s: "length s = 16"
  have "inv_shift_rows (shift_rows s) = map (\<lambda>i. s ! i) [0, 1, 2, 3, 4, 5, 6, 7, 8, 9, 10, 11, 12, 13, 14, 15]"
    by (simp add: inv_shift_rows_def shift_rows_def)
  also have "[0, 1, 2, 3, 4, 5, 6, 7, 8, 9, 10, 11, 12, 13, 14, 15] = [0..<16]" by (simp add: upt_rec)
  finally show ?thesis using map_nth [of s] by (simp add: s)
qed

lemma map_inv_sbox [simp]: "map inv_sbox (map sbox s) = s"
  by (simp add: comp_def)

lemma aes_round_undo:
  "length s = 16 \<Longrightarrow> length rk = 16 \<Longrightarrow> inv_aes_round rk (aes_round rk s) = s"
  by (simp add: aes_round_def inv_aes_round_def del: map_map)

lemma aes_last_undo:
  "length s = 16 \<Longrightarrow> length rk = 16 \<Longrightarrow> inv_aes_last rk (aes_last rk s) = s"
  by (simp add: aes_last_def inv_aes_last_def del: map_map)

lemma length_aes_round: "length rk = 16 \<Longrightarrow> length (aes_round rk s) = 16"
  and length_aes_last: "length rk = 16 \<Longrightarrow> length (aes_last rk s) = 16"
  by (simp_all add: aes_round_def aes_last_def)

lemma aes_rounds_undo:
  "\<forall>rk\<in>set rks. length rk = 16 \<Longrightarrow> length s = 16 \<Longrightarrow>
    fold inv_aes_round (rev rks) (fold aes_round rks s) = s \<and> length (fold aes_round rks s) = 16"
proof (induction rks arbitrary: s)
  case (Cons rk rks)
  then show ?case by (simp add: length_aes_round aes_round_undo)
qed simp

section \<open>The key schedule\<close>

lemma length_expand_key:
  "\<forall>w\<in>set ws. length w = 4 \<Longrightarrow> 4 \<le> length ws \<Longrightarrow>
    length (expand_key rs ws) = length ws + 4 * length rs \<and> (\<forall>w\<in>set (expand_key rs ws). length w = 4)"
proof (induction rs arbitrary: ws)
  case (Cons r rs)
  have w: "length (ws ! i) = 4" if "i < 4" for i using Cons.prems that by simp
  define t where "t = xor_bytes (map sbox (rotate1 (ws ! 0))) [r, 0, 0, 0]"
  define w0 where "w0 = xor_bytes (ws ! 3) t"
  define w1 where "w1 = xor_bytes (ws ! 2) w0"
  define w2 where "w2 = xor_bytes (ws ! 1) w1"
  define w3 where "w3 = xor_bytes (ws ! 0) w2"
  have "length t = 4" unfolding t_def using w [of 0] by simp
  then have l: "length w0 = 4" "length w1 = 4" "length w2 = 4" "length w3 = 4"
    unfolding w0_def w1_def w2_def w3_def using w by simp_all
  have "expand_key (r # rs) ws = expand_key rs (w3 # w2 # w1 # w0 # ws)"
    by (simp only: expand_key.simps Let_def t_def w0_def w1_def w2_def w3_def)
  with Cons.IH [of "w3 # w2 # w1 # w0 # ws"] Cons.prems l show ?case by simp
qed simp

lemma chunks_length:
  "length xs = n * k \<Longrightarrow> 0 < n \<Longrightarrow>
    length (chunks n xs) = k \<and> (\<forall>c\<in>set (chunks n xs). length c = n) \<and> concat (chunks n xs) = xs"
proof (induction k arbitrary: xs)
  case 0
  then show ?case by (simp add: chunks.simps)
next
  case (Suc k)
  then have "xs \<noteq> []" "length (drop n xs) = n * k" by auto
  with Suc.IH [of "drop n xs"] Suc.prems show ?case
    by (subst (1 2 3) chunks.simps) auto
qed

lemma round_keys_ok:
  assumes "length key = 16"
  shows "length (round_keys key) = 11" and "\<forall>rk\<in>set (round_keys key). length rk = 16"
proof -
  have ks: "length (chunks 4 key) = 4" "\<forall>c\<in>set (chunks 4 key). length c = 4"
    using chunks_length [of key 4 4] assms by auto
  let ?ws = "expand_key rcon (rev (chunks 4 key))"
  have "length ?ws = length (rev (chunks 4 key)) + 4 * length rcon \<and> (\<forall>w\<in>set ?ws. length w = 4)"
    by (rule length_expand_key) (simp_all add: ks)
  moreover have "length rcon = 10" by (simp add: rcon_def)
  ultimately have ws: "length ?ws = 4 * 11" "\<forall>w\<in>set ?ws. length w = 4" using ks(1) by simp_all
  have c: "length (chunks 4 ?ws) = 11" "\<forall>c\<in>set (chunks 4 ?ws). length c = 4" "concat (chunks 4 ?ws) = ?ws"
    using chunks_length [OF ws(1)] by auto
  show "length (round_keys key) = 11" using c(1) by (simp add: round_keys_def)
  have "length (concat g) = 16" if g: "g \<in> set (chunks 4 ?ws)" for g
  proof -
    have "\<forall>w\<in>set g. length w = 4" using g ws(2) c(3) by (metis UN_I set_concat)
    then have "length (concat g) = 4 * length g" using length_concat_const [of g id 4] by simp
    then show ?thesis using c(2) g by simp
  qed
  then show "\<forall>rk\<in>set (round_keys key). length rk = 16" by (simp add: round_keys_def)
qed

lemma aes_roundtrip:
  assumes "length key = 16" "length block = 16"
  shows "aes_decrypt key (aes_encrypt key block) = block" and "length (aes_encrypt key block) = 16"
proof -
  let ?rks = "round_keys key"
  have rk: "length (?rks ! 0) = 16" "length (?rks ! 10) = 16"
    using round_keys_ok [OF assms(1)] by simp_all
  have mid: "\<forall>rk\<in>set (take 9 (drop 1 ?rks)). length rk = 16"
    using round_keys_ok(2) [OF assms(1)] by (meson in_set_dropD in_set_takeD)
  note r = aes_rounds_undo [OF mid, of "xor_bytes block (?rks ! 0)"]
  show "length (aes_encrypt key block) = 16"
    using rk by (simp add: aes_encrypt_def Let_def length_aes_last)
  show "aes_decrypt key (aes_encrypt key block) = block"
    using r rk assms(2) by (simp add: aes_encrypt_def aes_decrypt_def Let_def aes_last_undo)
qed


section \<open>CBC with padding\<close>

fun cbc_encrypt :: "(byte list \<Rightarrow> byte list) \<Rightarrow> byte list \<Rightarrow> byte list list \<Rightarrow> byte list list" where
  "cbc_encrypt E iv [] = []"
| "cbc_encrypt E iv (p # ps) = (let c = E (xor_bytes p iv) in c # cbc_encrypt E c ps)"

fun cbc_decrypt :: "(byte list \<Rightarrow> byte list) \<Rightarrow> byte list \<Rightarrow> byte list list \<Rightarrow> byte list list" where
  "cbc_decrypt D iv [] = []"
| "cbc_decrypt D iv (c # cs) = xor_bytes (D c) iv # cbc_decrypt D c cs"

text \<open>The padding of \<^verbatim>\<open>encryptContent\<close>: one to \<open>n\<close> bytes, each with their number.\<close>

definition pad_block :: "nat \<Rightarrow> byte list \<Rightarrow> byte list" where
  "pad_block n xs = (let padding = n - length xs mod n in xs @ replicate padding (of_nat padding))"

definition cbc_seal :: "(byte list \<Rightarrow> byte list) \<Rightarrow> nat \<Rightarrow> byte list \<Rightarrow> byte list \<Rightarrow> byte list" where
  "cbc_seal E n iv xs = iv @ concat (cbc_encrypt E iv (chunks n (pad_block n xs)))"

text \<open>
  \<^verbatim>\<open>decryptContent\<close>: the last byte is read without a check that there is one, which panics
  on a message of one block.
\<close>

definition cbc_open :: "(byte list \<Rightarrow> byte list) \<Rightarrow> nat \<Rightarrow> byte list \<Rightarrow> byte list result" where
  "cbc_open D n xs =
     (if length xs < n then Fail ''bad length''
      else
        (let iv = take n xs; ciphertext = drop n xs in
         if length ciphertext mod n \<noteq> 0 then Fail ''invalid ciphertext length''
         else
           (let plaintext = concat (cbc_decrypt D iv (chunks n ciphertext)) in
            if plaintext = [] then Panic
            else
              (let paddingLen = unat (last plaintext) in
               if paddingLen = 0 \<or> paddingLen > n then Fail ''invalid padding''
               else Ret (take (length plaintext - paddingLen) plaintext)))))"

lemma unat_byte: "k < 256 \<Longrightarrow> unat (of_nat k :: byte) = k"
  by (simp add: unat_of_nat)

lemma pad_block_length: "0 < n \<Longrightarrow> \<exists>k>0. length (pad_block n xs) = n * k"
proof -
  assume n: "0 < n"
  have "length xs = n * (length xs div n) + length xs mod n" by simp
  moreover have "length xs mod n < n" using n by simp
  ultimately have "length xs + (n - length xs mod n) = n * (length xs div n) + n" by linarith
  then have "length (pad_block n xs) = n * (length xs div n) + n"
    unfolding pad_block_def Let_def length_append length_replicate .
  then have "length (pad_block n xs) = n * Suc (length xs div n)" by simp
  then show ?thesis by blast
qed

lemma pad_block_bound: "length (pad_block n xs) \<le> length xs + n"
  by (simp add: pad_block_def Let_def)

locale block_cipher =
  fixes enc dec :: "'k \<Rightarrow> byte list \<Rightarrow> byte list" and key_ok :: "'k \<Rightarrow> bool" and n :: nat
  assumes dec_enc: "key_ok k \<Longrightarrow> length b = n \<Longrightarrow> dec k (enc k b) = b"
    and enc_length: "key_ok k \<Longrightarrow> length b = n \<Longrightarrow> length (enc k b) = n"
    and block_size: "0 < n" "n < 256"
begin

lemma cbc_blocks:
  "key_ok k \<Longrightarrow> length iv = n \<Longrightarrow> \<forall>p\<in>set ps. length p = n \<Longrightarrow>
    cbc_decrypt (dec k) iv (cbc_encrypt (enc k) iv ps) = ps \<and>
    length (cbc_encrypt (enc k) iv ps) = length ps \<and>
    (\<forall>c\<in>set (cbc_encrypt (enc k) iv ps). length c = n)"
proof (induction ps arbitrary: iv)
  case (Cons p ps)
  let ?c = "enc k (xor_bytes p iv)"
  have c: "length ?c = n" "dec k ?c = xor_bytes p iv"
    using Cons.prems by (simp_all add: enc_length dec_enc)
  with Cons.IH [of ?c] Cons.prems show ?case by (simp add: Let_def)
qed simp

lemma concat_blocks:
  "\<forall>c\<in>set cs. length c = n \<Longrightarrow> chunks n (concat cs) = cs \<and> length (concat cs) = n * length cs"
proof (induction cs)
  case (Cons c cs)
  have "chunks n (c @ concat cs) = c # chunks n (concat cs)"
    using Cons.prems block_size by (subst chunks.simps) auto
  with Cons show ?case by simp
qed (simp add: chunks.simps)

lemma seal_length:
  assumes "key_ok k" "length iv = n"
  shows "length (cbc_seal (enc k) n iv xs) = n + length (pad_block n xs)"
proof -
  obtain m where m: "0 < m" "length (pad_block n xs) = n * m"
    using pad_block_length [OF block_size(1)] by blast
  note ch = chunks_length [OF m(2) block_size(1)]
  have "length (concat (cbc_encrypt (enc k) iv (chunks n (pad_block n xs)))) = n * m"
    using cbc_blocks [OF assms, of "chunks n (pad_block n xs)"] ch
      concat_blocks [of "cbc_encrypt (enc k) iv (chunks n (pad_block n xs))"] by simp
  with m assms(2) show ?thesis by (simp add: cbc_seal_def)
qed

lemma open_blocks:
  assumes "length iv = n" "length ct mod n = 0" "0 < p" "p \<le> n"
    and "concat (cbc_decrypt (dec k) iv (chunks n ct)) = ys @ replicate p (of_nat p)"
  shows "cbc_open (dec k) n (iv @ ct) = Ret ys"
proof -
  have "unat (of_nat p :: byte) = p" using assms(4) block_size(2) by (intro unat_byte) simp
  moreover have "last (ys @ replicate p (of_nat p)) = (of_nat p :: byte)" using assms(3) by simp
  ultimately have "unat (last (ys @ replicate p (of_nat p :: byte))) = p" by simp
  then show ?thesis
    unfolding cbc_open_def Let_def using assms by (simp del: concat_eq_Nil_conv last_append)
qed

lemma pad_block_eq:
  "\<exists>p. 0 < p \<and> p \<le> n \<and> pad_block n xs = xs @ replicate p (of_nat p)"
  using block_size by (intro exI [of _ "n - length xs mod n"]) (simp add: pad_block_def Let_def)

theorem open_seal:
  assumes "key_ok k" "length iv = n"
  shows "cbc_open (dec k) n (cbc_seal (enc k) n iv xs) = Ret xs"
proof -
  obtain m where m: "length (pad_block n xs) = n * m"
    using pad_block_length [OF block_size(1)] by blast
  note ch = chunks_length [OF m block_size(1)]
  let ?cs = "cbc_encrypt (enc k) iv (chunks n (pad_block n xs))"
  note cs = cbc_blocks [OF assms, of "chunks n (pad_block n xs)"]
  have "chunks n (concat ?cs) = ?cs" "length (concat ?cs) = n * m"
    using concat_blocks [of ?cs] cs ch by auto
  moreover obtain p where "0 < p" "p \<le> n" "pad_block n xs = xs @ replicate p (of_nat p)"
    using pad_block_eq by blast
  ultimately show ?thesis
    unfolding cbc_seal_def using assms(2) cs ch by (intro open_blocks [of _ _ p]) simp_all
qed

text \<open>
  Without an authentication code the first block of the plaintext is open to change: what is
  added to the initialisation vector is added to it.
\<close>

lemma open_tampered:
  assumes "key_ok k" "length iv = n" "length d = n" "n \<le> length xs"
  shows "cbc_open (dec k) n (xor_bytes iv d @ drop n (cbc_seal (enc k) n iv xs)) =
    Ret (xor_bytes (take n xs) d @ drop n xs)"
proof -
  obtain m where m: "0 < m" "length (pad_block n xs) = n * m"
    using pad_block_length [OF block_size(1)] by blast
  note ch = chunks_length [OF m(2) block_size(1)]
  let ?cs = "cbc_encrypt (enc k) iv (chunks n (pad_block n xs))"
  note cs = cbc_blocks [OF assms(1,2), of "chunks n (pad_block n xs)"]
  have cat: "chunks n (concat ?cs) = ?cs" "length (concat ?cs) = n * m"
    using concat_blocks [of ?cs] cs ch by auto
  have undone: "cbc_decrypt (dec k) iv ?cs = chunks n (pad_block n xs)" using cs ch by simp
  have take_pad: "take n (pad_block n xs) = take n xs"
    using assms(4) by (simp_all add: pad_block_def Let_def)
  have first: "chunks n (pad_block n xs) = take n xs # chunks n (drop n (pad_block n xs))"
  proof -
    have "pad_block n xs \<noteq> []" using assms(4) block_size(1) by (auto simp: pad_block_def Let_def)
    then show ?thesis using block_size(1) take_pad by (subst chunks.simps) simp
  qed
  have rest: "cbc_decrypt (dec k) (xor_bytes iv d) ?cs =
      xor_bytes (take n xs) d # chunks n (drop n (pad_block n xs))"
  proof -
    obtain c cs' where c: "?cs = c # cs'" using first by (auto simp: Let_def)
    then have "xor_bytes (dec k c) iv = take n xs" "cbc_decrypt (dec k) c cs' = chunks n (drop n (pad_block n xs))"
      using undone first by simp_all
    moreover have "xor_bytes (dec k c) (xor_bytes iv d) = xor_bytes (xor_bytes (dec k c) iv) d"
      by (simp add: xor_bytes_def zip_map2 zip_map1 zip_assoc split_def xor.assoc o_def)
    ultimately show ?thesis using c by simp
  qed
  obtain p where p: "0 < p" "p \<le> n" "pad_block n xs = xs @ replicate p (of_nat p)"
    using pad_block_eq by blast
  have "length (drop n (pad_block n xs)) = n * (m - 1)" using m by (simp add: diff_mult_distrib2)
  then have "concat (chunks n (drop n (pad_block n xs))) = drop n (pad_block n xs)"
    using chunks_length block_size(1) by blast
  then have "concat (chunks n (drop n (pad_block n xs))) = drop n xs @ replicate p (of_nat p)"
    unfolding p(3) using assms(4) by simp
  then have "concat (cbc_decrypt (dec k) (xor_bytes iv d) (chunks n (concat ?cs))) =
      (xor_bytes (take n xs) d @ drop n xs) @ replicate p (of_nat p)"
    using rest cat(1) by simp
  moreover have "drop n (cbc_seal (enc k) n iv xs) = concat ?cs" using assms(2) by (simp add: cbc_seal_def)
  ultimately show ?thesis
    using assms(2,3) cat(2) p(1,2) by (simp add: open_blocks [of _ _ p])
qed

end

interpretation aes: block_cipher aes_encrypt aes_decrypt "\<lambda>key. length key = 16" 16
  by unfold_locales (simp_all add: aes_roundtrip)

section \<open>Properties\<close>

text \<open>C21. Decrypting what was encrypted under the same 16-byte key gives the data back, whatever
  its length: AES-128 is undone step by step, CBC block by block, and the padding is always
  recognised.\<close>

theorem aes_cbc_roundtrip:
  assumes "length key = 16" "length iv = 16"
  shows "cbc_open (aes_decrypt key) 16 (cbc_seal (aes_encrypt key) 16 iv xs) = Ret xs"
  using assms by (rule aes.open_seal)

theorem aes_cbc_roundtrip_witness:
  "cbc_open (aes_decrypt (replicate 16 7)) 16 (cbc_seal (aes_encrypt (replicate 16 7)) 16 (replicate 16 1) [1, 2, 3]) =
    Ret [1, 2, 3]"
  by (rule aes_cbc_roundtrip) simp_all

end
