(* ===== verification/TLS_Record.thy ===== *)
theory TLS_Record
  imports Block_Cipher
begin

text \<open>
  The TLS library's connection and record layer: \<^verbatim>\<open>TLS/tls/models.go\<close> and
  \<^verbatim>\<open>TLS/tls/internal-tls-api.go\<close>.

  A connection is the struct of the code (the fields that the code reads or writes) and the
  world it acts on: the bytes that the peer will send (\<open>inbox\<close>), those written so far
  (\<open>outbox\<close>), the supply of random bytes, and which calls of \<^verbatim>\<open>rand.Read\<close> and \<^verbatim>\<open>conn.Write\<close>
  fail. Reading beyond the inbox is the end of the stream.
\<close>

section \<open>State\<close>

text \<open>RSA keys (modulus and exponent) and certificates, as far as the code looks into them.\<close>

type_synonym rsa_key = "nat \<times> nat"

record certificate =
  Raw :: "byte list"
  PublicKey :: "rsa_key option"

datatype connection_end = ClientCE | ServerCE

record security_parameters =
  ConnectionEnd :: connection_end
  Certificate :: certificate
  CertificatePrivateKey :: rsa_key
  RemoteCertificate :: "certificate option"
  MasterSecret :: "byte list"
  ClientRandom :: "byte list"
  ServerRandom :: "byte list"

text \<open>The ciphers are nil until the keys are generated.\<close>

record key_material =
  ClientWriteMACKey :: "byte list"
  ServerWriteMACKey :: "byte list"
  ClientWriteKey :: "byte list"
  ServerWriteKey :: "byte list"
  ClientWriteIV :: "byte list"
  ServerWriteIV :: "byte list"
  EncryptCipher :: "byte list option"
  DecryptCipher :: "byte list option"

record tls_connection =
  secParam :: security_parameters
  matBlock :: key_material
  msgHistory :: "byte list"
  inbox :: "byte list"
  outbox :: "byte list"
  rnd :: "nat \<Rightarrow> byte"
  rnd_pos :: nat
  rand_fail :: "nat \<Rightarrow> bool"
  writes :: nat
  write_fail :: "nat \<Rightarrow> bool"

text \<open>Content and handshake types.\<close>

definition ct_ChangeCipherSpec :: byte where "ct_ChangeCipherSpec = 0x14"
definition ct_Alert :: byte where "ct_Alert = 0x15"
definition ct_Handshake :: byte where "ct_Handshake = 0x16"
definition ct_ApplicationData :: byte where "ct_ApplicationData = 0x17"

definition ht_ClientHello :: byte where "ht_ClientHello = 0x01"
definition ht_ServerHello :: byte where "ht_ServerHello = 0x02"
definition ht_Certificate :: byte where "ht_Certificate = 0x0b"
definition ht_ServerHelloDone :: byte where "ht_ServerHelloDone = 0x0e"
definition ht_ClientKeyExchange :: byte where "ht_ClientKeyExchange = 0x10"
definition ht_Finished :: byte where "ht_Finished = 0x14"
definition ht_CertificateRequest :: byte where "ht_CertificateRequest = 0x0d"
definition ht_CertificateVerify :: byte where "ht_CertificateVerify = 0x0f"

lemmas ct_defs = ct_ChangeCipherSpec_def ct_Alert_def ct_Handshake_def ct_ApplicationData_def
lemmas ht_defs = ht_ClientHello_def ht_ServerHello_def ht_Certificate_def ht_ServerHelloDone_def
  ht_ClientKeyExchange_def ht_Finished_def ht_CertificateRequest_def ht_CertificateVerify_def

definition protocol_version :: "byte list" where "protocol_version = [0x03, 0x03]"

section \<open>The world\<close>

text \<open>\<^verbatim>\<open>rand.Read\<close> into a buffer of \<open>n\<close> bytes: whether it succeeded, and the buffer afterwards.\<close>

definition rand_read :: "nat \<Rightarrow> tls_connection \<Rightarrow> (bool \<times> byte list) \<times> tls_connection" where
  "rand_read n c =
     (if rand_fail c (rnd_pos c) then ((False, replicate n 0), c\<lparr>rnd_pos := Suc (rnd_pos c)\<rparr>)
      else ((True, map (rnd c) [rnd_pos c..<rnd_pos c + n]), c\<lparr>rnd_pos := rnd_pos c + n\<rparr>))"

definition conn_write :: "byte list \<Rightarrow> (tls_connection, unit) op" where
  "conn_write payload c =
     (if write_fail c (writes c) then (Fail ''write error'', c\<lparr>writes := Suc (writes c)\<rparr>)
      else (Ret (), c\<lparr>outbox := outbox c @ payload, writes := Suc (writes c)\<rparr>))"

text \<open>\<^verbatim>\<open>io.ReadFull\<close>: what there is of a short stream is consumed.\<close>

definition read_full :: "nat \<Rightarrow> (tls_connection, byte list) op" where
  "read_full n c =
     (if length (inbox c) < n then (Fail ''EOF'', c\<lparr>inbox := []\<rparr>)
      else (Ret (take n (inbox c)), c\<lparr>inbox := drop n (inbox c)\<rparr>))"

section \<open>Records\<close>

record tls_ciphertext =
  tlsType :: byte
  version :: "byte list"
  ct_length :: "byte list"
  ct_data :: "byte list"

text \<open>The length field is \<^verbatim>\<open>uint16(len(data))\<close>: it wraps around beyond 65535.\<close>

definition tls_record :: "byte \<Rightarrow> byte list \<Rightarrow> byte list" where
  "tls_record contentType d =
     [contentType] @ protocol_version @ be_bytes 2 (length d mod 65536) @ d"

definition writeTLSContent :: "byte \<Rightarrow> byte list \<Rightarrow> (tls_connection, unit) op" where
  "writeTLSContent contentType d = conn_write (tls_record contentType d)"

definition readTLSContent :: "(tls_connection, tls_ciphertext) op" where
  "readTLSContent =
     bind_op (read_full 5) (\<lambda>header.
       let payloadLength = be_nat (take 2 (drop 3 header)) in
       bind_op (read_full payloadLength) (\<lambda>d.
         ret_op \<lparr>tlsType = header ! 0, version = take 2 (drop 1 header),
           ct_length = take 2 (drop 3 header), ct_data = d\<rparr>))"

definition encryptContent :: "byte list \<Rightarrow> (tls_connection, byte list) op" where
  "encryptContent d c = (case EncryptCipher (matBlock c) of
       None \<Rightarrow> (Panic, c)
     | Some key \<Rightarrow> (case rand_read 16 c of
           ((False, _), c') \<Rightarrow> (Fail ''rand error'', c')
         | ((True, iv), c') \<Rightarrow> (Ret (cbc_seal (aes_encrypt key) 16 iv d), c')))"

definition decryptContent :: "byte list \<Rightarrow> (tls_connection, byte list) op" where
  "decryptContent d c = (case DecryptCipher (matBlock c) of
       None \<Rightarrow> (Panic, c)
     | Some key \<Rightarrow> (cbc_open (aes_decrypt key) 16 d, c))"

section \<open>What a record carries\<close>

lemma be_nat_two: "be_nat [a, b] = 256 * unat a + unat b"
  by (simp add: be_nat_def)

lemma be_bytes_two: "be_bytes 2 n = [of_nat (n div 256 mod 256), of_nat (n mod 256)]"
  by (simp add: numeral_2_eq_2)

lemma be_nat_be_bytes_two: "be_nat (be_bytes 2 n) = n mod 65536"
proof -
  have "n mod 65536 = 256 * (n div 256 mod 256) + n mod 256"
    using mod_mult2_eq [of n 256 256] by simp
  then show ?thesis by (simp add: be_bytes_two be_nat_two unat_byte)
qed

lemma tls_record_length: "length (tls_record t d) = 5 + length d"
  by (simp add: tls_record_def protocol_version_def)

definition record_of :: "byte \<Rightarrow> byte list \<Rightarrow> byte list \<Rightarrow> tls_ciphertext" where
  "record_of t lenbytes d = \<lparr>tlsType = t, version = protocol_version, ct_length = lenbytes, ct_data = d\<rparr>"

lemma record_of_simps [simp]:
  "tlsType (record_of t l d) = t" "ct_data (record_of t l d) = d"
  by (simp_all add: record_of_def)

lemma read_full_prefix:
  "inbox c = h @ rest \<Longrightarrow> n = length h \<Longrightarrow> read_full n c = (Ret h, c\<lparr>inbox := rest\<rparr>)"
  by (simp add: read_full_def)

text \<open>Reading a record that was written, with anything behind it.\<close>

lemma read_written:
  assumes "inbox c = tls_record t d @ rest"
  shows "readTLSContent c =
    (Ret (record_of t (be_bytes 2 (length d mod 65536)) (take (length d mod 65536) d)),
     c\<lparr>inbox := drop (length d mod 65536) d @ rest\<rparr>)"
proof -
  let ?n = "length d mod 65536"
  let ?h = "[t, 3, 3] @ be_bytes 2 ?n"
  have stream: "inbox c = ?h @ d @ rest" using assms by (simp add: tls_record_def protocol_version_def)
  have h: "length ?h = 5" "take 2 (drop 3 ?h) = be_bytes 2 ?n" "take 2 (drop 1 ?h) = protocol_version" "?h ! 0 = t"
    by (simp_all add: protocol_version_def)
  have "read_full 5 c = (Ret ?h, c\<lparr>inbox := d @ rest\<rparr>)"
    by (rule read_full_prefix [OF stream]) (simp only: h(1))
  moreover note h(2-4)
  moreover have "be_nat (be_bytes 2 ?n) = ?n" by (simp add: be_nat_be_bytes_two)
  moreover have "?n \<le> length d" by simp
  then have "read_full ?n (c\<lparr>inbox := d @ rest\<rparr>) = (Ret (take ?n d), c\<lparr>inbox := drop ?n d @ rest\<rparr>)"
    by (simp add: read_full_def)
  ultimately show ?thesis
    by (simp add: readTLSContent_def ret_op_def record_of_def Let_def)
qed

lemma read_record:
  assumes "inbox c = tls_record t d @ rest" "length d < 65536"
  shows "readTLSContent c = (Ret (record_of t (be_bytes 2 (length d)) d), c\<lparr>inbox := rest\<rparr>)"
  using read_written [OF assms(1)] assms(2) by simp
end
