(* ===== verification/TLS_Messages.thy ===== *)
theory TLS_Messages
  imports TLS_Record
begin

text \<open>
  The handshake messages: their payloads (\<^verbatim>\<open>TLS/tls/server-handlers.go\<close>,
  \<^verbatim>\<open>TLS/tls/client-handlers.go\<close>), the functions that take them apart
  (\<^verbatim>\<open>on...\<close> in \<^verbatim>\<open>tls-client-fsm.go\<close> and \<^verbatim>\<open>tls-server-fsm.go\<close>, \<^verbatim>\<open>readCertificateFromBuffer\<close>), the
  certificate files, and the key generation of both ends.

  RSA with PKCS 1 v1.5 padding, X.509 and PEM are taken as a record \<open>pki\<close> of functions; the
  theorems name what they need of it. Slicing beyond a buffer panics, as in Go.
\<close>

record pki =
  pem_decode :: "byte list \<Rightarrow> byte list option"
  parse_certificate :: "byte list \<Rightarrow> certificate option"
  parse_private_key :: "byte list \<Rightarrow> rsa_key option option"
  encrypt_pkcs1 :: "nat \<Rightarrow> rsa_key \<Rightarrow> byte list \<Rightarrow> byte list option"
  decrypt_pkcs1 :: "rsa_key \<Rightarrow> byte list \<Rightarrow> byte list option"
  sign_pkcs1 :: "rsa_key \<Rightarrow> byte list \<Rightarrow> byte list option"
  verify_pkcs1 :: "rsa_key \<Rightarrow> byte list \<Rightarrow> byte list \<Rightarrow> bool"

section \<open>Files\<close>

definition readCertificateFromFile :: "pki \<Rightarrow> byte list result \<Rightarrow> certificate result" where
  "readCertificateFromFile lib file = (case file of
       Fail e \<Rightarrow> Fail e
     | Panic \<Rightarrow> Panic
     | Ret contents \<Rightarrow> (case pem_decode lib contents of
           None \<Rightarrow> Fail ''failed to parse client certificate PEM''
         | Some block \<Rightarrow> (case parse_certificate lib block of
               None \<Rightarrow> Fail ''x509''
             | Some cert \<Rightarrow> Ret cert)))"

definition readPrivateKeyFromFile :: "pki \<Rightarrow> byte list result \<Rightarrow> rsa_key result" where
  "readPrivateKeyFromFile lib file = (case file of
       Fail e \<Rightarrow> Fail e
     | Panic \<Rightarrow> Panic
     | Ret contents \<Rightarrow> (case pem_decode lib contents of
           None \<Rightarrow> Fail ''failed to parse client key PEM''
         | Some block \<Rightarrow> (case parse_private_key lib block of
               None \<Rightarrow> Fail ''x509''
             | Some None \<Rightarrow> Fail ''client key is not an RSA private key''
             | Some (Some key) \<Rightarrow> Ret key)))"

text \<open>The fields of a new connection; \<open>world\<close> supplies the rest of the state.\<close>

definition no_keys :: key_material where
  "no_keys = \<lparr>ClientWriteMACKey = [], ServerWriteMACKey = [], ClientWriteKey = [], ServerWriteKey = [],
     ClientWriteIV = [], ServerWriteIV = [], EncryptCipher = None, DecryptCipher = None\<rparr>"

definition NewTLSConn ::
    "pki \<Rightarrow> bool \<Rightarrow> byte list result \<Rightarrow> byte list result \<Rightarrow> tls_connection \<Rightarrow> tls_connection result" where
  "NewTLSConn lib isServer certFile keyFile world =
     (case (readCertificateFromFile lib certFile, readPrivateKeyFromFile lib keyFile) of
        (Ret cert, Ret key) \<Rightarrow> Ret (world\<lparr>
          secParam := \<lparr>ConnectionEnd = (if isServer then ServerCE else ClientCE), Certificate = cert,
            CertificatePrivateKey = key, RemoteCertificate = None, MasterSecret = [],
            ClientRandom = [], ServerRandom = []\<rparr>,
          matBlock := no_keys, msgHistory := []\<rparr>)
      | _ \<Rightarrow> Fail ''Failed to read Certificate / Private key'')"

section \<open>Building messages\<close>

text \<open>The header: type, a zero byte, and the length in 16 bits.\<close>

definition handshake_message :: "byte \<Rightarrow> byte list \<Rightarrow> byte list" where
  "handshake_message t body = [t] @ [0] @ be_bytes 2 (length body mod 65536) @ body"

definition hello_body :: "byte list \<Rightarrow> byte list" where
  "hello_body random = protocol_version @ random @ [0x00] @ ([0x00, 0x02] @ [0x00, 0x2F]) @ [0x01, 0x00]"

definition ClientHelloPayload :: "tls_connection \<Rightarrow> byte list \<times> tls_connection" where
  "ClientHelloPayload c = (case rand_read 32 c of
     ((_, random), c') \<Rightarrow> (handshake_message ht_ClientHello (hello_body random),
        c'\<lparr>secParam := (secParam c')\<lparr>ClientRandom := random\<rparr>\<rparr>))"

definition ServerHelloPayload :: "tls_connection \<Rightarrow> byte list \<times> tls_connection" where
  "ServerHelloPayload c = (case rand_read 32 c of
     ((_, random), c') \<Rightarrow> (handshake_message ht_ServerHello (hello_body random),
        c'\<lparr>secParam := (secParam c')\<lparr>ServerRandom := random\<rparr>\<rparr>))"

text \<open>The certificate message of both ends: the chain length, the certificate length, the certificate.\<close>

definition certificate_payload :: "byte list \<Rightarrow> byte list" where
  "certificate_payload cert =
     (let certLen = length cert mod 65536;
          certPayloadLen = [0] @ be_bytes 2 certLen;
          certChainPayloadLen = [0] @ be_bytes 2 ((certLen + 3) mod 65536) in
      handshake_message ht_Certificate (certChainPayloadLen @ certPayloadLen @ cert))"

definition ServerHelloCertificatePayload :: "security_parameters \<Rightarrow> byte list" where
  "ServerHelloCertificatePayload sp = certificate_payload (Raw (Certificate sp))"

definition ClientHelloCertificatePayload :: "security_parameters \<Rightarrow> byte list" where
  "ClientHelloCertificatePayload sp = certificate_payload (Raw (Certificate sp))"

definition ServerHelloCertificateRequestPayload :: "byte list" where
  "ServerHelloCertificateRequestPayload = [ht_CertificateRequest] @ [0, 0, 0]"

definition ServerHelloDonePayload :: "byte list" where
  "ServerHelloDonePayload = [ht_ServerHelloDone] @ [0, 0, 0]"

text \<open>
  \<^verbatim>\<open>ClientHelloKeyExchangePayload\<close>: the message and the premaster secret. The remote certificate
  is used without a check that there is one, its key without a check that it is RSA. The
  encryption draws its padding from \<^verbatim>\<open>rand.Reader\<close> too, and reports when that fails;
  \<open>encrypt_pkcs1\<close> has the position of the source as its randomness.
\<close>

definition ClientHelloKeyExchangePayload ::
    "pki \<Rightarrow> (tls_connection, byte list \<times> byte list) op" where
  "ClientHelloKeyExchangePayload lib c = (case rand_read 46 c of
     ((_, random), c') \<Rightarrow>
       (let preMasterSecret = protocol_version @ random in
        case RemoteCertificate (secParam c') of
          None \<Rightarrow> (Panic, c')
        | Some cert \<Rightarrow> (case PublicKey cert of
              None \<Rightarrow> (Panic, c')
            | Some peersPublicKey \<Rightarrow>
                if rand_fail c' (rnd_pos c') then (Fail ''rand error'', c'\<lparr>rnd_pos := Suc (rnd_pos c')\<rparr>) else
                (case encrypt_pkcs1 lib (rnd_pos c') peersPublicKey preMasterSecret of
                   None \<Rightarrow> (Fail ''rsa'', c')
                 | Some encrypted \<Rightarrow>
                     (Ret (handshake_message ht_ClientKeyExchange
                         (be_bytes 2 (length encrypted mod 65536) @ encrypted), preMasterSecret), c')))))"

definition ClientHelloCertificateVerifyPayload ::
    "pki \<Rightarrow> byte list \<Rightarrow> security_parameters \<Rightarrow> byte list result" where
  "ClientHelloCertificateVerifyPayload lib messages sp =
     (case sign_pkcs1 lib (CertificatePrivateKey sp) (sha256 messages) of
        None \<Rightarrow> Fail ''failed to sign hash''
      | Some signature \<Rightarrow> Ret (handshake_message ht_CertificateVerify
          (be_bytes 2 (length signature mod 65536) @ signature)))"

definition ClientChangeCipherSpecPayload :: "byte list" where
  "ClientChangeCipherSpecPayload = [0x01]"

definition ServerChangeCipherSpecPayload :: "byte list" where
  "ServerChangeCipherSpecPayload = [0x01]"

text \<open>The two \<^verbatim>\<open>Finished\<close> messages have the same body: the client's could be sent back as the server's.\<close>

definition ClientFinishedPayload :: "byte list \<Rightarrow> security_parameters \<Rightarrow> byte list" where
  "ClientFinishedPayload messages sp =
     handshake_message ht_Finished (take 12 (sha256 (MasterSecret sp @ messages)))"

definition ServerFinishedPayload :: "byte list \<Rightarrow> security_parameters \<Rightarrow> byte list" where
  "ServerFinishedPayload messages sp =
     handshake_message ht_Finished (take 12 (sha256 (MasterSecret sp @ messages)))"

section \<open>Taking messages apart\<close>

text \<open>\<^verbatim>\<open>data[4:]\<close>, then \<^verbatim>\<open>data[2:34]\<close>.\<close>

definition hello_random :: "byte list \<Rightarrow> byte list result" where
  "hello_random d =
     (if length d < 4 then Panic
      else if length (drop 4 d) < 34 then Panic
      else Ret (take 32 (drop 2 (drop 4 d))))"

definition readCertificateFromBuffer :: "pki \<Rightarrow> byte list \<Rightarrow> certificate result" where
  "readCertificateFromBuffer lib d0 =
     (if length d0 < 4 then Panic
      else
        (let d = drop 4 d0 in
         if length d < 6 then Fail ''data too short to contain certificate information''
         else
           (let certLen = be_nat (take 3 (drop 3 d)) in
            if length d < 6 + certLen then Panic
            else (case parse_certificate lib (take certLen (drop 6 d)) of
                None \<Rightarrow> Fail ''failed to parse certificate''
              | Some cert \<Rightarrow> Ret cert))))"

definition onServerHello :: "byte list \<Rightarrow> (tls_connection, unit) op" where
  "onServerHello d c = (case hello_random d of
       Ret random \<Rightarrow> (Ret (), c\<lparr>secParam := (secParam c)\<lparr>ServerRandom := random\<rparr>\<rparr>)
     | Fail e \<Rightarrow> (Fail e, c)
     | Panic \<Rightarrow> (Panic, c))"

definition onClientHello :: "byte list \<Rightarrow> (tls_connection, unit) op" where
  "onClientHello d c = (case hello_random d of
       Ret random \<Rightarrow> (Ret (), c\<lparr>secParam := (secParam c)\<lparr>ClientRandom := random\<rparr>\<rparr>)
     | Fail e \<Rightarrow> (Fail e, c)
     | Panic \<Rightarrow> (Panic, c))"

text \<open>The certificate of the peer: parsed, stored, and not checked against anything.\<close>

definition onCertificate :: "pki \<Rightarrow> byte list \<Rightarrow> (tls_connection, unit) op" where
  "onCertificate lib d c = (case readCertificateFromBuffer lib d of
       Ret cert \<Rightarrow> (Ret (), c\<lparr>secParam := (secParam c)\<lparr>RemoteCertificate := Some cert\<rparr>\<rparr>)
     | Fail e \<Rightarrow> (Fail e, c)
     | Panic \<Rightarrow> (Panic, c))"

definition onServerCertificate :: "pki \<Rightarrow> byte list \<Rightarrow> (tls_connection, unit) op" where
  "onServerCertificate lib d = onCertificate lib d"

definition onClientCertificate :: "pki \<Rightarrow> byte list \<Rightarrow> (tls_connection, unit) op" where
  "onClientCertificate lib d = onCertificate lib d"

definition onClientKeyExchange :: "pki \<Rightarrow> byte list \<Rightarrow> security_parameters \<Rightarrow> byte list result" where
  "onClientKeyExchange lib d sp =
     (if length d < 4 then Panic
      else if length (drop 4 d) < 2 then Fail ''invalid ClientKeyExchange payload length''
      else (case decrypt_pkcs1 lib (CertificatePrivateKey sp) (drop 2 (drop 4 d)) of
          None \<Rightarrow> Fail ''failed to decrypt preMasterSecret''
        | Some preMasterSecret \<Rightarrow> Ret preMasterSecret))"

definition onCertificateVerify :: "pki \<Rightarrow> byte list \<Rightarrow> tls_connection \<Rightarrow> unit result" where
  "onCertificateVerify lib d0 c =
     (if length d0 < 4 then Panic
      else
        (let d = drop 4 d0 in
         if length d < 2 then Fail ''invalid CertificateVerify payload length''
         else
           (let n = be_nat (take 2 d) in
            if length d < 2 + n then Fail ''invalid CertificateVerify payload length''
            else
              (let sig = take n (drop 2 d) in
               case RemoteCertificate (secParam c) of
                 None \<Rightarrow> Panic
               | Some cert \<Rightarrow> (case PublicKey cert of
                     None \<Rightarrow> Fail ''invalid public key type in certificate''
                   | Some key \<Rightarrow>
                       if verify_pkcs1 lib key (sha256 (msgHistory c)) sig then Ret ()
                       else Fail ''certificate verify failed'')))))"

section \<open>Keys\<close>

text \<open>The key block of both ends; they differ in which key encrypts.\<close>

definition key_block :: "security_parameters \<Rightarrow> byte list" where
  "key_block sp = tls_prf (MasterSecret sp)
     (ascii ''key expansion'' @ ServerRandom sp @ ClientRandom sp) 128"

definition slice_of :: "nat \<Rightarrow> nat \<Rightarrow> 'a list \<Rightarrow> 'a list" where
  "slice_of i j xs = take (j - i) (drop i xs)"

definition generated_keys :: "byte list \<Rightarrow> key_material" where
  "generated_keys keyBlock = \<lparr>ClientWriteMACKey = slice_of 0 20 keyBlock,
     ServerWriteMACKey = slice_of 20 40 keyBlock, ClientWriteKey = slice_of 40 56 keyBlock,
     ServerWriteKey = slice_of 56 72 keyBlock, ClientWriteIV = slice_of 72 88 keyBlock,
     ServerWriteIV = slice_of 88 104 keyBlock, EncryptCipher = None, DecryptCipher = None\<rparr>"

definition ClientGenerateKeys :: "tls_connection \<Rightarrow> tls_connection" where
  "ClientGenerateKeys c =
     (let km = generated_keys (key_block (secParam c)) in
      c\<lparr>matBlock := km\<lparr>EncryptCipher := Some (ClientWriteKey km), DecryptCipher := Some (ServerWriteKey km)\<rparr>\<rparr>)"

definition ServerGenerateKeys :: "tls_connection \<Rightarrow> tls_connection" where
  "ServerGenerateKeys c =
     (let km = generated_keys (key_block (secParam c)) in
      c\<lparr>matBlock := km\<lparr>EncryptCipher := Some (ServerWriteKey km), DecryptCipher := Some (ClientWriteKey km)\<rparr>\<rparr>)"


section \<open>Messages survive the trip\<close>

lemma length_handshake_message [simp]: "length (handshake_message t body) = 4 + length body"
  by (simp add: handshake_message_def)

lemma handshake_message_parts [simp]:
  "drop 4 (handshake_message t body) = body" "handshake_message t body ! 0 = t"
  "handshake_message t body \<noteq> []" "hd (handshake_message t body) = t"
  by (simp_all add: handshake_message_def be_bytes_two)

lemma length_protocol_version [simp]: "length protocol_version = 2"
  by (simp add: protocol_version_def)

lemma hello_roundtrip:
  "length r = 32 \<Longrightarrow> hello_random (handshake_message t (hello_body r)) = Ret r"
  by (simp add: hello_random_def hello_body_def)

lemma be_nat_three: "be_nat (0 # bs) = be_nat bs"
  by (simp add: be_nat_def)

lemma certificate_roundtrip:
  assumes "length raw < 65536" "parse_certificate lib raw = Some cert"
  shows "readCertificateFromBuffer lib (certificate_payload raw) = Ret cert"
proof -
  let ?chain = "be_bytes 2 ((length raw + 3) mod 65536)"
  let ?body = "(0 # ?chain) @ (0 # be_bytes 2 (length raw)) @ raw"
  have payload: "certificate_payload raw = handshake_message ht_Certificate ?body"
    using assms(1) by (simp add: certificate_payload_def Let_def)
  have len: "length (0 # ?chain) = 3" "length (0 # be_bytes 2 (length raw)) = 3" by simp_all
  have "take 3 (drop 3 ?body) = 0 # be_bytes 2 (length raw)"
    using len by (metis append_eq_conv_conj)
  then have n: "be_nat (take 3 (drop 3 ?body)) = length raw"
    using assms(1) by (simp add: be_nat_three be_nat_be_bytes_two)
  have "drop 6 ?body = raw" "length ?body = 6 + length raw" by simp_all
  with n assms(2) show ?thesis
    by (simp add: readCertificateFromBuffer_def payload Let_def del: append.simps drop_append drop_Cons_numeral)
qed

lemma key_exchange_roundtrip:
  "onClientKeyExchange lib (handshake_message ht_ClientKeyExchange (be_bytes 2 n @ encrypted)) sp =
    (case decrypt_pkcs1 lib (CertificatePrivateKey sp) encrypted of
       None \<Rightarrow> Fail ''failed to decrypt preMasterSecret'' | Some p \<Rightarrow> Ret p)"
  by (simp add: onClientKeyExchange_def)

lemma certificate_verify_roundtrip:
  assumes "length sig < 65536" "RemoteCertificate (secParam c) = Some cert" "PublicKey cert = Some key"
  shows "onCertificateVerify lib
      (handshake_message ht_CertificateVerify (be_bytes 2 (length sig mod 65536) @ sig)) c =
    (if verify_pkcs1 lib key (sha256 (msgHistory c)) sig then Ret () else Fail ''certificate verify failed'')"
proof -
  have "be_nat (be_bytes 2 (length sig)) = length sig" using assms(1) by (simp add: be_nat_be_bytes_two)
  with assms show ?thesis by (simp add: onCertificateVerify_def Let_def)
qed

text \<open>The two ends' keys: of the right size, and crosswise equal.\<close>

lemma length_key_block: "length (key_block sp) = 128"
  by (simp add: key_block_def)

lemma generated_key_lengths:
  "length (ClientWriteKey (generated_keys (key_block sp))) = 16"
  "length (ServerWriteKey (generated_keys (key_block sp))) = 16"
  by (simp_all add: generated_keys_def slice_of_def length_key_block)

definition shared_secrets :: "security_parameters \<Rightarrow> security_parameters \<Rightarrow> bool" where
  "shared_secrets a b \<longleftrightarrow> MasterSecret a = MasterSecret b \<and> ClientRandom a = ClientRandom b \<and>
     ServerRandom a = ServerRandom b"

lemma keys_cross:
  assumes "shared_secrets (secParam c) (secParam s)"
  shows "EncryptCipher (matBlock (ClientGenerateKeys c)) = DecryptCipher (matBlock (ServerGenerateKeys s))"
    and "EncryptCipher (matBlock (ServerGenerateKeys s)) = DecryptCipher (matBlock (ClientGenerateKeys c))"
proof -
  have "key_block (secParam c) = key_block (secParam s)"
    using assms by (simp add: key_block_def shared_secrets_def)
  then show "EncryptCipher (matBlock (ClientGenerateKeys c)) = DecryptCipher (matBlock (ServerGenerateKeys s))"
    and "EncryptCipher (matBlock (ServerGenerateKeys s)) = DecryptCipher (matBlock (ClientGenerateKeys c))"
    by (simp_all add: ClientGenerateKeys_def ServerGenerateKeys_def Let_def)
qed

end
