(* ===== verification/TLS_Handshake.thy ===== *)
theory TLS_Handshake
  imports TLS_Messages
begin

text \<open>
  The handshake of both ends, \<^verbatim>\<open>TLS/tls/tls-client-fsm.go\<close> and \<^verbatim>\<open>TLS/tls/tls-server-fsm.go\<close>:
  one definition per function of the code, in its order, composed as the controllers compose
  them. The loop that receives the server's messages ends because every record it reads
  takes at least five bytes off the stream.
\<close>

section \<open>Common steps\<close>

text \<open>Writing a handshake message and remembering it.\<close>

definition send_handshake :: "byte list \<Rightarrow> (tls_connection, unit) op" where
  "send_handshake payload =
     then_op (writeTLSContent ct_Handshake payload)
       (modify_op (\<lambda>c. c\<lparr>msgHistory := msgHistory c @ payload\<rparr>))"

text \<open>Reading a handshake record of one expected type; its first byte is read without a check.\<close>

definition receive_handshake :: "byte \<Rightarrow> string \<Rightarrow> string \<Rightarrow> (tls_connection, byte list) op" where
  "receive_handshake t wrong_content wrong_type =
     bind_op readTLSContent (\<lambda>ct.
       if tlsType ct \<noteq> ct_Handshake then fail_op wrong_content
       else if ct_data ct = [] then panic_op
       else if ct_data ct ! 0 \<noteq> t then fail_op wrong_type
       else ret_op (ct_data ct))"

definition remember :: "byte list \<Rightarrow> (tls_connection, unit) op" where
  "remember d = modify_op (\<lambda>c. c\<lparr>msgHistory := msgHistory c @ d\<rparr>)"

definition send_finished_message ::
    "(byte list \<Rightarrow> security_parameters \<Rightarrow> byte list) \<Rightarrow> (tls_connection, unit) op" where
  "send_finished_message payload c =
     (case encryptContent (payload (msgHistory c) (secParam c)) c of
        (Ret encrypted, c') \<Rightarrow> writeTLSContent ct_Handshake encrypted c'
      | (Fail _, c') \<Rightarrow> (Fail ''failed to encrypt Finished payload'', c')
      | (Panic, c') \<Rightarrow> (Panic, c'))"

text \<open>
  Receiving \<^verbatim>\<open>ChangeCipherSpec\<close> and \<^verbatim>\<open>Finished\<close>: of the second only the type and the first byte
  of the plaintext are looked at.
\<close>

definition receive_finished_message :: "string \<Rightarrow> string \<Rightarrow> (tls_connection, unit) op" where
  "receive_finished_message no_ccs no_finished =
     bind_op readTLSContent (\<lambda>ct.
       if tlsType ct \<noteq> ct_ChangeCipherSpec then fail_op no_ccs
       else bind_op readTLSContent (\<lambda>ct2.
         bind_op (decryptContent (ct_data ct2)) (\<lambda>plain.
           if tlsType ct2 \<noteq> ct_Handshake then fail_op no_finished
           else if plain = [] then panic_op
           else if plain ! 0 \<noteq> ht_Finished then fail_op no_finished
           else ret_op ())))"

section \<open>The client\<close>

definition sendClientHello :: "(tls_connection, unit) op" where
  "sendClientHello c = (case ClientHelloPayload c of (payload, c') \<Rightarrow> send_handshake payload c')"

text \<open>One turn of the receiving loop; \<^term>\<open>True\<close> after \<^verbatim>\<open>ServerHelloDone\<close>.\<close>

definition client_message :: "pki \<Rightarrow> tls_ciphertext \<Rightarrow> (tls_connection, bool) op" where
  "client_message lib ct =
     (if tlsType ct \<noteq> ct_Handshake then fail_op ''unexpected content type''
      else then_op (remember (ct_data ct))
        (if ct_data ct = [] then panic_op
         else
           (let handshakeType = ct_data ct ! 0 in
            if handshakeType = ht_ServerHello
            then then_op (onServerHello (ct_data ct)) (ret_op False)
            else if handshakeType = ht_Certificate
            then then_op (onServerCertificate lib (ct_data ct)) (ret_op False)
            else if handshakeType = ht_CertificateRequest then ret_op False
            else if handshakeType = ht_ServerHelloDone then ret_op True
            else fail_op ''unexpected handshake message type'')))"

lemma readTLSContent_shorter:
  "readTLSContent c = (Ret ct, c') \<Longrightarrow> length (inbox c') < length (inbox c)"
  by (auto simp: readTLSContent_def read_full_def ret_op_def bind_op_def Let_def
      split: if_splits prod.splits result.splits)

lemma onServerHello_inbox [simp]: "inbox (snd (onServerHello d c)) = inbox c"
  by (simp add: onServerHello_def split: result.split)

lemma onCertificate_inbox [simp]: "inbox (snd (onCertificate lib d c)) = inbox c"
  by (simp add: onCertificate_def split: result.split)

lemma snd_then_ret_op [simp]: "snd (then_op m (ret_op a) s) = snd (m s)"
  by (cases "m s"; cases "fst (m s)") (auto simp: then_op_def bind_op_def ret_op_def split: result.splits)

lemma client_message_inbox: "client_message lib ct c = (r, c') \<Longrightarrow> inbox c' = inbox c"
proof -
  assume m: "client_message lib ct c = (r, c')"
  have "inbox (snd (client_message lib ct c)) = inbox c"
    by (simp add: client_message_def onServerCertificate_def remember_def modify_op_def ret_op_def fail_op_def panic_op_def Let_def)
  with m show ?thesis by simp
qed

function receiveServerMessages :: "pki \<Rightarrow> (tls_connection, unit) op" where
  "receiveServerMessages lib c =
     (case readTLSContent c of
        (Ret ct, c1) \<Rightarrow>
          (case client_message lib ct c1 of
             (Ret done, c2) \<Rightarrow> if done then (Ret (), c2) else receiveServerMessages lib c2
           | (Fail e, c2) \<Rightarrow> (Fail e, c2)
           | (Panic, c2) \<Rightarrow> (Panic, c2))
      | (Fail e, c1) \<Rightarrow> (Fail e, c1)
      | (Panic, c1) \<Rightarrow> (Panic, c1))"
  by pat_completeness auto
termination
  by (relation "measure (\<lambda>(lib, c). length (inbox c))")
    (auto dest!: readTLSContent_shorter [OF sym] client_message_inbox [OF sym])

declare receiveServerMessages.simps [simp del]

definition sendClientCertificate :: "(tls_connection, unit) op" where
  "sendClientCertificate c = send_handshake (ClientHelloCertificatePayload (secParam c)) c"

definition sendClientKeyExchange :: "pki \<Rightarrow> (tls_connection, byte list) op" where
  "sendClientKeyExchange lib =
     bind_op (ClientHelloKeyExchangePayload lib) (\<lambda>(payload, preMasterSecret).
       then_op (send_handshake payload) (ret_op preMasterSecret))"

definition sendCertificateVerify :: "pki \<Rightarrow> (tls_connection, unit) op" where
  "sendCertificateVerify lib c =
     bind_op (lift_op (ClientHelloCertificateVerifyPayload lib (msgHistory c) (secParam c)))
       send_handshake c"

definition sendChangeCipherSpec :: "(tls_connection, unit) op" where
  "sendChangeCipherSpec = writeTLSContent ct_ChangeCipherSpec ClientChangeCipherSpecPayload"

definition sendFinished :: "(tls_connection, unit) op" where
  "sendFinished = send_finished_message ClientFinishedPayload"

definition set_master_secret :: "byte list \<Rightarrow> tls_connection \<Rightarrow> tls_connection" where
  "set_master_secret preMasterSecret c =
     c\<lparr>secParam := (secParam c)\<lparr>MasterSecret :=
        generateMasterSecret (ClientRandom (secParam c)) (ServerRandom (secParam c)) preMasterSecret\<rparr>\<rparr>"

definition receiveServerFinished :: "(tls_connection, unit) op" where
  "receiveServerFinished = receive_finished_message
     ''expected ChangeCipherSpec from server'' ''invalid Finished message from server''"

definition HandshakeClientController :: "pki \<Rightarrow> (tls_connection, unit) op" where
  "HandshakeClientController lib =
     then_op sendClientHello
     (then_op (receiveServerMessages lib)
     (then_op sendClientCertificate
     (bind_op (sendClientKeyExchange lib) (\<lambda>preMasterSecret.
      then_op (sendCertificateVerify lib)
     (then_op (modify_op (\<lambda>c. ClientGenerateKeys (set_master_secret preMasterSecret c)))
     (then_op sendChangeCipherSpec
     (then_op sendFinished
      receiveServerFinished)))))))"

section \<open>The server\<close>

definition receiveClientHello :: "(tls_connection, unit) op" where
  "receiveClientHello =
     bind_op (receive_handshake ht_ClientHello
         ''expected Handshake content type for ClientHello'' ''expected ClientHello handshake type'') (\<lambda>d.
       then_op (remember d) (onClientHello d))"

definition sendServerHello :: "(tls_connection, unit) op" where
  "sendServerHello c = (case ServerHelloPayload c of (payload, c') \<Rightarrow> send_handshake payload c')"

definition sendServerCertificate :: "(tls_connection, unit) op" where
  "sendServerCertificate c = send_handshake (ServerHelloCertificatePayload (secParam c)) c"

definition sendCertificateRequest :: "(tls_connection, unit) op" where
  "sendCertificateRequest = send_handshake ServerHelloCertificateRequestPayload"

definition sendServerHelloDone :: "(tls_connection, unit) op" where
  "sendServerHelloDone = send_handshake ServerHelloDonePayload"

definition sendServerMessages :: "(tls_connection, unit) op" where
  "sendServerMessages = then_op sendServerHello (then_op sendServerCertificate
     (then_op sendCertificateRequest sendServerHelloDone))"

definition receiveClientCertificate :: "pki \<Rightarrow> (tls_connection, unit) op" where
  "receiveClientCertificate lib =
     bind_op (receive_handshake ht_Certificate
         ''expected Handshake content type for Client Certificate'' ''expected Certificate handshake type'') (\<lambda>d.
       then_op (remember d) (onClientCertificate lib d))"

definition receiveClientKeyExchange :: "pki \<Rightarrow> (tls_connection, byte list) op" where
  "receiveClientKeyExchange lib =
     bind_op (receive_handshake ht_ClientKeyExchange
         ''expected Handshake content type for ClientKeyExchange'' ''expected ClientKeyExchange handshake type'') (\<lambda>d.
       then_op (remember d) (\<lambda>c. (onClientKeyExchange lib d (secParam c), c)))"

text \<open>The signature is checked over the history without this message, which is added afterwards.\<close>

definition receiveCertificateVerify :: "pki \<Rightarrow> byte list \<Rightarrow> (tls_connection, unit) op" where
  "receiveCertificateVerify lib preMasterSecret =
     bind_op (receive_handshake ht_CertificateVerify
         ''expected Handshake content type for CertificateVerify'' ''expected CertificateVerify handshake type'') (\<lambda>d.
       then_op (\<lambda>c. (onCertificateVerify lib d c, c))
       (then_op (remember d)
         (modify_op (\<lambda>c. ServerGenerateKeys (set_master_secret preMasterSecret c)))))"

definition receiveClientChangeCipherSpecAndFinished :: "(tls_connection, unit) op" where
  "receiveClientChangeCipherSpecAndFinished = receive_finished_message
     ''expected ChangeCipherSpec from client'' ''invalid Finished message from client''"

definition sendChangeCipherSpecAndFinished :: "(tls_connection, unit) op" where
  "sendChangeCipherSpecAndFinished =
     then_op (writeTLSContent ct_ChangeCipherSpec ServerChangeCipherSpecPayload)
       (send_finished_message ServerFinishedPayload)"

definition HandshakeServerController :: "pki \<Rightarrow> (tls_connection, unit) op" where
  "HandshakeServerController lib =
     then_op receiveClientHello
     (then_op sendServerMessages
     (then_op (receiveClientCertificate lib)
     (bind_op (receiveClientKeyExchange lib) (\<lambda>preMasterSecret.
      then_op (receiveCertificateVerify lib preMasterSecret)
     (then_op receiveClientChangeCipherSpecAndFinished
      sendChangeCipherSpecAndFinished)))))"
end
