(* ===== verification/TLS_Run.thy ===== *)
theory TLS_Run
  imports TLS_Handshake
begin

text \<open>
  The joint run of the two controllers when no call of the world fails. \<open>conn_at\<close> is the
  state of a connection at a point of the handshake, and \<open>runs m P x Q\<close> says that \<open>m\<close>
  started where \<open>P\<close> holds returns \<open>x\<close> and ends where \<open>Q\<close> holds; each step of the handshake
  has one such lemma, and the two controllers are their sequence.
\<close>

section \<open>Runs\<close>

definition runs :: "('s, 'a) op \<Rightarrow> ('s \<Rightarrow> bool) \<Rightarrow> 'a \<Rightarrow> ('s \<Rightarrow> bool) \<Rightarrow> bool" where
  "runs m P x Q \<longleftrightarrow> (\<forall>s. P s \<longrightarrow> (\<exists>s'. m s = (Ret x, s') \<and> Q s'))"

lemma runsI: "(\<And>s. P s \<Longrightarrow> \<exists>s'. m s = (Ret x, s') \<and> Q s') \<Longrightarrow> runs m P x Q"
  by (simp add: runs_def)

lemma runsD: "runs m P x Q \<Longrightarrow> P s \<Longrightarrow> \<exists>s'. m s = (Ret x, s') \<and> Q s'"
  by (simp add: runs_def)

lemma runs_bind: "runs m P x Q \<Longrightarrow> runs (f x) Q y R \<Longrightarrow> runs (bind_op m f) P y R"
  by (fastforce simp: runs_def)

lemma runs_then: "runs m P x Q \<Longrightarrow> runs k Q y R \<Longrightarrow> runs (then_op m k) P y R"
  by (fastforce simp: runs_def)

lemma runs_ret: "runs (ret_op x) P x P"
  by (simp add: runs_def ret_op_def)

section \<open>The state of a connection\<close>

definition no_faults :: "tls_connection \<Rightarrow> bool" where
  "no_faults c \<longleftrightarrow> (\<forall>i. \<not> rand_fail c i) \<and> (\<forall>i. \<not> write_fail c i)"

definition conn_at :: "(nat \<Rightarrow> byte) \<Rightarrow> security_parameters \<Rightarrow> key_material \<Rightarrow> byte list \<Rightarrow> byte list \<Rightarrow>
    byte list \<Rightarrow> nat \<Rightarrow> tls_connection \<Rightarrow> bool" where
  "conn_at r sp mb hist ib ob pos c \<longleftrightarrow> no_faults c \<and> rnd c = r \<and> secParam c = sp \<and> matBlock c = mb \<and>
     msgHistory c = hist \<and> inbox c = ib \<and> outbox c = ob \<and> rnd_pos c = pos"

definition drawn :: "(nat \<Rightarrow> byte) \<Rightarrow> nat \<Rightarrow> nat \<Rightarrow> byte list" where
  "drawn r pos n = map r [pos..<pos + n]"

lemma length_drawn [simp]: "length (drawn r pos n) = n"
  by (simp add: drawn_def)

lemma runs_write:
  "runs (writeTLSContent t d) (conn_at r sp mb h ib ob pos) () (conn_at r sp mb h ib (ob @ tls_record t d) pos)"
  by (rule runsI) (auto simp: conn_at_def no_faults_def writeTLSContent_def conn_write_def)

lemma runs_send:
  "runs (send_handshake d) (conn_at r sp mb h ib ob pos) ()
    (conn_at r sp mb (h @ d) ib (ob @ tls_record ct_Handshake d) pos)"
  unfolding send_handshake_def
  by (rule runs_then [OF runs_write], rule runsI) (auto simp: conn_at_def no_faults_def modify_op_def)

lemma runs_remember:
  "runs (remember d) (conn_at r sp mb h ib ob pos) () (conn_at r sp mb (h @ d) ib ob pos)"
  by (rule runsI) (auto simp: remember_def modify_op_def conn_at_def no_faults_def)

lemma runs_read:
  "length d < 65536 \<Longrightarrow>
    runs readTLSContent (conn_at r sp mb h (tls_record t d @ ib) ob pos)
      (record_of t (be_bytes 2 (length d)) d) (conn_at r sp mb h ib ob pos)"
  by (rule runsI) (auto simp: conn_at_def no_faults_def read_record)

lemma runs_receive:
  assumes "length d < 65536" "d \<noteq> []" "d ! 0 = t"
  shows "runs (receive_handshake t e1 e2) (conn_at r sp mb h (tls_record ct_Handshake d @ ib) ob pos) d
    (conn_at r sp mb h ib ob pos)"
  unfolding receive_handshake_def
  by (rule runs_bind [OF runs_read [OF assms(1)]]) (simp add: assms(2,3) runs_ret)

lemma rand_read_at:
  "conn_at r sp mb h ib ob pos c \<Longrightarrow>
    \<exists>c'. rand_read n c = ((True, drawn r pos n), c') \<and> conn_at r sp mb h ib ob (pos + n) c'"
  by (auto simp: conn_at_def no_faults_def rand_read_def drawn_def)

section \<open>Hello\<close>

lemma runs_client_hello:
  "runs sendClientHello (conn_at r sp mb h ib ob pos) ()
    (conn_at r (sp\<lparr>ClientRandom := drawn r pos 32\<rparr>) mb
       (h @ handshake_message ht_ClientHello (hello_body (drawn r pos 32))) ib
       (ob @ tls_record ct_Handshake (handshake_message ht_ClientHello (hello_body (drawn r pos 32)))) (pos + 32))"
proof (rule runsI)
  fix c assume "conn_at r sp mb h ib ob pos c"
  then obtain c1 where c1: "rand_read 32 c = ((True, drawn r pos 32), c1)" "conn_at r sp mb h ib ob (pos + 32) c1"
    using rand_read_at by blast
  let ?c2 = "c1\<lparr>secParam := (secParam c1)\<lparr>ClientRandom := drawn r pos 32\<rparr>\<rparr>"
  have "conn_at r (sp\<lparr>ClientRandom := drawn r pos 32\<rparr>) mb h ib ob (pos + 32) ?c2"
    using c1(2) by (simp add: conn_at_def no_faults_def)
  from runsD [OF runs_send this] c1(1) show "\<exists>s'. sendClientHello c = (Ret (), s') \<and>
    conn_at r (sp\<lparr>ClientRandom := drawn r pos 32\<rparr>) mb
       (h @ handshake_message ht_ClientHello (hello_body (drawn r pos 32))) ib
       (ob @ tls_record ct_Handshake (handshake_message ht_ClientHello (hello_body (drawn r pos 32)))) (pos + 32) s'"
    by (simp add: sendClientHello_def ClientHelloPayload_def)
qed

lemma runs_server_hello:
  "runs sendServerHello (conn_at r sp mb h ib ob pos) ()
    (conn_at r (sp\<lparr>ServerRandom := drawn r pos 32\<rparr>) mb
       (h @ handshake_message ht_ServerHello (hello_body (drawn r pos 32))) ib
       (ob @ tls_record ct_Handshake (handshake_message ht_ServerHello (hello_body (drawn r pos 32)))) (pos + 32))"
proof (rule runsI)
  fix c assume "conn_at r sp mb h ib ob pos c"
  then obtain c1 where c1: "rand_read 32 c = ((True, drawn r pos 32), c1)" "conn_at r sp mb h ib ob (pos + 32) c1"
    using rand_read_at by blast
  let ?c2 = "c1\<lparr>secParam := (secParam c1)\<lparr>ServerRandom := drawn r pos 32\<rparr>\<rparr>"
  have "conn_at r (sp\<lparr>ServerRandom := drawn r pos 32\<rparr>) mb h ib ob (pos + 32) ?c2"
    using c1(2) by (simp add: conn_at_def no_faults_def)
  from runsD [OF runs_send this] c1(1) show "\<exists>s'. sendServerHello c = (Ret (), s') \<and>
    conn_at r (sp\<lparr>ServerRandom := drawn r pos 32\<rparr>) mb
       (h @ handshake_message ht_ServerHello (hello_body (drawn r pos 32))) ib
       (ob @ tls_record ct_Handshake (handshake_message ht_ServerHello (hello_body (drawn r pos 32)))) (pos + 32) s'"
    by (simp add: sendServerHello_def ServerHelloPayload_def)
qed

lemma length_hello: "length random = 32 \<Longrightarrow> length (handshake_message t (hello_body random)) < 65536"
  by (simp add: hello_body_def)

lemma runs_onClientHello:
  "length random = 32 \<Longrightarrow>
    runs (onClientHello (handshake_message t (hello_body random))) (conn_at r sp mb h ib ob pos) ()
      (conn_at r (sp\<lparr>ClientRandom := random\<rparr>) mb h ib ob pos)"
  by (rule runsI) (auto simp: onClientHello_def hello_roundtrip conn_at_def no_faults_def)

lemma runs_onServerHello:
  "length random = 32 \<Longrightarrow>
    runs (onServerHello (handshake_message t (hello_body random))) (conn_at r sp mb h ib ob pos) ()
      (conn_at r (sp\<lparr>ServerRandom := random\<rparr>) mb h ib ob pos)"
  by (rule runsI) (auto simp: onServerHello_def hello_roundtrip conn_at_def no_faults_def)

lemma runs_receiveClientHello:
  assumes "length random = 32"
  shows "runs receiveClientHello
    (conn_at r sp mb h (tls_record ct_Handshake (handshake_message ht_ClientHello (hello_body random)) @ ib) ob pos) ()
    (conn_at r (sp\<lparr>ClientRandom := random\<rparr>) mb (h @ handshake_message ht_ClientHello (hello_body random)) ib ob pos)"
  unfolding receiveClientHello_def
  by (rule runs_bind [OF runs_receive [OF length_hello [OF assms]]], simp, simp)
    (rule runs_then [OF runs_remember runs_onClientHello [OF assms]])

section \<open>Certificates\<close>

lemma runs_onCertificate:
  assumes "length (Raw cert) < 65000" "parse_certificate lib (Raw cert) = Some cert"
  shows "runs (onCertificate lib (certificate_payload (Raw cert))) (conn_at r sp mb h ib ob pos) ()
    (conn_at r (sp\<lparr>RemoteCertificate := Some cert\<rparr>) mb h ib ob pos)"
proof -
  have "length (Raw cert) < 65536" using assms(1) by simp
  note rt = certificate_roundtrip [OF this assms(2)]
  show ?thesis by (rule runsI) (auto simp: onCertificate_def rt conn_at_def no_faults_def)
qed

lemma certificate_payload_parts:
  "length raw < 65000 \<Longrightarrow> length (certificate_payload raw) < 65536"
  "certificate_payload raw \<noteq> []" "certificate_payload raw ! 0 = ht_Certificate"
  by (simp_all add: certificate_payload_def Let_def)

lemma runs_receiveClientCertificate:
  assumes "length (Raw cert) < 65000" "parse_certificate lib (Raw cert) = Some cert"
  shows "runs (receiveClientCertificate lib)
    (conn_at r sp mb h (tls_record ct_Handshake (certificate_payload (Raw cert)) @ ib) ob pos) ()
    (conn_at r (sp\<lparr>RemoteCertificate := Some cert\<rparr>) mb (h @ certificate_payload (Raw cert)) ib ob pos)"
  unfolding receiveClientCertificate_def onClientCertificate_def
  by (rule runs_bind [OF runs_receive])
    (rule certificate_payload_parts assms(1) runs_then [OF runs_remember runs_onCertificate [OF assms]])+


section \<open>The client's receiving loop\<close>

lemma runs_loop_step:
  assumes "length d < 65536"
    and "runs (client_message lib (record_of ct_Handshake (be_bytes 2 (length d)) d)) (conn_at r sp mb h ib ob pos) False Q"
    and "runs (receiveServerMessages lib) Q () R"
  shows "runs (receiveServerMessages lib) (conn_at r sp mb h (tls_record ct_Handshake d @ ib) ob pos) () R"
proof (rule runsI)
  fix c assume c: "conn_at r sp mb h (tls_record ct_Handshake d @ ib) ob pos c"
  obtain c1 where c1: "readTLSContent c = (Ret (record_of ct_Handshake (be_bytes 2 (length d)) d), c1)"
      "conn_at r sp mb h ib ob pos c1"
    using runsD [OF runs_read [OF assms(1)] c] by blast
  obtain c2 where c2: "client_message lib (record_of ct_Handshake (be_bytes 2 (length d)) d) c1 = (Ret False, c2)" "Q c2"
    using runsD [OF assms(2) c1(2)] by blast
  from runsD [OF assms(3) c2(2)] show "\<exists>c'. receiveServerMessages lib c = (Ret (), c') \<and> R c'"
    by (subst receiveServerMessages.simps) (simp add: c1(1) c2(1))
qed

lemma runs_loop_done:
  assumes "length d < 65536"
    and "runs (client_message lib (record_of ct_Handshake (be_bytes 2 (length d)) d)) (conn_at r sp mb h ib ob pos) True Q"
  shows "runs (receiveServerMessages lib) (conn_at r sp mb h (tls_record ct_Handshake d @ ib) ob pos) () Q"
proof (rule runsI)
  fix c assume c: "conn_at r sp mb h (tls_record ct_Handshake d @ ib) ob pos c"
  obtain c1 where c1: "readTLSContent c = (Ret (record_of ct_Handshake (be_bytes 2 (length d)) d), c1)"
      "conn_at r sp mb h ib ob pos c1"
    using runsD [OF runs_read [OF assms(1)] c] by blast
  obtain c2 where c2: "client_message lib (record_of ct_Handshake (be_bytes 2 (length d)) d) c1 = (Ret True, c2)" "Q c2"
    using runsD [OF assms(2) c1(2)] by blast
  then show "\<exists>c'. receiveServerMessages lib c = (Ret (), c') \<and> Q c'"
    by (subst receiveServerMessages.simps) (simp add: c1(1))
qed

lemma runs_client_message:
  assumes "d \<noteq> []" "t = d ! 0"
    and "t = ht_ServerHello \<Longrightarrow> runs (onServerHello d) (conn_at r sp mb (h @ d) ib ob pos) () Q \<and> \<not> done"
    and "t = ht_Certificate \<Longrightarrow> runs (onServerCertificate lib d) (conn_at r sp mb (h @ d) ib ob pos) () Q \<and> \<not> done"
    and "t = ht_CertificateRequest \<Longrightarrow> Q = conn_at r sp mb (h @ d) ib ob pos \<and> \<not> done"
    and "t = ht_ServerHelloDone \<Longrightarrow> Q = conn_at r sp mb (h @ d) ib ob pos \<and> done"
    and "t \<in> {ht_ServerHello, ht_Certificate, ht_CertificateRequest, ht_ServerHelloDone}"
  shows "runs (client_message lib (record_of ct_Handshake l d)) (conn_at r sp mb h ib ob pos) done Q"
proof -
  have cm: "client_message lib (record_of ct_Handshake l d) = then_op (remember d)
     (if t = ht_ServerHello then then_op (onServerHello d) (ret_op False)
      else if t = ht_Certificate then then_op (onServerCertificate lib d) (ret_op False)
      else if t = ht_CertificateRequest then ret_op False
      else if t = ht_ServerHelloDone then ret_op True
      else fail_op ''unexpected handshake message type'')"
    unfolding client_message_def record_of_simps Let_def assms(2) using assms(1) by simp
  have "runs (if t = ht_ServerHello then then_op (onServerHello d) (ret_op False)
      else if t = ht_Certificate then then_op (onServerCertificate lib d) (ret_op False)
      else if t = ht_CertificateRequest then ret_op False
      else if t = ht_ServerHelloDone then ret_op True
      else fail_op ''unexpected handshake message type'') (conn_at r sp mb (h @ d) ib ob pos) done Q"
    using assms(3-7) by (auto intro: runs_then runs_ret simp: ht_defs)
  then show ?thesis unfolding cm by (rule runs_then [OF runs_remember])
qed

lemma ht_distinct:
  "ht_ServerHello \<noteq> ht_Certificate" "ht_ServerHello \<noteq> ht_CertificateRequest" "ht_ServerHello \<noteq> ht_ServerHelloDone"
  "ht_Certificate \<noteq> ht_CertificateRequest" "ht_Certificate \<noteq> ht_ServerHelloDone"
  "ht_CertificateRequest \<noteq> ht_ServerHelloDone"
  by (simp_all add: ht_defs)

text \<open>What the server says between its hello and \<^verbatim>\<open>ServerHelloDone\<close>.\<close>

definition server_flight :: "byte list \<Rightarrow> byte list \<Rightarrow> byte list list" where
  "server_flight random raw = [handshake_message ht_ServerHello (hello_body random), certificate_payload raw,
     ServerHelloCertificateRequestPayload, ServerHelloDonePayload]"

definition handshake_records :: "byte list list \<Rightarrow> byte list" where
  "handshake_records ds = concat (map (tls_record ct_Handshake) ds)"

lemma runs_receiveServerMessages:
  assumes "length random = 32" "length (Raw cert) < 65000" "parse_certificate lib (Raw cert) = Some cert"
  shows "runs (receiveServerMessages lib)
    (conn_at r sp mb h (handshake_records (server_flight random (Raw cert)) @ ib) ob pos) ()
    (conn_at r (sp\<lparr>ServerRandom := random, RemoteCertificate := Some cert\<rparr>) mb
       (h @ concat (server_flight random (Raw cert))) ib ob pos)"
proof -
  let ?sh = "handshake_message ht_ServerHello (hello_body random)" and ?sc = "certificate_payload (Raw cert)"
  let ?sp1 = "sp\<lparr>ServerRandom := random\<rparr>"
  let ?sp2 = "?sp1\<lparr>RemoteCertificate := Some cert\<rparr>"
  let ?cr = ServerHelloCertificateRequestPayload and ?sd = ServerHelloDonePayload
  have parts: "?cr \<noteq> []" "?cr ! 0 = ht_CertificateRequest" "length ?cr < 65536"
      "?sd \<noteq> []" "?sd ! 0 = ht_ServerHelloDone" "length ?sd < 65536"
    by (simp_all add: ServerHelloCertificateRequestPayload_def ServerHelloDonePayload_def)
  have m1: "runs (client_message lib (record_of ct_Handshake l ?sh)) (conn_at r sp mb h ib' ob pos) False
      (conn_at r ?sp1 mb (h @ ?sh) ib' ob pos)" for l ib'
    by (rule runs_client_message [where t = ht_ServerHello])
      (simp_all add: ht_distinct runs_onServerHello [OF assms(1)] del: ht_defs)
  have m2: "runs (client_message lib (record_of ct_Handshake l ?sc)) (conn_at r ?sp1 mb h' ib' ob pos) False
      (conn_at r ?sp2 mb (h' @ ?sc) ib' ob pos)" for l ib' h'
    by (rule runs_client_message [where t = ht_Certificate])
      (simp_all add: ht_distinct ht_distinct [symmetric] certificate_payload_parts runs_onCertificate [OF assms(2,3)] onServerCertificate_def)
  have m3: "runs (client_message lib (record_of ct_Handshake l ?cr)) (conn_at r ?sp2 mb h' ib' ob pos) False
      (conn_at r ?sp2 mb (h' @ ?cr) ib' ob pos)" for l ib' h'
    by (rule runs_client_message [where t = ht_CertificateRequest])
      (simp_all add: ht_distinct ht_distinct [symmetric] parts)
  have m4: "runs (client_message lib (record_of ct_Handshake l ?sd)) (conn_at r ?sp2 mb h' ib' ob pos) True
      (conn_at r ?sp2 mb (h' @ ?sd) ib' ob pos)" for l ib' h'
    by (rule runs_client_message [where t = ht_ServerHelloDone])
      (simp_all add: ht_distinct ht_distinct [symmetric] parts)
  have "runs (receiveServerMessages lib)
    (conn_at r sp mb h (tls_record ct_Handshake ?sh @ tls_record ct_Handshake ?sc @
       tls_record ct_Handshake ?cr @ tls_record ct_Handshake ?sd @ ib) ob pos) ()
    (conn_at r ?sp2 mb ((((h @ ?sh) @ ?sc) @ ?cr) @ ?sd) ib ob pos)"
    by (rule runs_loop_step [OF length_hello [OF assms(1)] m1],
        rule runs_loop_step [OF certificate_payload_parts(1) [OF assms(2)] m2],
        rule runs_loop_step [OF parts(3) m3], rule runs_loop_done [OF parts(6) m4])
  then show ?thesis by (simp add: server_flight_def handshake_records_def)
qed

lemma runs_sendServerMessages:
  "runs sendServerMessages (conn_at r sp mb h ib ob pos) ()
    (conn_at r (sp\<lparr>ServerRandom := drawn r pos 32\<rparr>) mb
       (h @ concat (server_flight (drawn r pos 32) (Raw (Certificate sp)))) ib
       (ob @ handshake_records (server_flight (drawn r pos 32) (Raw (Certificate sp)))) (pos + 32))"
proof -
  let ?sp = "sp\<lparr>ServerRandom := drawn r pos 32\<rparr>"
  have cert: "runs sendServerCertificate (conn_at r ?sp mb h' ib ob' p) ()
      (conn_at r ?sp mb (h' @ certificate_payload (Raw (Certificate sp))) ib
        (ob' @ tls_record ct_Handshake (certificate_payload (Raw (Certificate sp)))) p)" for h' ob' p
  proof (rule runsI)
    fix c assume c: "conn_at r ?sp mb h' ib ob' p c"
    then have "secParam c = ?sp" by (simp add: conn_at_def)
    with runsD [OF runs_send c] show "\<exists>s'. sendServerCertificate c = (Ret (), s') \<and>
      conn_at r ?sp mb (h' @ certificate_payload (Raw (Certificate sp))) ib
        (ob' @ tls_record ct_Handshake (certificate_payload (Raw (Certificate sp)))) p s'"
      by (simp add: sendServerCertificate_def ServerHelloCertificatePayload_def)
  qed
  show ?thesis
    unfolding sendServerMessages_def sendCertificateRequest_def sendServerHelloDone_def
    using runs_then [OF runs_server_hello runs_then [OF cert runs_then [OF runs_send runs_send]]]
    by (simp add: server_flight_def handshake_records_def)
qed


section \<open>Key exchange and signature\<close>

lemma runs_sendClientCertificate:
  "runs sendClientCertificate (conn_at r sp mb h ib ob pos) ()
    (conn_at r sp mb (h @ certificate_payload (Raw (Certificate sp))) ib
       (ob @ tls_record ct_Handshake (certificate_payload (Raw (Certificate sp)))) pos)"
proof (rule runsI)
  fix c assume c: "conn_at r sp mb h ib ob pos c"
  then have "secParam c = sp" by (simp add: conn_at_def)
  with runsD [OF runs_send c] show "\<exists>s'. sendClientCertificate c = (Ret (), s') \<and>
    conn_at r sp mb (h @ certificate_payload (Raw (Certificate sp))) ib
       (ob @ tls_record ct_Handshake (certificate_payload (Raw (Certificate sp)))) pos s'"
    by (simp add: sendClientCertificate_def ClientHelloCertificatePayload_def)
qed

definition key_exchange_message :: "byte list \<Rightarrow> byte list" where
  "key_exchange_message encrypted =
     handshake_message ht_ClientKeyExchange (be_bytes 2 (length encrypted mod 65536) @ encrypted)"

definition verify_message :: "byte list \<Rightarrow> byte list" where
  "verify_message sig = handshake_message ht_CertificateVerify (be_bytes 2 (length sig mod 65536) @ sig)"

lemma message_parts:
  "key_exchange_message e \<noteq> []" "key_exchange_message e ! 0 = ht_ClientKeyExchange"
  "length e < 65000 \<Longrightarrow> length (key_exchange_message e) < 65536"
  "verify_message e \<noteq> []" "verify_message e ! 0 = ht_CertificateVerify"
  "length e < 65000 \<Longrightarrow> length (verify_message e) < 65536"
  by (simp_all add: key_exchange_message_def verify_message_def)

lemma runs_sendClientKeyExchange:
  assumes "RemoteCertificate sp = Some cert" "PublicKey cert = Some pk"
    and "encrypt_pkcs1 lib (pos + 46) pk (protocol_version @ drawn r pos 46) = Some encrypted"
  shows "runs (sendClientKeyExchange lib) (conn_at r sp mb h ib ob pos) (protocol_version @ drawn r pos 46)
    (conn_at r sp mb (h @ key_exchange_message encrypted) ib
       (ob @ tls_record ct_Handshake (key_exchange_message encrypted)) (pos + 46))"
proof -
  have "runs (ClientHelloKeyExchangePayload lib) (conn_at r sp mb h ib ob pos)
      (key_exchange_message encrypted, protocol_version @ drawn r pos 46) (conn_at r sp mb h ib ob (pos + 46))"
  proof (rule runsI)
    fix c assume "conn_at r sp mb h ib ob pos c"
    then obtain c1 where c1: "rand_read 46 c = ((True, drawn r pos 46), c1)" "conn_at r sp mb h ib ob (pos + 46) c1"
      using rand_read_at by blast
    with assms show "\<exists>s'. ClientHelloKeyExchangePayload lib c =
        (Ret (key_exchange_message encrypted, protocol_version @ drawn r pos 46), s') \<and>
        conn_at r sp mb h ib ob (pos + 46) s'"
      by (auto simp: ClientHelloKeyExchangePayload_def conn_at_def no_faults_def key_exchange_message_def Let_def)
  qed
  then show ?thesis
    unfolding sendClientKeyExchange_def
    by (rule runs_bind) (simp, rule runs_then [OF runs_send runs_ret])
qed

lemma runs_receiveClientKeyExchange:
  assumes "length encrypted < 65000" "decrypt_pkcs1 lib (CertificatePrivateKey sp) encrypted = Some pms"
  shows "runs (receiveClientKeyExchange lib)
    (conn_at r sp mb h (tls_record ct_Handshake (key_exchange_message encrypted) @ ib) ob pos) pms
    (conn_at r sp mb (h @ key_exchange_message encrypted) ib ob pos)"
proof -
  have "runs (\<lambda>c. (onClientKeyExchange lib (key_exchange_message encrypted) (secParam c), c))
      (conn_at r sp mb h' ib ob pos) pms (conn_at r sp mb h' ib ob pos)" for h'
    using key_exchange_roundtrip [of lib "length encrypted mod 65536" encrypted sp] assms(2)
    by (intro runsI) (auto simp: conn_at_def key_exchange_message_def)
  then show ?thesis
    unfolding receiveClientKeyExchange_def
    by (intro runs_bind [OF runs_receive [OF message_parts(3) [OF assms(1)] message_parts(1,2)]]
        runs_then [OF runs_remember])
qed

lemma runs_sendCertificateVerify:
  assumes "sign_pkcs1 lib (CertificatePrivateKey sp) (sha256 h) = Some sig"
  shows "runs (sendCertificateVerify lib) (conn_at r sp mb h ib ob pos) ()
    (conn_at r sp mb (h @ verify_message sig) ib (ob @ tls_record ct_Handshake (verify_message sig)) pos)"
proof (rule runsI)
  fix c assume c: "conn_at r sp mb h ib ob pos c"
  then have "ClientHelloCertificateVerifyPayload lib (msgHistory c) (secParam c) = Ret (verify_message sig)"
    using assms by (simp add: conn_at_def ClientHelloCertificateVerifyPayload_def verify_message_def)
  with runsD [OF runs_send c] show "\<exists>s'. sendCertificateVerify lib c = (Ret (), s') \<and>
    conn_at r sp mb (h @ verify_message sig) ib (ob @ tls_record ct_Handshake (verify_message sig)) pos s'"
    by (simp add: sendCertificateVerify_def lift_op_def)
qed

text \<open>The parameters and keys once the master secret is there.\<close>

definition with_secret :: "byte list \<Rightarrow> security_parameters \<Rightarrow> security_parameters" where
  "with_secret pms sp = sp\<lparr>MasterSecret := generateMasterSecret (ClientRandom sp) (ServerRandom sp) pms\<rparr>"

definition client_keys :: "security_parameters \<Rightarrow> key_material" where
  "client_keys sp = (let km = generated_keys (key_block sp) in
     km\<lparr>EncryptCipher := Some (ClientWriteKey km), DecryptCipher := Some (ServerWriteKey km)\<rparr>)"

definition server_keys :: "security_parameters \<Rightarrow> key_material" where
  "server_keys sp = (let km = generated_keys (key_block sp) in
     km\<lparr>EncryptCipher := Some (ServerWriteKey km), DecryptCipher := Some (ClientWriteKey km)\<rparr>)"

lemma runs_client_keys:
  "runs (modify_op (\<lambda>c. ClientGenerateKeys (set_master_secret pms c))) (conn_at r sp mb h ib ob pos) ()
    (conn_at r (with_secret pms sp) (client_keys (with_secret pms sp)) h ib ob pos)"
  by (rule runsI) (simp add: modify_op_def ClientGenerateKeys_def set_master_secret_def with_secret_def
      client_keys_def conn_at_def no_faults_def Let_def)

lemma runs_server_keys:
  "runs (modify_op (\<lambda>c. ServerGenerateKeys (set_master_secret pms c))) (conn_at r sp mb h ib ob pos) ()
    (conn_at r (with_secret pms sp) (server_keys (with_secret pms sp)) h ib ob pos)"
  by (rule runsI) (simp add: modify_op_def ServerGenerateKeys_def set_master_secret_def with_secret_def
      server_keys_def conn_at_def no_faults_def Let_def)

lemma runs_receiveCertificateVerify:
  assumes "length sig < 65000" "RemoteCertificate sp = Some cert" "PublicKey cert = Some pk"
    and "verify_pkcs1 lib pk (sha256 h) sig"
  shows "runs (receiveCertificateVerify lib pms)
    (conn_at r sp mb h (tls_record ct_Handshake (verify_message sig) @ ib) ob pos) ()
    (conn_at r (with_secret pms sp) (server_keys (with_secret pms sp)) (h @ verify_message sig) ib ob pos)"
proof -
  have "length sig < 65536" using assms(1) by simp
  then have "runs (\<lambda>c. (onCertificateVerify lib (verify_message sig) c, c))
      (conn_at r sp mb h ib ob pos) () (conn_at r sp mb h ib ob pos)"
    using certificate_verify_roundtrip [of sig _ cert pk lib] assms(2-4)
    by (intro runsI) (auto simp: conn_at_def verify_message_def)
  then show ?thesis
    unfolding receiveCertificateVerify_def
    by (intro runs_bind [OF runs_receive [OF message_parts(6) [OF assms(1)] message_parts(4,5)]]
        runs_then [OF _ runs_then [OF runs_remember runs_server_keys]])
qed

section \<open>Finished\<close>

definition sealed_finished :: "byte list \<Rightarrow> byte list \<Rightarrow> byte list \<Rightarrow> security_parameters \<Rightarrow> byte list" where
  "sealed_finished key iv h sp = cbc_seal (aes_encrypt key) 16 iv
     (handshake_message ht_Finished (take 12 (sha256 (MasterSecret sp @ h))))"

definition finished_records :: "byte list \<Rightarrow> byte list" where
  "finished_records d = tls_record ct_ChangeCipherSpec [0x01] @ tls_record ct_Handshake d"

lemma runs_send_finished:
  assumes "EncryptCipher mb = Some key" "payload \<in> {ClientFinishedPayload, ServerFinishedPayload}"
  shows "runs (send_finished_message payload) (conn_at r sp mb h ib ob pos) ()
    (conn_at r sp mb h ib (ob @ tls_record ct_Handshake (sealed_finished key (drawn r pos 16) h sp)) (pos + 16))"
proof (rule runsI)
  fix c assume c: "conn_at r sp mb h ib ob pos c"
  then obtain c1 where c1: "rand_read 16 c = ((True, drawn r pos 16), c1)" "conn_at r sp mb h ib ob (pos + 16) c1"
    using rand_read_at by blast
  have "encryptContent (payload (msgHistory c) (secParam c)) c =
      (Ret (sealed_finished key (drawn r pos 16) h sp), c1)"
    using c c1(1) assms by (auto simp: encryptContent_def conn_at_def sealed_finished_def
        ClientFinishedPayload_def ServerFinishedPayload_def)
  with runsD [OF runs_write c1(2)] show "\<exists>s'. send_finished_message payload c = (Ret (), s') \<and>
    conn_at r sp mb h ib (ob @ tls_record ct_Handshake (sealed_finished key (drawn r pos 16) h sp)) (pos + 16) s'"
    by (simp add: send_finished_message_def)
qed

lemma runs_decrypt:
  assumes "DecryptCipher mb = Some key" "length key = 16" "length iv = 16"
  shows "runs (decryptContent (cbc_seal (aes_encrypt key) 16 iv xs)) (conn_at r sp mb h ib ob pos) xs
    (conn_at r sp mb h ib ob pos)"
  using aes.open_seal [OF assms(2,3), of xs] assms(1)
  by (intro runsI) (auto simp: decryptContent_def conn_at_def)

lemma length_seal:
  "length key = 16 \<Longrightarrow> length iv = 16 \<Longrightarrow> length (cbc_seal (aes_encrypt key) 16 iv xs) \<le> length xs + 32"
  using aes.seal_length [of key iv xs] pad_block_bound [of 16 xs] by simp

text \<open>Whatever follows the first byte of \<^verbatim>\<open>Finished\<close> is accepted.\<close>

lemma runs_receive_finished:
  assumes "DecryptCipher mb = Some key" "length key = 16" "length iv = 16"
    and "xs \<noteq> []" "xs ! 0 = ht_Finished" "length xs < 65000"
  shows "runs (receive_finished_message e1 e2)
    (conn_at r sp mb h (finished_records (cbc_seal (aes_encrypt key) 16 iv xs) @ ib) ob pos) ()
    (conn_at r sp mb h ib ob pos)"
proof -
  have ccs: "length [0x01 :: byte] < 65536" by simp
  have len: "length (cbc_seal (aes_encrypt key) 16 iv xs) < 65536"
    using length_seal [OF assms(2,3), of xs] assms(6) by simp
  show ?thesis
    unfolding receive_finished_message_def finished_records_def append_assoc
    by (rule runs_bind [OF runs_read [OF ccs]], simp,
        rule runs_bind [OF runs_read [OF len]], simp,
        rule runs_bind [OF runs_decrypt [OF assms(1-3)]], simp add: assms(4,5) runs_ret)
qed

end
