(* ===== verification/TLS_Joint.thy ===== *)
theory TLS_Joint
  imports TLS_Run
begin

text \<open>
  The two controllers against each other, flight by flight: each has written a flight when
  it waits for the next one of its peer, and with the last flight both return. \<open>waits m P Q\<close>
  is the companion of \<open>runs\<close>: \<open>m\<close> stops at the end of what has arrived so far.
\<close>

section \<open>Waiting\<close>

definition waits :: "('s, 'a) op \<Rightarrow> ('s \<Rightarrow> bool) \<Rightarrow> ('s \<Rightarrow> bool) \<Rightarrow> bool" where
  "waits m P Q \<longleftrightarrow> (\<forall>s. P s \<longrightarrow> (\<exists>s'. m s = (Fail ''EOF'', s') \<and> Q s'))"

lemma waitsI: "(\<And>s. P s \<Longrightarrow> \<exists>s'. m s = (Fail ''EOF'', s') \<and> Q s') \<Longrightarrow> waits m P Q"
  by (simp add: waits_def)

lemma waitsD: "waits m P Q \<Longrightarrow> P s \<Longrightarrow> \<exists>s'. m s = (Fail ''EOF'', s') \<and> Q s'"
  by (simp add: waits_def)

lemma waits_bind: "waits m P Q \<Longrightarrow> waits (bind_op m f) P Q"
  by (fastforce simp: waits_def)

lemma waits_then: "waits m P Q \<Longrightarrow> waits (then_op m k) P Q"
  by (fastforce simp: waits_def)

lemma runs_bind_waits: "runs m P x Q \<Longrightarrow> waits (f x) Q R \<Longrightarrow> waits (bind_op m f) P R"
  by (fastforce simp: runs_def waits_def)

lemma runs_then_waits: "runs m P x Q \<Longrightarrow> waits k Q R \<Longrightarrow> waits (then_op m k) P R"
  by (fastforce simp: runs_def waits_def)

lemma waits_read: "waits readTLSContent (conn_at r sp mb h [] ob pos) (conn_at r sp mb h [] ob pos)"
  by (rule waitsI) (auto simp: readTLSContent_def read_full_def bind_op_def conn_at_def no_faults_def)

lemma waits_receive: "waits (receive_handshake t e1 e2) (conn_at r sp mb h [] ob pos) (conn_at r sp mb h [] ob pos)"
  unfolding receive_handshake_def by (rule waits_bind [OF waits_read])

lemma waits_receive_finished:
  "waits (receive_finished_message e1 e2) (conn_at r sp mb h [] ob pos) (conn_at r sp mb h [] ob pos)"
  unfolding receive_finished_message_def by (rule waits_bind [OF waits_read])

lemma waits_receiveServerMessages:
  "waits (receiveServerMessages lib) (conn_at r sp mb h [] ob pos) (conn_at r sp mb h [] ob pos)"
proof (rule waitsI)
  fix c assume "conn_at r sp mb h [] ob pos c"
  from waitsD [OF waits_read this] obtain c'
    where "readTLSContent c = (Fail ''EOF'', c')" "conn_at r sp mb h [] ob pos c'" by blast
  then show "\<exists>s'. receiveServerMessages lib c = (Fail ''EOF'', s') \<and> conn_at r sp mb h [] ob pos s'"
    by (subst receiveServerMessages.simps) simp
qed

section \<open>What is said\<close>

definition hello_message :: "byte list \<Rightarrow> byte list" where
  "hello_message random = handshake_message ht_ClientHello (hello_body random)"

definition answer_flight :: "byte list \<Rightarrow> byte list \<Rightarrow> byte list \<Rightarrow> byte list list" where
  "answer_flight raw encrypted sig =
     [certificate_payload raw, key_exchange_message encrypted, verify_message sig]"

definition agreed :: "byte list \<Rightarrow> byte list \<Rightarrow> byte list \<Rightarrow> certificate \<Rightarrow> security_parameters \<Rightarrow> security_parameters" where
  "agreed crandom srandom pms cert sp =
     with_secret pms (sp\<lparr>ClientRandom := crandom, ServerRandom := srandom, RemoteCertificate := Some cert\<rparr>)"

lemma agreed_simps [simp]:
  "RemoteCertificate (agreed cr sr pms cert sp) = Some cert"
  "ClientRandom (agreed cr sr pms cert sp) = cr" "ServerRandom (agreed cr sr pms cert sp) = sr"
  "MasterSecret (agreed cr sr pms cert sp) = generateMasterSecret cr sr pms"
  by (simp_all add: agreed_def with_secret_def)

lemma agreed_secrets: "shared_secrets (agreed cr sr pms cert sp) (agreed cr sr pms cert' sp')"
  by (simp add: shared_secrets_def)

lemma keys_simps:
  "EncryptCipher (client_keys sp) = Some (ClientWriteKey (generated_keys (key_block sp)))"
  "DecryptCipher (client_keys sp) = Some (ServerWriteKey (generated_keys (key_block sp)))"
  "EncryptCipher (server_keys sp) = Some (ServerWriteKey (generated_keys (key_block sp)))"
  "DecryptCipher (server_keys sp) = Some (ClientWriteKey (generated_keys (key_block sp)))"
  by (simp_all add: client_keys_def server_keys_def Let_def)

lemma shared_key_block: "shared_secrets a b \<Longrightarrow> key_block a = key_block b"
  by (simp add: shared_secrets_def key_block_def)


section \<open>The client\<close>

text \<open>\<open>leads m k P Q\<close>: from a state in \<open>P\<close>, \<open>m\<close> goes on as \<open>k\<close> does from a state in \<open>Q\<close>.\<close>

definition leads :: "('s, 'a) op \<Rightarrow> ('s, 'a) op \<Rightarrow> ('s \<Rightarrow> bool) \<Rightarrow> ('s \<Rightarrow> bool) \<Rightarrow> bool" where
  "leads m k P Q \<longleftrightarrow> (\<forall>s. P s \<longrightarrow> (\<exists>s'. m s = k s' \<and> Q s'))"

lemma leads_refl: "leads k k P P"
  by (auto simp: leads_def)

lemma leads_then: "runs m P x Q \<Longrightarrow> leads k j Q R \<Longrightarrow> leads (then_op m k) j P R"
  by (fastforce simp: runs_def leads_def)

lemma leads_bind: "runs m P x Q \<Longrightarrow> leads (f x) j Q R \<Longrightarrow> leads (bind_op m f) j P R"
  by (fastforce simp: runs_def leads_def)

lemma leads_runs: "leads m k P Q \<Longrightarrow> runs k Q x R \<Longrightarrow> runs m P x R"
  by (fastforce simp: runs_def leads_def)

lemma leads_waits: "leads m k P Q \<Longrightarrow> waits k Q R \<Longrightarrow> waits m P R"
  by (fastforce simp: waits_def leads_def)

text \<open>The client up to the point where it waits for the server's \<^verbatim>\<open>Finished\<close>.\<close>

lemma client_to_finished:
  fixes sp :: security_parameters and cert :: certificate and r :: "nat \<Rightarrow> byte" and pos :: nat
    and srandom :: "byte list"
  defines "cr \<equiv> drawn r pos 32" and "pms \<equiv> protocol_version @ drawn r (pos + 32) 46"
  defines "flight \<equiv> server_flight srandom (Raw cert)" and "raw \<equiv> Raw (Certificate sp)"
  defines "sp' \<equiv> agreed cr srandom pms cert sp"
  assumes random: "length srandom = 32"
    and cert: "length (Raw cert) < 65000" "parse_certificate lib (Raw cert) = Some cert" "PublicKey cert = Some pk"
    and enc: "encrypt_pkcs1 lib (pos + 32 + 46) pk pms = Some encrypted"
    and sig: "sign_pkcs1 lib (CertificatePrivateKey sp) (sha256 (hello_message cr @ concat flight @
        certificate_payload raw @ key_exchange_message encrypted)) = Some sig"
  shows "leads (HandshakeClientController lib) receiveServerFinished
    (conn_at r sp mb [] (handshake_records flight @ ib) [] pos)
    (conn_at r sp' (client_keys sp')
       (hello_message cr @ concat flight @ concat (answer_flight raw encrypted sig)) ib
       (handshake_records (hello_message cr # answer_flight raw encrypted sig) @
        finished_records (sealed_finished (ClientWriteKey (generated_keys (key_block sp'))) (drawn r (pos + 78) 16)
          (hello_message cr @ concat flight @ concat (answer_flight raw encrypted sig)) sp')) (pos + 94))"
proof -
  let ?h = "hello_message cr @ concat flight"
  let ?sp1 = "sp\<lparr>ClientRandom := cr\<rparr>"
  let ?sp2 = "?sp1\<lparr>ServerRandom := srandom, RemoteCertificate := Some cert\<rparr>"
  let ?o = "tls_record ct_Handshake (hello_message cr)"
  have s1: "runs sendClientHello (conn_at r sp mb [] ib' [] pos) () (conn_at r ?sp1 mb (hello_message cr) ib' ?o (pos + 32))" for ib'
    using runs_client_hello [of r sp mb "[]" ib' "[]" pos] by (simp add: cr_def hello_message_def)
  have s2: "runs (receiveServerMessages lib) (conn_at r ?sp1 mb (hello_message cr) (handshake_records flight @ ib) ?o (pos + 32)) ()
      (conn_at r ?sp2 mb ?h ib ?o (pos + 32))"
    using runs_receiveServerMessages [OF random cert(1,2)] by (simp add: flight_def)
  have s3: "runs sendClientCertificate (conn_at r ?sp2 mb ?h ib ?o (pos + 32)) ()
      (conn_at r ?sp2 mb (?h @ certificate_payload raw) ib (?o @ tls_record ct_Handshake (certificate_payload raw)) (pos + 32))"
    using runs_sendClientCertificate [of r ?sp2 mb ?h ib ?o "pos + 32"] by (simp add: raw_def)
  let ?h3 = "?h @ certificate_payload raw" and ?o3 = "?o @ tls_record ct_Handshake (certificate_payload raw)"
  let ?h4 = "?h3 @ key_exchange_message encrypted" and ?o4 = "?o3 @ tls_record ct_Handshake (key_exchange_message encrypted)"
  have s4: "runs (sendClientKeyExchange lib) (conn_at r ?sp2 mb ?h3 ib ?o3 (pos + 32)) pms (conn_at r ?sp2 mb ?h4 ib ?o4 (pos + 32 + 46))"
    using runs_sendClientKeyExchange [of ?sp2 cert pk lib "pos + 32" r encrypted mb ?h3 ib ?o3] cert(3) enc by (simp add: pms_def)
  have s5: "runs (sendCertificateVerify lib) (conn_at r ?sp2 mb ?h4 ib ?o4 (pos + 32 + 46)) ()
      (conn_at r ?sp2 mb (?h4 @ verify_message sig) ib (?o4 @ tls_record ct_Handshake (verify_message sig)) (pos + 32 + 46))"
    using sig by (intro runs_sendCertificateVerify) simp
  let ?h5 = "?h4 @ verify_message sig" and ?o5 = "?o4 @ tls_record ct_Handshake (verify_message sig)"
  have sp': "with_secret pms ?sp2 = sp'" by (simp add: sp'_def agreed_def)
  have s6: "runs (modify_op (\<lambda>c. ClientGenerateKeys (set_master_secret pms c))) (conn_at r ?sp2 mb ?h5 ib ?o5 (pos + 32 + 46)) ()
      (conn_at r sp' (client_keys sp') ?h5 ib ?o5 (pos + 32 + 46))"
    using runs_client_keys [of pms r ?sp2] unfolding sp' .
  have s7: "runs sendFinished (conn_at r sp' (client_keys sp') ?h5 ib ob (pos + 32 + 46)) ()
      (conn_at r sp' (client_keys sp') ?h5 ib (ob @ tls_record ct_Handshake
        (sealed_finished (ClientWriteKey (generated_keys (key_block sp'))) (drawn r (pos + 32 + 46) 16) ?h5 sp')) (pos + 32 + 46 + 16))" for ob
    unfolding sendFinished_def by (rule runs_send_finished) (simp_all add: keys_simps)
  have chain: "leads (HandshakeClientController lib) receiveServerFinished
      (conn_at r sp mb [] (handshake_records flight @ ib) [] pos)
      (conn_at r sp' (client_keys sp') ?h5 ib ((?o5 @ tls_record ct_ChangeCipherSpec ClientChangeCipherSpecPayload) @
        tls_record ct_Handshake (sealed_finished (ClientWriteKey (generated_keys (key_block sp')))
          (drawn r (pos + 32 + 46) 16) ?h5 sp')) (pos + 32 + 46 + 16))"
    unfolding HandshakeClientController_def sendChangeCipherSpec_def
    by (rule leads_then [OF s1], rule leads_then [OF s2], rule leads_then [OF s3], rule leads_bind [OF s4],
        rule leads_then [OF s5], rule leads_then [OF s6], rule leads_then [OF runs_write],
        rule leads_then [OF s7], rule leads_refl)
  have p: "pos + 32 + 46 = pos + 78" "pos + 78 + 16 = pos + 94" by simp_all
  show ?thesis
    using chain unfolding p ClientChangeCipherSpecPayload_def finished_records_def
    by (simp add: answer_flight_def handshake_records_def)
qed


lemma client_waits_first:
  "waits (HandshakeClientController lib) (conn_at r sp mb [] [] [] pos)
    (conn_at r (sp\<lparr>ClientRandom := drawn r pos 32\<rparr>) mb (hello_message (drawn r pos 32)) []
       (tls_record ct_Handshake (hello_message (drawn r pos 32))) (pos + 32))"
proof -
  have "runs sendClientHello (conn_at r sp mb [] [] [] pos) ()
    (conn_at r (sp\<lparr>ClientRandom := drawn r pos 32\<rparr>) mb (hello_message (drawn r pos 32)) []
       (tls_record ct_Handshake (hello_message (drawn r pos 32))) (pos + 32))"
    using runs_client_hello [of r sp mb "[]" "[]" "[]" pos] by (simp add: hello_message_def)
  from runs_then_waits [OF this waits_then [OF waits_receiveServerMessages]]
  show ?thesis unfolding HandshakeClientController_def .
qed

section \<open>The server\<close>

lemma server_hellos:
  assumes "length crandom = 32"
  shows "runs receiveClientHello (conn_at r sp mb [] (tls_record ct_Handshake (hello_message crandom) @ ib) [] pos) ()
      (conn_at r (sp\<lparr>ClientRandom := crandom\<rparr>) mb (hello_message crandom) ib [] pos)"
    and "runs sendServerMessages (conn_at r (sp\<lparr>ClientRandom := crandom\<rparr>) mb (hello_message crandom) ib [] pos) ()
      (conn_at r (sp\<lparr>ClientRandom := crandom, ServerRandom := drawn r pos 32\<rparr>) mb
        (hello_message crandom @ concat (server_flight (drawn r pos 32) (Raw (Certificate sp)))) ib
        (handshake_records (server_flight (drawn r pos 32) (Raw (Certificate sp)))) (pos + 32))"
  using runs_receiveClientHello [OF assms, of r sp mb "[]" ib "[]" pos]
    runs_sendServerMessages [of r "sp\<lparr>ClientRandom := crandom\<rparr>" mb "hello_message crandom" ib "[]" pos]
  by (simp_all add: hello_message_def)

lemma server_waits:
  assumes "length crandom = 32"
  shows "waits (HandshakeServerController lib)
    (conn_at r sp mb [] (tls_record ct_Handshake (hello_message crandom)) [] pos)
    (conn_at r (sp\<lparr>ClientRandom := crandom, ServerRandom := drawn r pos 32\<rparr>) mb
       (hello_message crandom @ concat (server_flight (drawn r pos 32) (Raw (Certificate sp)))) []
       (handshake_records (server_flight (drawn r pos 32) (Raw (Certificate sp)))) (pos + 32))"
  using runs_then_waits [OF server_hellos(1) [OF assms, where ib = "[]"]
      runs_then_waits [OF server_hellos(2) [OF assms] waits_then [OF waits_bind [OF waits_receive]]]]
  unfolding HandshakeServerController_def receiveClientCertificate_def append_Nil2 .

lemma server_returns:
  fixes sp :: security_parameters and cert :: certificate and r :: "nat \<Rightarrow> byte" and pos :: nat
    and crandom pms encrypted sig :: "byte list"
  defines "sr \<equiv> drawn r pos 32" and "sp' \<equiv> agreed crandom (drawn r pos 32) pms cert sp"
  defines "flight \<equiv> server_flight (drawn r pos 32) (Raw (Certificate sp))"
  defines "hist \<equiv> hello_message crandom @ concat flight @ concat (answer_flight (Raw cert) encrypted sig)"
  assumes random: "length crandom = 32" "length iv = 16"
    and cert: "length (Raw cert) < 65000" "parse_certificate lib (Raw cert) = Some cert" "PublicKey cert = Some pk"
    and enc: "length encrypted < 65000" "decrypt_pkcs1 lib (CertificatePrivateKey sp) encrypted = Some pms"
    and sig: "length sig < 65000" "verify_pkcs1 lib pk (sha256 (hello_message crandom @ concat flight @
        certificate_payload (Raw cert) @ key_exchange_message encrypted)) sig"
    and fin: "xs \<noteq> []" "xs ! 0 = ht_Finished" "length xs < 65000"
  shows "runs (HandshakeServerController lib)
    (conn_at r sp mb [] (handshake_records (hello_message crandom # answer_flight (Raw cert) encrypted sig) @
       finished_records (cbc_seal (aes_encrypt (ClientWriteKey (generated_keys (key_block sp')))) 16 iv xs) @ ib) [] pos) ()
    (conn_at r sp' (server_keys sp') hist ib
       (handshake_records flight @
        finished_records (sealed_finished (ServerWriteKey (generated_keys (key_block sp'))) (drawn r (pos + 32) 16) hist sp'))
       (pos + 48))"
proof -
  let ?h = "hello_message crandom @ concat flight"
  let ?sp1 = "sp\<lparr>ClientRandom := crandom, ServerRandom := sr\<rparr>" and ?o = "handshake_records flight"
  let ?sp2 = "?sp1\<lparr>RemoteCertificate := Some cert\<rparr>"
  let ?fin = "finished_records (cbc_seal (aes_encrypt (ClientWriteKey (generated_keys (key_block sp')))) 16 iv xs) @ ib"
  let ?i2 = "tls_record ct_Handshake (verify_message sig) @ ?fin"
  let ?i1 = "tls_record ct_Handshake (key_exchange_message encrypted) @ ?i2"
  let ?i0 = "tls_record ct_Handshake (certificate_payload (Raw cert)) @ ?i1"
  note s1 = server_hellos(1) [OF random(1), of r sp mb ?i0 pos]
  have s2: "runs sendServerMessages (conn_at r (sp\<lparr>ClientRandom := crandom\<rparr>) mb (hello_message crandom) ?i0 [] pos) ()
      (conn_at r ?sp1 mb ?h ?i0 ?o (pos + 32))"
    using server_hellos(2) [OF random(1)] by (simp add: sr_def flight_def)
  note s3 = runs_receiveClientCertificate [OF cert(1,2), of r ?sp1 mb ?h ?i1 ?o "pos + 32"]
  let ?h3 = "?h @ certificate_payload (Raw cert)"
  have s4: "runs (receiveClientKeyExchange lib) (conn_at r ?sp2 mb ?h3 ?i1 ?o (pos + 32)) pms
      (conn_at r ?sp2 mb (?h3 @ key_exchange_message encrypted) ?i2 ?o (pos + 32))"
    using enc by (intro runs_receiveClientKeyExchange) simp_all
  let ?h4 = "?h3 @ key_exchange_message encrypted"
  have sp': "with_secret pms ?sp2 = sp'" by (simp add: sp'_def agreed_def sr_def)
  have s5: "runs (receiveCertificateVerify lib pms) (conn_at r ?sp2 mb ?h4 ?i2 ?o (pos + 32)) ()
      (conn_at r sp' (server_keys sp') (?h4 @ verify_message sig) ?fin ?o (pos + 32))"
    using runs_receiveCertificateVerify [OF sig(1), of ?sp2 cert pk lib ?h4 pms r mb ?fin ?o "pos + 32"] cert(3) sig(2)
    unfolding sp' by simp
  let ?h5 = "?h4 @ verify_message sig"
  have s6: "runs receiveClientChangeCipherSpecAndFinished (conn_at r sp' (server_keys sp') ?h5 ?fin ?o (pos + 32)) ()
      (conn_at r sp' (server_keys sp') ?h5 ib ?o (pos + 32))"
    unfolding receiveClientChangeCipherSpecAndFinished_def
    by (rule runs_receive_finished [OF _ _ random(2) fin]) (simp_all add: keys_simps generated_key_lengths)
  have s7: "runs (send_finished_message ServerFinishedPayload) (conn_at r sp' (server_keys sp') ?h5 ib ob (pos + 32)) ()
      (conn_at r sp' (server_keys sp') ?h5 ib (ob @ tls_record ct_Handshake
        (sealed_finished (ServerWriteKey (generated_keys (key_block sp'))) (drawn r (pos + 32) 16) ?h5 sp')) (pos + 32 + 16))" for ob
    by (rule runs_send_finished) (simp_all add: keys_simps)
  have "runs (HandshakeServerController lib)
      (conn_at r sp mb [] (tls_record ct_Handshake (hello_message crandom) @ ?i0) [] pos) ()
      (conn_at r sp' (server_keys sp') ?h5 ib ((?o @ tls_record ct_ChangeCipherSpec ServerChangeCipherSpecPayload) @
        tls_record ct_Handshake (sealed_finished (ServerWriteKey (generated_keys (key_block sp'))) (drawn r (pos + 32) 16) ?h5 sp')) (pos + 32 + 16))"
    unfolding HandshakeServerController_def sendChangeCipherSpecAndFinished_def
    by (rule runs_then [OF s1], rule runs_then [OF s2], rule runs_then [OF s3], rule runs_bind [OF s4],
        rule runs_then [OF s5], rule runs_then [OF s6], rule runs_then [OF runs_write s7])
  moreover have "pos + 32 + 16 = pos + 48" by simp
  ultimately show ?thesis
    unfolding ServerChangeCipherSpecPayload_def finished_records_def hist_def
    by (simp add: answer_flight_def handshake_records_def)
qed

section \<open>The last message of the client\<close>

text \<open>
  A controller that goes on as \<^verbatim>\<open>receiveServerFinished\<close>, with the keys generated, waits there on an
  empty stream, and returns once the server's \<^verbatim>\<open>Finished\<close> is on it.
\<close>

lemma leads_finished:
  assumes lead: "\<And>ib. leads m receiveServerFinished (P ib) (conn_at r sp (client_keys sp) h ib ob pos)"
  shows "waits m (P []) (conn_at r sp (client_keys sp) h [] ob pos)"
    and "length iv = 16 \<Longrightarrow> xs \<noteq> [] \<Longrightarrow> xs ! 0 = ht_Finished \<Longrightarrow> length xs < 65000 \<Longrightarrow>
      runs m (P (finished_records (cbc_seal (aes_encrypt (ServerWriteKey (generated_keys (key_block sp)))) 16 iv xs) @ ib)) ()
        (conn_at r sp (client_keys sp) h ib ob pos)"
proof -
  show "waits m (P []) (conn_at r sp (client_keys sp) h [] ob pos)"
    by (rule leads_waits [OF lead]) (unfold receiveServerFinished_def, rule waits_receive_finished)
  assume "length iv = 16" "xs \<noteq> []" "xs ! 0 = ht_Finished" "length xs < 65000"
  then show "runs m (P (finished_records (cbc_seal (aes_encrypt (ServerWriteKey (generated_keys (key_block sp)))) 16 iv xs) @ ib)) ()
        (conn_at r sp (client_keys sp) h ib ob pos)"
    by (intro leads_runs [OF lead])
      (unfold receiveServerFinished_def, rule runs_receive_finished, simp_all add: keys_simps generated_key_lengths)
qed

end
