(* ===== verification/TLS_Session.thy ===== *)
theory TLS_Session
  imports TLS_Joint
begin

text \<open>
  A session: \<^verbatim>\<open>Read\<close> and \<^verbatim>\<open>Write\<close> of \<^verbatim>\<open>TLS/tls/tls.go\<close>, and the two programs that use the library,
  \<^verbatim>\<open>TLS/client.go\<close> and \<^verbatim>\<open>TLS/server.go\<close>: a private echo chat. The programs are run against each
  other from their files to the end of the chat.
\<close>

section \<open>Read and Write\<close>

text \<open>
  \<^verbatim>\<open>Read\<close> fills the caller's buffer and says that it is full, however short the message; what
  does not fit is lost. The content type of the record is not looked at.
\<close>

definition tls_Read :: "byte list \<Rightarrow> (tls_connection, byte list \<times> nat) op" where
  "tls_Read buf =
     bind_op readTLSContent (\<lambda>ct.
     bind_op (decryptContent (ct_data ct)) (\<lambda>decrData.
       ret_op (take (length buf) decrData @ drop (length decrData) buf, length buf)))"

definition tls_Write :: "byte list \<Rightarrow> (tls_connection, nat) op" where
  "tls_Write d c = (case encryptContent d c of
       (Ret encrData, c') \<Rightarrow> then_op (writeTLSContent ct_ApplicationData encrData) (ret_op (length d)) c'
     | (Fail _, c') \<Rightarrow> (Fail ''failed to encrypt Finished payload'', c')
     | (Panic, c') \<Rightarrow> (Panic, c'))"

section \<open>The echo server\<close>

definition echo_turn :: "(tls_connection, byte list) op" where
  "echo_turn =
     bind_op (tls_Read (replicate 1024 0)) (\<lambda>(buf, n).
       let message = take n buf in
       then_op (tls_Write message) (ret_op message))"

lemma decryptContent_inbox: "decryptContent d c = (r, c') \<Longrightarrow> c' = c"
  by (auto simp: decryptContent_def split: option.splits)

lemma tls_Write_inbox: "tls_Write d c = (r, c') \<Longrightarrow> inbox c' = inbox c"
  by (auto simp: tls_Write_def encryptContent_def rand_read_def writeTLSContent_def conn_write_def then_op_def
      bind_op_def ret_op_def split: option.splits if_splits prod.splits)

lemma echo_turn_shorter: "echo_turn c = (Ret m, c') \<Longrightarrow> length (inbox c') < length (inbox c)"
  by (auto simp: echo_turn_def tls_Read_def Let_def ret_op_def dest!: bind_op_RetD then_op_RetD decryptContent_inbox
      tls_Write_inbox readTLSContent_shorter)

text \<open>The loop ends with the first error; every turn takes a record off the stream.\<close>

function echo_loop :: "(tls_connection, unit) op" where
  "echo_loop c = (case echo_turn c of
       (Ret _, c') \<Rightarrow> echo_loop c'
     | (Fail _, c') \<Rightarrow> (Ret (), c')
     | (Panic, c') \<Rightarrow> (Panic, c'))"
  by pat_completeness auto
termination
  by (relation "measure (\<lambda>c. length (inbox c))") (auto dest!: echo_turn_shorter [OF sym])

declare echo_loop.simps [simp del]

text \<open>
  \<^verbatim>\<open>handleConnection\<close>. The error of \<^verbatim>\<open>NewTLSConn\<close> is dropped, and the handshake then
  dereferences nil.
\<close>

definition serve :: "pki \<Rightarrow> byte list result \<Rightarrow> byte list result \<Rightarrow> (tls_connection, unit) op" where
  "serve lib certFile keyFile world = (case NewTLSConn lib True certFile keyFile world of
       Ret c \<Rightarrow> (case HandshakeServerController lib c of
           (Ret _, c') \<Rightarrow> echo_loop c'
         | (Fail _, c') \<Rightarrow> (Ret (), c')
         | (Panic, c') \<Rightarrow> (Panic, c'))
     | _ \<Rightarrow> (Panic, world))"

section \<open>The client program\<close>

text \<open>
  One line of the terminal: \<open>line\<close> is what \<^verbatim>\<open>ReadString\<close> returned, with its newline; at the
  end of the input it is empty, and cutting off its last byte panics.
\<close>

definition client_turn :: "byte list \<Rightarrow> (tls_connection, byte list option) op" where
  "client_turn line =
     (if line = [] then panic_op
      else
        (let message = butlast line in
         if message = ascii ''exit'' then ret_op None
         else
           bind_op (tls_Write message) (\<lambda>_.
           bind_op (tls_Read (replicate 1024 0)) (\<lambda>(buf, n).
             ret_op (Some (take n buf))))))"

datatype program_end = Finished | Stopped string | Crash

fun client_chat :: "byte list list \<Rightarrow> byte list list \<Rightarrow> tls_connection \<Rightarrow>
    byte list list \<times> program_end \<times> tls_connection" where
  "client_chat [] responses c = (responses, Crash, c)"
| "client_chat (line # input) responses c = (case client_turn line c of
       (Ret None, c') \<Rightarrow> (responses, Finished, c')
     | (Ret (Some response), c') \<Rightarrow> client_chat input (responses @ [response]) c'
     | (Fail e, c') \<Rightarrow> (responses, Stopped e, c')
     | (Panic, c') \<Rightarrow> (responses, Crash, c'))"

definition client_main :: "pki \<Rightarrow> bool \<Rightarrow> byte list result \<Rightarrow> byte list result \<Rightarrow> byte list list \<Rightarrow> tls_connection \<Rightarrow>
    byte list list \<times> program_end \<times> tls_connection" where
  "client_main lib dialled certFile keyFile input world =
     (if \<not> dialled then ([], Stopped ''dial'', world)
      else (case NewTLSConn lib False certFile keyFile world of
          Ret c \<Rightarrow> (case HandshakeClientController lib c of
              (Ret _, c') \<Rightarrow> client_chat input [] c'
            | (Fail e, c') \<Rightarrow> ([], Stopped e, c')
            | (Panic, c') \<Rightarrow> ([], Crash, c'))
        | _ \<Rightarrow> ([], Crash, world)))"


section \<open>Runs of a session\<close>

definition app_record :: "byte list \<Rightarrow> byte list \<Rightarrow> byte list \<Rightarrow> byte list" where
  "app_record key iv d = tls_record ct_ApplicationData (cbc_seal (aes_encrypt key) 16 iv d)"

lemma runs_tls_Write:
  assumes "EncryptCipher mb = Some key"
  shows "runs (tls_Write d) (conn_at r sp mb h ib ob pos) (length d)
    (conn_at r sp mb h ib (ob @ app_record key (drawn r pos 16) d) (pos + 16))"
proof (rule runsI)
  fix c assume c: "conn_at r sp mb h ib ob pos c"
  then obtain c1 where c1: "rand_read 16 c = ((True, drawn r pos 16), c1)" "conn_at r sp mb h ib ob (pos + 16) c1"
    using rand_read_at by blast
  have "encryptContent d c = (Ret (cbc_seal (aes_encrypt key) 16 (drawn r pos 16) d), c1)"
    using c c1(1) assms by (simp add: encryptContent_def conn_at_def)
  with runsD [OF runs_then [OF runs_write runs_ret] c1(2)]
  show "\<exists>s'. tls_Write d c = (Ret (length d), s') \<and>
      conn_at r sp mb h ib (ob @ app_record key (drawn r pos 16) d) (pos + 16) s'"
    by (simp add: tls_Write_def app_record_def)
qed

lemma runs_tls_Read:
  assumes "DecryptCipher mb = Some key" "length key = 16" "length iv = 16" "length d < 65000"
  shows "runs (tls_Read buf) (conn_at r sp mb h (app_record key iv d @ ib) ob pos)
    (take (length buf) d @ drop (length d) buf, length buf) (conn_at r sp mb h ib ob pos)"
proof -
  have len: "length (cbc_seal (aes_encrypt key) 16 iv d) < 65536"
    using length_seal [OF assms(2,3), of d] assms(4) by simp
  show ?thesis
    unfolding tls_Read_def app_record_def
    by (rule runs_bind [OF runs_read [OF len]], simp, rule runs_bind [OF runs_decrypt [OF assms(1-3)]], rule runs_ret)
qed

lemma waits_tls_Read: "waits (tls_Read buf) (conn_at r sp mb h [] ob pos) (conn_at r sp mb h [] ob pos)"
  unfolding tls_Read_def by (rule waits_bind [OF waits_read])

text \<open>What the other side sees of a message.\<close>

definition padded :: "byte list \<Rightarrow> byte list" where
  "padded m = take 1024 m @ replicate (1024 - length m) 0"

lemma length_padded [simp]: "length (padded m) = 1024"
  by (simp add: padded_def)

lemma padded_padded [simp]: "padded (padded m) = padded m"
  by (simp add: padded_def)

lemma runs_read_message:
  assumes "DecryptCipher mb = Some key" "length key = 16" "length iv = 16" "length d < 65000"
  shows "runs (tls_Read (replicate 1024 0)) (conn_at r sp mb h (app_record key iv d @ ib) ob pos)
    (padded d, 1024) (conn_at r sp mb h ib ob pos)"
  using runs_tls_Read [OF assms, of "replicate 1024 0"] by (simp add: padded_def)

lemma runs_echo_turn:
  assumes "DecryptCipher mb = Some key" "length key = 16" "length iv = 16" "length m < 65000"
    and "EncryptCipher mb = Some key'"
  shows "runs echo_turn (conn_at r sp mb h (app_record key iv m @ ib) ob pos) (padded m)
    (conn_at r sp mb h ib (ob @ app_record key' (drawn r pos 16) (padded m)) (pos + 16))"
  unfolding echo_turn_def
  by (rule runs_bind [OF runs_read_message [OF assms(1-4)]])
    (simp add: Let_def, rule runs_then [OF runs_tls_Write [OF assms(5)] runs_ret])

lemma runs_client_turn:
  assumes "EncryptCipher mb = Some key" "DecryptCipher mb = Some key'" "length key' = 16" "length iv = 16"
    and "m \<noteq> ascii ''exit''" "length d < 65000"
  shows "runs (client_turn (m @ [10])) (conn_at r sp mb h (app_record key' iv d @ ib) ob pos) (Some (padded d))
    (conn_at r sp mb h ib (ob @ app_record key (drawn r pos 16) m) (pos + 16))"
proof -
  have "client_turn (m @ [10]) = bind_op (tls_Write m) (\<lambda>_.
      bind_op (tls_Read (replicate 1024 0)) (\<lambda>(buf, n). ret_op (Some (take n buf))))"
    using assms(5) by (simp add: client_turn_def Let_def)
  then show ?thesis
    using runs_ret [of "Some (padded d)"]
    by (simp, intro runs_bind [OF runs_tls_Write [OF assms(1)]] runs_bind [OF runs_read_message [OF assms(2-4,6)]]) simp
qed

lemma waits_client_turn:
  assumes "EncryptCipher mb = Some key" "m \<noteq> ascii ''exit''"
  shows "waits (client_turn (m @ [10])) (conn_at r sp mb h [] ob pos)
    (conn_at r sp mb h [] (ob @ app_record key (drawn r pos 16) m) (pos + 16))"
proof -
  have "client_turn (m @ [10]) = bind_op (tls_Write m) (\<lambda>_.
      bind_op (tls_Read (replicate 1024 0)) (\<lambda>(buf, n). ret_op (Some (take n buf))))"
    using assms(2) by (simp add: client_turn_def Let_def)
  then show ?thesis by (simp add: runs_bind_waits [OF runs_tls_Write [OF assms(1)] waits_bind [OF waits_tls_Read]])
qed

section \<open>The chat of the two programs\<close>

text \<open>The records of a list of messages, each with its fresh initialisation vector.\<close>

fun app_records :: "byte list \<Rightarrow> (nat \<Rightarrow> byte) \<Rightarrow> nat \<Rightarrow> byte list list \<Rightarrow> byte list" where
  "app_records key r pos [] = []"
| "app_records key r pos (m # ms) = app_record key (drawn r pos 16) m @ app_records key r (pos + 16) ms"

lemma echo_loop_run:
  assumes "DecryptCipher mb = Some key" "length key = 16" "EncryptCipher mb = Some key'"
  shows "\<forall>m\<in>set ms. length m < 65000 \<Longrightarrow> conn_at r sp mb h (app_records key rp p ms) ob pos c \<Longrightarrow>
    \<exists>c'. echo_loop c = (Ret (), c') \<and>
      conn_at r sp mb h [] (ob @ app_records key' r pos (map padded ms)) (pos + 16 * length ms) c'"
proof (induction ms arbitrary: p ob pos c)
  case Nil
  have "waits echo_turn (conn_at r sp mb h [] ob pos) (conn_at r sp mb h [] ob pos)"
    unfolding echo_turn_def by (rule waits_bind [OF waits_tls_Read])
  from waitsD [OF this] Nil obtain c' where "echo_turn c = (Fail ''EOF'', c')" "conn_at r sp mb h [] ob pos c'"
    by fastforce
  then show ?case by (subst echo_loop.simps) simp
next
  case (Cons m ms)
  have "conn_at r sp mb h (app_record key (drawn rp p 16) m @ app_records key rp (p + 16) ms) ob pos c"
    using Cons.prems(2) by simp
  from runsD [OF runs_echo_turn [OF assms(1,2) length_drawn _ assms(3)] this] Cons.prems(1) obtain c1
    where c1: "echo_turn c = (Ret (padded m), c1)"
      "conn_at r sp mb h (app_records key rp (p + 16) ms) (ob @ app_record key' (drawn r pos 16) (padded m)) (pos + 16) c1"
    by auto
  from Cons.IH [OF _ c1(2)] Cons.prems(1) obtain c2
    where "echo_loop c1 = (Ret (), c2)" "conn_at r sp mb h []
      ((ob @ app_record key' (drawn r pos 16) (padded m)) @ app_records key' r (pos + 16) (map padded ms))
      (pos + 16 + 16 * length ms) c2" by auto
  with c1(1) show ?case by (subst echo_loop.simps) (simp add: add_ac)
qed

lemma client_chat_run:
  assumes "EncryptCipher mb = Some key" "DecryptCipher mb = Some key'" "length key' = 16"
  shows "\<forall>m\<in>set ms. m \<noteq> ascii ''exit'' \<and> length m < 65000 \<Longrightarrow>
    conn_at r sp mb h (app_records key' rp p (map padded ms)) ob pos c \<Longrightarrow>
    \<exists>c'. client_chat (map (\<lambda>m. m @ [10]) ms @ [ascii ''exit'' @ [10]]) responses c =
        (responses @ map padded ms, Finished, c') \<and>
      conn_at r sp mb h [] (ob @ app_records key r pos ms) (pos + 16 * length ms) c'"
proof (induction ms arbitrary: p ob pos c responses)
  case Nil
  then show ?case by (simp add: client_turn_def Let_def ret_op_def)
next
  case (Cons m ms)
  have "conn_at r sp mb h (app_record key' (drawn rp p 16) (padded m) @ app_records key' rp (p + 16) (map padded ms)) ob pos c"
    using Cons.prems(2) by simp
  from runsD [OF runs_client_turn [OF assms length_drawn] this] Cons.prems(1) obtain c1
    where c1: "client_turn (m @ [10]) c = (Ret (Some (padded m)), c1)"
      "conn_at r sp mb h (app_records key' rp (p + 16) (map padded ms)) (ob @ app_record key (drawn r pos 16) m) (pos + 16) c1"
    by auto
  from Cons.IH [OF _ c1(2), of "responses @ [padded m]"] Cons.prems(1) obtain c2
    where "client_chat (map (\<lambda>m. m @ [10]) ms @ [ascii ''exit'' @ [10]]) (responses @ [padded m]) c1 =
        (responses @ map padded (m # ms), Finished, c2)"
      "conn_at r sp mb h [] ((ob @ app_record key (drawn r pos 16) m) @ app_records key r (pos + 16) ms)
        (pos + 16 + 16 * length ms) c2"
    by auto
  with c1(1) show ?case by (simp add: add_ac)
qed


section \<open>The joint run\<close>

text \<open>
  What the handshake relies on of RSA and X.509, for the certificate and the key of one end:
  the certificate parses to itself and holds an RSA key, decryption undoes encryption of
  48 bytes, and a signature of a hash verifies. The sizes are those of real keys and
  certificates, far below the 16-bit length fields.
\<close>

definition rsa_end :: "pki \<Rightarrow> certificate \<Rightarrow> rsa_key \<Rightarrow> bool" where
  "rsa_end lib cert key \<longleftrightarrow>
     parse_certificate lib (Raw cert) = Some cert \<and> length (Raw cert) < 65000 \<and>
     (\<exists>pk. PublicKey cert = Some pk \<and>
       (\<forall>i m. length m = 48 \<longrightarrow> (\<exists>e. encrypt_pkcs1 lib i pk m = Some e \<and> length e < 65000 \<and>
          decrypt_pkcs1 lib key e = Some m)) \<and>
       (\<forall>h. length h = 32 \<longrightarrow> (\<exists>sig. sign_pkcs1 lib key h = Some sig \<and> length sig < 65000 \<and>
          verify_pkcs1 lib pk h sig)))"

text \<open>A world in which nothing has happened and nothing fails.\<close>

definition quiet_world :: "tls_connection \<Rightarrow> bool" where
  "quiet_world w \<longleftrightarrow> no_faults w \<and> inbox w = [] \<and> outbox w = []"

lemma NewTLSConn_at:
  assumes "NewTLSConn lib e certFile keyFile w = Ret c" "quiet_world w"
  shows "conn_at (rnd w) (secParam c) no_keys [] ib [] (rnd_pos w) (c\<lparr>inbox := ib\<rparr>)"
  using assms by (auto simp: NewTLSConn_def conn_at_def no_faults_def quiet_world_def split: result.splits)

lemma NewTLSConn_inbox:
  "NewTLSConn lib e certFile keyFile w = Ret c \<Longrightarrow>
    NewTLSConn lib e certFile keyFile (w\<lparr>inbox := ib\<rparr>) = Ret (c\<lparr>inbox := ib\<rparr>)"
  by (auto simp: NewTLSConn_def split: result.splits)

text \<open>The state both ends reach.\<close>

definition ends_agree :: "tls_connection \<Rightarrow> tls_connection \<Rightarrow> bool" where
  "ends_agree c s \<longleftrightarrow> shared_secrets (secParam c) (secParam s) \<and> msgHistory c = msgHistory s \<and>
     RemoteCertificate (secParam c) = Some (Certificate (secParam s)) \<and>
     RemoteCertificate (secParam s) = Some (Certificate (secParam c)) \<and>
     EncryptCipher (matBlock c) \<noteq> None \<and> EncryptCipher (matBlock s) \<noteq> None \<and>
     EncryptCipher (matBlock c) = DecryptCipher (matBlock s) \<and>
     EncryptCipher (matBlock s) = DecryptCipher (matBlock c)"

lemma sealed_finished_seal:
  "sealed_finished key iv h sp = cbc_seal (aes_encrypt key) 16 iv
     (handshake_message ht_Finished (take 12 (sha256 (MasterSecret sp @ h))))"
  by (simp add: sealed_finished_def)

lemma finished_parts:
  "handshake_message ht_Finished (take 12 d) \<noteq> []" "handshake_message ht_Finished (take 12 d) ! 0 = ht_Finished"
  "length (handshake_message ht_Finished (take 12 d)) < 65000"
  by simp_all

text \<open>The four flights of a handshake, and the two ends after it, whatever else is on the wire.\<close>

text \<open>What the signature of the client covers.\<close>

definition signed_part :: "byte list \<Rightarrow> byte list list \<Rightarrow> security_parameters \<Rightarrow> byte list \<Rightarrow> byte list" where
  "signed_part cr msgs sp e = hello_message cr @ concat msgs @ certificate_payload (Raw (Certificate sp)) @
     key_exchange_message e"

text \<open>The flights of one handshake, for a premaster secret that the server can decrypt and a
  signature that it can verify: each controller stops for want of the next flight of the other,
  and with all of them both return.\<close>

lemma flights_fit:
  fixes spc sps :: security_parameters and rc rs :: "nat \<Rightarrow> byte" and p q :: nat and e sig :: "byte list"
  defines "cr \<equiv> drawn rc p 32" and "sr \<equiv> drawn rs q 32" and "pms \<equiv> protocol_version @ drawn rc (p + 32) 46"
  defines "msgs \<equiv> server_flight sr (Raw (Certificate sps))"
    and "replies \<equiv> answer_flight (Raw (Certificate spc)) e sig"
  defines "spc' \<equiv> agreed cr sr pms (Certificate sps) spc" and "sps' \<equiv> agreed cr sr pms (Certificate spc) sps"
    and "h \<equiv> hello_message cr @ concat msgs @ concat replies"
  defines "hello \<equiv> tls_record ct_Handshake (hello_message cr)" and "flight \<equiv> handshake_records msgs"
    and "answer \<equiv> handshake_records replies @
      finished_records (sealed_finished (ClientWriteKey (generated_keys (key_block spc'))) (drawn rc (p + 78) 16) h spc')"
    and "finish \<equiv>
      finished_records (sealed_finished (ServerWriteKey (generated_keys (key_block sps'))) (drawn rs (q + 32) 16) h sps')"
  assumes server: "PublicKey (Certificate sps) = Some pk" "length (Raw (Certificate sps)) < 65000"
      "parse_certificate lib (Raw (Certificate sps)) = Some (Certificate sps)"
    and client: "PublicKey (Certificate spc) = Some pk'" "length (Raw (Certificate spc)) < 65000"
      "parse_certificate lib (Raw (Certificate spc)) = Some (Certificate spc)"
    and e: "encrypt_pkcs1 lib (p + 32 + 46) pk pms = Some e" "length e < 65000"
      "decrypt_pkcs1 lib (CertificatePrivateKey sps) e = Some pms"
    and sig: "sign_pkcs1 lib (CertificatePrivateKey spc) (sha256 (signed_part cr msgs spc e)) = Some sig"
      "length sig < 65000" "verify_pkcs1 lib pk' (sha256 (signed_part cr msgs spc e)) sig"
  shows "waits (HandshakeClientController lib) (conn_at rc spc mb [] [] [] p) (\<lambda>c. outbox c = hello)"
    and "waits (HandshakeServerController lib) (conn_at rs sps mb' [] hello [] q) (\<lambda>s. outbox s = flight)"
    and "waits (HandshakeClientController lib) (conn_at rc spc mb [] flight [] p) (\<lambda>c. outbox c = hello @ answer)"
    and "runs (HandshakeServerController lib) (conn_at rs sps mb' [] (hello @ answer @ ib) [] q) ()
      (conn_at rs sps' (server_keys sps') h ib (flight @ finish) (q + 48))"
    and "runs (HandshakeClientController lib) (conn_at rc spc mb [] (flight @ finish @ ib) [] p) ()
      (conn_at rc spc' (client_keys spc') h ib (hello @ answer) (p + 94))"
    and "shared_secrets spc' sps'"
proof -
  show secrets: "shared_secrets spc' sps'" by (simp add: spc'_def sps'_def agreed_secrets)
  note kb = shared_key_block [OF secrets]
  have len: "length cr = 32" "length sr = 32" by (simp_all add: cr_def sr_def)
  note defs = cr_def sr_def pms_def msgs_def replies_def h_def hello_def flight_def
  have said: "handshake_records (hello_message cr # replies) @ more = hello @ handshake_records replies @ more" for more
    by (simp add: handshake_records_def hello_def)
  have lead: "leads (HandshakeClientController lib) receiveServerFinished (conn_at rc spc mb [] (flight @ ib) [] p)
      (conn_at rc spc' (client_keys spc') h ib (hello @ answer) (p + 94))" for ib
    using client_to_finished [of sr "Certificate sps" lib pk p rc e spc sig mb ib,
      OF len(2) server(2,3,1) e(1) [unfolded pms_def] sig(1) [unfolded signed_part_def cr_def msgs_def]]
    unfolding answer_def said [symmetric] by (simp add: spc'_def defs)
  show "waits (HandshakeClientController lib) (conn_at rc spc mb [] [] [] p) (\<lambda>c. outbox c = hello)"
    using client_waits_first [of lib rc spc mb p] by (fastforce simp: waits_def conn_at_def hello_def cr_def)
  show "waits (HandshakeServerController lib) (conn_at rs sps mb' [] hello [] q) (\<lambda>s. outbox s = flight)"
    using server_waits [OF length_drawn, of lib rs sps mb' rc p q] by (fastforce simp: waits_def conn_at_def defs)
  show "waits (HandshakeClientController lib) (conn_at rc spc mb [] flight [] p) (\<lambda>c. outbox c = hello @ answer)"
    using leads_finished(1) [where P = "\<lambda>ib. conn_at rc spc mb [] (flight @ ib) [] p", OF lead]
    by (fastforce simp: waits_def conn_at_def)
  show "runs (HandshakeServerController lib) (conn_at rs sps mb' [] (hello @ answer @ ib) [] q) ()
      (conn_at rs sps' (server_keys sps') h ib (flight @ finish) (q + 48))"
    using server_returns [of cr "drawn rc (p + 78) 16" "Certificate spc" lib pk' e sps pms sig rs q
        "handshake_message ht_Finished (take 12 (sha256 (MasterSecret spc' @ h)))" mb' ib,
        OF len(1) length_drawn client(2,3,1) e(2,3) sig(2) sig(3) [unfolded signed_part_def msgs_def sr_def] finished_parts]
    unfolding sr_def [symmetric] sps'_def [symmetric] msgs_def [symmetric] replies_def [symmetric] h_def [symmetric]
      sealed_finished_seal [symmetric] answer_def finish_def kb [symmetric] flight_def
    by (simp only: append_assoc said)
  show "runs (HandshakeClientController lib) (conn_at rc spc mb [] (flight @ finish @ ib) [] p) ()
      (conn_at rc spc' (client_keys spc') h ib (hello @ answer) (p + 94))"
    using leads_finished(2) [where P = "\<lambda>ib. conn_at rc spc mb [] (flight @ ib) [] p",
      OF lead length_drawn finished_parts, of rs "q + 32" "sha256 (MasterSecret sps' @ h)" ib]
    unfolding finish_def sealed_finished_seal kb .
qed

lemma handshake_flights:
  assumes "rsa_end lib (Certificate spc) (CertificatePrivateKey spc)"
    and "rsa_end lib (Certificate sps) (CertificatePrivateKey sps)"
  shows "\<exists>hello flight answer finish spc' sps' h.
    waits (HandshakeClientController lib) (conn_at rc spc mb [] [] [] p)
      (\<lambda>c. outbox c = hello) \<and>
    waits (HandshakeServerController lib) (conn_at rs sps mb' [] hello [] q)
      (\<lambda>s. outbox s = flight) \<and>
    waits (HandshakeClientController lib) (conn_at rc spc mb [] flight [] p)
      (\<lambda>c. outbox c = hello @ answer) \<and>
    (\<forall>ib. runs (HandshakeServerController lib) (conn_at rs sps mb' [] (hello @ answer @ ib) [] q) ()
      (conn_at rs sps' (server_keys sps') h ib (flight @ finish) (q + 48))) \<and>
    (\<forall>ib. runs (HandshakeClientController lib) (conn_at rc spc mb [] (flight @ finish @ ib) [] p) ()
      (conn_at rc spc' (client_keys spc') h ib (hello @ answer) (p + 94))) \<and>
    shared_secrets spc' sps' \<and> RemoteCertificate spc' = Some (Certificate sps) \<and>
    RemoteCertificate sps' = Some (Certificate spc) \<and>
    Certificate spc' = Certificate spc \<and> Certificate sps' = Certificate sps"
proof -
  obtain pk where pk: "PublicKey (Certificate sps) = Some pk" "length (Raw (Certificate sps)) < 65000"
      "parse_certificate lib (Raw (Certificate sps)) = Some (Certificate sps)"
      "\<And>i m. length m = 48 \<Longrightarrow> \<exists>e. encrypt_pkcs1 lib i pk m = Some e \<and> length e < 65000 \<and>
        decrypt_pkcs1 lib (CertificatePrivateKey sps) e = Some m"
    using assms(2) by (auto simp: rsa_end_def)
  obtain pk' where pk': "PublicKey (Certificate spc) = Some pk'" "length (Raw (Certificate spc)) < 65000"
      "parse_certificate lib (Raw (Certificate spc)) = Some (Certificate spc)"
      "\<And>h. length h = 32 \<Longrightarrow> \<exists>sig. sign_pkcs1 lib (CertificatePrivateKey spc) h = Some sig \<and> length sig < 65000 \<and>
        verify_pkcs1 lib pk' h sig"
    using assms(1) by (auto simp: rsa_end_def)
  obtain e where e: "encrypt_pkcs1 lib (p + 32 + 46) pk (protocol_version @ drawn rc (p + 32) 46) = Some e" "length e < 65000"
      "decrypt_pkcs1 lib (CertificatePrivateKey sps) e = Some (protocol_version @ drawn rc (p + 32) 46)"
    using pk(4) [of "protocol_version @ drawn rc (p + 32) 46" "p + 32 + 46"] by auto
  let ?signed = "signed_part (drawn rc p 32) (server_flight (drawn rs q 32) (Raw (Certificate sps))) spc e"
  obtain sig where sig: "sign_pkcs1 lib (CertificatePrivateKey spc) (sha256 ?signed) = Some sig" "length sig < 65000"
      "verify_pkcs1 lib pk' (sha256 ?signed) sig"
    using pk'(4) [of "sha256 ?signed"] by (auto simp: length_sha256)
  note fit = flights_fit [OF pk(1-3) pk'(1-3) e sig]
  show ?thesis
    by (intro exI conjI allI, rule fit(1), rule fit(2), rule fit(3), rule fit(4), rule fit(5), rule fit(6))
      (simp_all add: agreed_def with_secret_def)
qed


lemma waits_outbox:
  "waits m P (\<lambda>s. outbox s = x) \<Longrightarrow> P s \<Longrightarrow> \<exists>s'. m s = (Fail ''EOF'', s') \<and> outbox s' = x"
  by (simp add: waits_def)

text \<open>An example of the library functions, of certificates and of the files, for the witnesses.\<close>

definition plain_pki :: pki where
  "plain_pki = \<lparr>pem_decode = Some, parse_certificate = (\<lambda>raw. Some \<lparr>Raw = raw, PublicKey = Some (1, 1)\<rparr>),
     parse_private_key = (\<lambda>_. Some (Some (1, 1))), encrypt_pkcs1 = (\<lambda>_ _ m. Some m), decrypt_pkcs1 = (\<lambda>_ e. Some e),
     sign_pkcs1 = (\<lambda>_ h. Some h), verify_pkcs1 = (\<lambda>_ h sig. h = sig)\<rparr>"

definition example_world :: "byte \<Rightarrow> tls_connection" where
  "example_world b = \<lparr>secParam = \<lparr>ConnectionEnd = ClientCE, Certificate = \<lparr>Raw = [], PublicKey = None\<rparr>,
       CertificatePrivateKey = (0, 0), RemoteCertificate = None, MasterSecret = [], ClientRandom = [], ServerRandom = []\<rparr>,
     matBlock = no_keys, msgHistory = [], inbox = [], outbox = [], rnd = (\<lambda>_. b), rnd_pos = 0,
     rand_fail = (\<lambda>_. False), writes = 0, write_fail = (\<lambda>_. False)\<rparr>"

definition example_end :: "bool \<Rightarrow> tls_connection" where
  "example_end e = (example_world 7)\<lparr>secParam := \<lparr>ConnectionEnd = (if e then ServerCE else ClientCE),
     Certificate = \<lparr>Raw = [1, 2], PublicKey = Some (1, 1)\<rparr>, CertificatePrivateKey = (1, 1), RemoteCertificate = None,
     MasterSecret = [], ClientRandom = [], ServerRandom = []\<rparr>\<rparr>"

lemma example_conn: "NewTLSConn plain_pki e (Ret [1, 2]) (Ret [3]) (example_world 7) = Ret (example_end e)"
  by (simp add: NewTLSConn_def readCertificateFromFile_def readPrivateKeyFromFile_def plain_pki_def
      example_world_def example_end_def)

lemma example_rsa: "rsa_end plain_pki (Certificate (secParam (example_end e))) (CertificatePrivateKey (secParam (example_end e)))"
  by (simp add: rsa_end_def plain_pki_def example_end_def)

lemma example_quiet: "quiet_world (example_world b)"
  by (simp add: quiet_world_def no_faults_def example_world_def)

section \<open>Properties\<close>

text \<open>C3. The handshake of the two controllers, flight by flight. The client writes its hello and waits;
  the server, given the hello, writes its flight and waits; the client, given that, writes its
  certificate, key exchange, signature and \<^verbatim>\<open>Finished\<close> and waits; the server, given all of this,
  answers with its \<^verbatim>\<open>Finished\<close> and returns without an error, and so does the client when it
  gets that. In the end both have read everything, hold the same master secret, randoms and
  message history and each other's certificate, and each encrypts with the key the other
  decrypts with.\<close>

theorem handshake_agrees:
  assumes "NewTLSConn lib False cert_c key_c wc = Ret c" "NewTLSConn lib True cert_s key_s ws = Ret s"
    and "quiet_world wc" "quiet_world ws"
    and "rsa_end lib (Certificate (secParam c)) (CertificatePrivateKey (secParam c))"
    and "rsa_end lib (Certificate (secParam s)) (CertificatePrivateKey (secParam s))"
  shows "\<exists>hello flight answer finish c' s'.
    (\<exists>c1. HandshakeClientController lib c = (Fail ''EOF'', c1) \<and> outbox c1 = hello) \<and>
    (\<exists>s1. HandshakeServerController lib (s\<lparr>inbox := hello\<rparr>) = (Fail ''EOF'', s1) \<and> outbox s1 = flight) \<and>
    (\<exists>c1. HandshakeClientController lib (c\<lparr>inbox := flight\<rparr>) = (Fail ''EOF'', c1) \<and> outbox c1 = hello @ answer) \<and>
    HandshakeServerController lib (s\<lparr>inbox := hello @ answer\<rparr>) = (Ret (), s') \<and> outbox s' = flight @ finish \<and>
    HandshakeClientController lib (c\<lparr>inbox := flight @ finish\<rparr>) = (Ret (), c') \<and> outbox c' = hello @ answer \<and>
    inbox c' = [] \<and> inbox s' = [] \<and> ends_agree c' s'"
proof -
  obtain hello flight answer finish spc' sps' h where f:
    "waits (HandshakeClientController lib) (conn_at (rnd wc) (secParam c) no_keys [] [] [] (rnd_pos wc))
      (\<lambda>c. outbox c = hello)"
    "waits (HandshakeServerController lib) (conn_at (rnd ws) (secParam s) no_keys [] hello [] (rnd_pos ws))
      (\<lambda>s. outbox s = flight)"
    "waits (HandshakeClientController lib) (conn_at (rnd wc) (secParam c) no_keys [] flight [] (rnd_pos wc))
      (\<lambda>c. outbox c = hello @ answer)"
    "\<forall>ib. runs (HandshakeServerController lib) (conn_at (rnd ws) (secParam s) no_keys [] (hello @ answer @ ib) [] (rnd_pos ws)) ()
      (conn_at (rnd ws) sps' (server_keys sps') h ib (flight @ finish) (rnd_pos ws + 48))"
    "\<forall>ib. runs (HandshakeClientController lib) (conn_at (rnd wc) (secParam c) no_keys [] (flight @ finish @ ib) [] (rnd_pos wc)) ()
      (conn_at (rnd wc) spc' (client_keys spc') h ib (hello @ answer) (rnd_pos wc + 94))"
    and ends: "shared_secrets spc' sps'" "RemoteCertificate spc' = Some (Certificate (secParam s))"
    "RemoteCertificate sps' = Some (Certificate (secParam c))"
    "Certificate spc' = Certificate (secParam c)" "Certificate sps' = Certificate (secParam s)"
    using handshake_flights [OF assms(5,6), where rc = "rnd wc" and mb = no_keys and p = "rnd_pos wc"
        and rs = "rnd ws" and mb' = no_keys and q = "rnd_pos ws"]
    by (elim exE conjE) (rule that, assumption+)
  note at_c = NewTLSConn_at [OF assms(1,3)] and at_s = NewTLSConn_at [OF assms(2,4)]
  have c: "c\<lparr>inbox := []\<rparr> = c" using assms(1,3) by (auto simp: NewTLSConn_def quiet_world_def split: result.splits)
  note e1 = waits_outbox [OF f(1) at_c, unfolded c] and e2 = waits_outbox [OF f(2) at_s]
    and e3 = waits_outbox [OF f(3) at_c]
  from runsD [OF f(4) [rule_format, of "[]"], of "s\<lparr>inbox := hello @ answer\<rparr>"] at_s obtain s'
    where s': "HandshakeServerController lib (s\<lparr>inbox := hello @ answer\<rparr>) = (Ret (), s')"
      "conn_at (rnd ws) sps' (server_keys sps') h [] (flight @ finish) (rnd_pos ws + 48) s'" by auto
  from runsD [OF f(5) [rule_format, of "[]"], of "c\<lparr>inbox := flight @ finish\<rparr>"] at_c obtain c'
    where c': "HandshakeClientController lib (c\<lparr>inbox := flight @ finish\<rparr>) = (Ret (), c')"
      "conn_at (rnd wc) spc' (client_keys spc') h [] (hello @ answer) (rnd_pos wc + 94) c'" by auto
  have "ends_agree c' s'" "outbox c' = hello @ answer" "outbox s' = flight @ finish" "inbox c' = []" "inbox s' = []"
    using c'(2) s'(2) ends shared_key_block [OF ends(1)] by (simp_all add: ends_agree_def conn_at_def keys_simps)
  with e1 e2 e3 c'(1) s'(1) show ?thesis by blast
qed

theorem handshake_agrees_witness:
  "\<exists>hello flight answer finish c' s'.
    (\<exists>c1. HandshakeClientController plain_pki (example_end False) = (Fail ''EOF'', c1) \<and> outbox c1 = hello) \<and>
    (\<exists>s1. HandshakeServerController plain_pki ((example_end True)\<lparr>inbox := hello\<rparr>) = (Fail ''EOF'', s1) \<and> outbox s1 = flight) \<and>
    (\<exists>c1. HandshakeClientController plain_pki ((example_end False)\<lparr>inbox := flight\<rparr>) = (Fail ''EOF'', c1) \<and> outbox c1 = hello @ answer) \<and>
    HandshakeServerController plain_pki ((example_end True)\<lparr>inbox := hello @ answer\<rparr>) = (Ret (), s') \<and> outbox s' = flight @ finish \<and>
    HandshakeClientController plain_pki ((example_end False)\<lparr>inbox := flight @ finish\<rparr>) = (Ret (), c') \<and> outbox c' = hello @ answer \<and>
    inbox c' = [] \<and> inbox s' = [] \<and> ends_agree c' s'"
  by (rule handshake_agrees [OF example_conn example_conn example_quiet example_quiet example_rsa example_rsa])


text \<open>C4. The private echo chat, from the files to the word \<^verbatim>\<open>exit\<close>: with what each program writes
  given to the other, the client program shows for every line of its user the server's echo
  and ends normally, and the server's goroutine returns. The echo is the line cut or padded
  with zero bytes to 1024: both programs take \<^verbatim>\<open>Read\<close>'s count, which is the size of the buffer,
  for the length of the message.\<close>

theorem private_echo:
  assumes "NewTLSConn lib False cert_c key_c wc = Ret c" "NewTLSConn lib True cert_s key_s ws = Ret s"
    and "quiet_world wc" "quiet_world ws"
    and "rsa_end lib (Certificate (secParam c)) (CertificatePrivateKey (secParam c))"
    and "rsa_end lib (Certificate (secParam s)) (CertificatePrivateKey (secParam s))"
    and "\<forall>m\<in>set ms. m \<noteq> ascii ''exit'' \<and> length m < 65000"
  shows "\<exists>cs ss c' s'.
    client_main lib True cert_c key_c (map (\<lambda>m. m @ [10]) ms @ [ascii ''exit'' @ [10]]) (wc\<lparr>inbox := ss\<rparr>) =
      (map padded ms, Finished, c') \<and>
    serve lib cert_s key_s (ws\<lparr>inbox := cs\<rparr>) = (Ret (), s') \<and>
    outbox c' = cs \<and> outbox s' = ss \<and> inbox c' = [] \<and> inbox s' = []"
proof -
  let ?p = "rnd_pos wc" and ?q = "rnd_pos ws"
  obtain hello flight answer finish spc' sps' h where f:
    "\<forall>ib. runs (HandshakeServerController lib) (conn_at (rnd ws) (secParam s) no_keys [] (hello @ answer @ ib) [] ?q) ()
      (conn_at (rnd ws) sps' (server_keys sps') h ib (flight @ finish) (?q + 48))"
    "\<forall>ib. runs (HandshakeClientController lib) (conn_at (rnd wc) (secParam c) no_keys [] (flight @ finish @ ib) [] ?p) ()
      (conn_at (rnd wc) spc' (client_keys spc') h ib (hello @ answer) (?p + 94))"
    and secrets: "shared_secrets spc' sps'"
    using handshake_flights [OF assms(5,6), where rc = "rnd wc" and mb = no_keys and p = ?p
        and rs = "rnd ws" and mb' = no_keys and q = ?q]
    by (elim exE conjE) (rule that, assumption+)
  let ?km = "generated_keys (key_block spc')"
  let ?cs = "app_records (ClientWriteKey ?km) (rnd wc) (?p + 94) ms"
  let ?ss = "app_records (ServerWriteKey ?km) (rnd ws) (?q + 48) (map padded ms)"
  note keys = keys_simps shared_key_block [OF secrets] generated_key_lengths
  note at_c = NewTLSConn_at [OF assms(1,3)] and at_s = NewTLSConn_at [OF assms(2,4)]
  from runsD [OF f(2) [rule_format, of ?ss] at_c] obtain c1
    where c1: "HandshakeClientController lib (c\<lparr>inbox := flight @ finish @ ?ss\<rparr>) = (Ret (), c1)"
      "conn_at (rnd wc) spc' (client_keys spc') h ?ss (hello @ answer) (?p + 94) c1" by blast
  from client_chat_run [OF _ _ _ assms(7) c1(2), of "ClientWriteKey ?km" "[]"] obtain c'
    where c': "client_chat (map (\<lambda>m. m @ [10]) ms @ [ascii ''exit'' @ [10]]) [] c1 = (map padded ms, Finished, c')"
      "inbox c' = []" "outbox c' = hello @ answer @ ?cs"
    by (auto simp: keys conn_at_def)
  from runsD [OF f(1) [rule_format, of ?cs] at_s] obtain s1
    where s1: "HandshakeServerController lib (s\<lparr>inbox := hello @ answer @ ?cs\<rparr>) = (Ret (), s1)"
      "conn_at (rnd ws) sps' (server_keys sps') h ?cs (flight @ finish) (?q + 48) s1" by blast
  have "\<forall>m\<in>set ms. length m < 65000" using assms(7) by blast
  from echo_loop_run [OF _ _ _ this s1(2), of "ServerWriteKey ?km"] obtain s'
    where s': "echo_loop s1 = (Ret (), s')" "inbox s' = []" "outbox s' = flight @ finish @ ?ss"
    by (auto simp: keys conn_at_def)
  have "client_main lib True cert_c key_c (map (\<lambda>m. m @ [10]) ms @ [ascii ''exit'' @ [10]]) (wc\<lparr>inbox := outbox s'\<rparr>) =
      (map padded ms, Finished, c')"
    using NewTLSConn_inbox [OF assms(1)] c1(1) c'(1) s'(3) by (simp add: client_main_def)
  moreover have "serve lib cert_s key_s (ws\<lparr>inbox := outbox c'\<rparr>) = (Ret (), s')"
    using NewTLSConn_inbox [OF assms(2)] s1(1) s'(1) c'(3) by (simp add: serve_def)
  ultimately show ?thesis using c'(2) s'(2) by blast
qed

theorem private_echo_witness:
  "\<exists>cs ss c' s'.
    client_main plain_pki True (Ret [1, 2]) (Ret [3]) (map (\<lambda>m. m @ [10]) [[104, 105]] @ [ascii ''exit'' @ [10]])
      ((example_world 7)\<lparr>inbox := ss\<rparr>) = (map padded [[104, 105]], Finished, c') \<and>
    serve plain_pki (Ret [1, 2]) (Ret [3]) ((example_world 7)\<lparr>inbox := cs\<rparr>) = (Ret (), s') \<and>
    outbox c' = cs \<and> outbox s' = ss \<and> inbox c' = [] \<and> inbox s' = []"
  by (rule private_echo [OF example_conn example_conn example_quiet example_quiet example_rsa example_rsa])
    (simp add: ascii_def)

end
