(* ===== verification/TLS_Limits.thy ===== *)
theory TLS_Limits
  imports TLS_Session
begin

text \<open>
  What the TLS library does not promise: long records, unchecked \<^verbatim>\<open>Finished\<close> messages, records
  without authentication, messages that end the process, randomness that is not there. Each
  theorem states the behaviour of the code at such an input. The last section bounds what an
  echo server answers on any stream.
\<close>

text \<open>C20. A record is read back as it was written exactly when its data has less than 65536 bytes. A
  longer one is cut to its length modulo 65536, and the rest stays on the stream, where the
  next read takes it for a header.\<close>

theorem record_roundtrip:
  "\<exists>ct c'. readTLSContent (c\<lparr>inbox := tls_record t d @ rest\<rparr>) = (Ret ct, c') \<and> tlsType ct = t \<and>
    ct_data ct = take (length d mod 65536) d \<and> inbox c' = drop (length d mod 65536) d @ rest \<and>
    (ct_data ct = d \<and> inbox c' = rest \<longleftrightarrow> length d < 65536)"
proof -
  have "take (length d mod 65536) d = d \<and> drop (length d mod 65536) d @ rest = rest \<longleftrightarrow> length d < 65536"
  proof
    assume "take (length d mod 65536) d = d \<and> drop (length d mod 65536) d @ rest = rest"
    then have "length d \<le> length d mod 65536" by (metis length_take min.cobounded2)
    then show "length d < 65536" by (metis le_less_trans mod_less_divisor zero_less_numeral)
  qed simp
  moreover have "inbox (c\<lparr>inbox := tls_record t d @ rest\<rparr>) = tls_record t d @ rest" by simp
  note read_written [OF this]
  ultimately show ?thesis by simp
qed

section \<open>Finished\<close>

lemma open_record:
  assumes "DecryptCipher (matBlock c) = Some key" "length key = 16" "length iv = 16" "length xs < 65000"
    and "inbox c = tls_record t (cbc_seal (aes_encrypt key) 16 iv xs) @ rest"
  shows "\<exists>ct. readTLSContent c = (Ret ct, c\<lparr>inbox := rest\<rparr>) \<and> tlsType ct = t \<and>
    decryptContent (ct_data ct) (c\<lparr>inbox := rest\<rparr>) = (Ret xs, c\<lparr>inbox := rest\<rparr>)"
proof -
  have "length (cbc_seal (aes_encrypt key) 16 iv xs) < 65536"
    using length_seal [OF assms(2,3), of xs] assms(4) by simp
  from read_record [OF assms(5) this] show ?thesis
    using assms(1) aes.open_seal [OF assms(2,3)] by (simp add: decryptContent_def)
qed

lemma receive_any_finished:
  assumes "DecryptCipher (matBlock c) = Some key" "length key = 16" "length iv = 16"
    and "xs \<noteq> []" "hd xs = ht_Finished" "length xs < 65000"
    and "inbox c = finished_records (cbc_seal (aes_encrypt key) 16 iv xs) @ rest"
  shows "receive_finished_message e1 e2 c = (Ret (), c\<lparr>inbox := rest\<rparr>)"
proof -
  let ?r = "tls_record ct_Handshake (cbc_seal (aes_encrypt key) 16 iv xs) @ rest"
  have in_c: "inbox c = tls_record ct_ChangeCipherSpec [1] @ ?r" using assms(7) by (simp add: finished_records_def)
  have ccs: "readTLSContent c = (Ret (record_of ct_ChangeCipherSpec (be_bytes 2 1) [1]), c\<lparr>inbox := ?r\<rparr>)"
    using read_record [OF in_c] by simp
  obtain ct where ct: "readTLSContent (c\<lparr>inbox := ?r\<rparr>) = (Ret ct, c\<lparr>inbox := rest\<rparr>)" "tlsType ct = ct_Handshake"
      "decryptContent (ct_data ct) (c\<lparr>inbox := rest\<rparr>) = (Ret xs, c\<lparr>inbox := rest\<rparr>)"
    using open_record [of "c\<lparr>inbox := ?r\<rparr>" key iv xs ct_Handshake rest] assms(1-3,6) by auto
  have "xs ! 0 = ht_Finished" using assms(4,5) by (simp add: hd_conv_nth)
  then show ?thesis
    using assms(4) by (simp add: receive_finished_message_def ccs ct ret_op_def)
qed

text \<open>C31. Neither end verifies the other's \<^verbatim>\<open>Finished\<close>: any plaintext that starts with its type byte is
  accepted, whatever hash it carries or however long it is, so a changed transcript goes
  unnoticed.\<close>

theorem finished_is_not_verified:
  assumes "DecryptCipher (matBlock c) = Some key" "length key = 16" "length iv = 16"
    and "xs \<noteq> []" "hd xs = ht_Finished" "length xs < 65000"
    and "inbox c = finished_records (cbc_seal (aes_encrypt key) 16 iv xs) @ rest"
  shows "receiveServerFinished c = (Ret (), c\<lparr>inbox := rest\<rparr>) \<and>
    receiveClientChangeCipherSpecAndFinished c = (Ret (), c\<lparr>inbox := rest\<rparr>)"
  unfolding receiveServerFinished_def receiveClientChangeCipherSpecAndFinished_def
  using receive_any_finished [OF assms] by simp_all

text \<open>An end of an established session, for the witnesses.\<close>

definition session_end :: "byte list \<Rightarrow> tls_connection" where
  "session_end ib = (example_end False)\<lparr>inbox := ib,
     matBlock := no_keys\<lparr>EncryptCipher := Some (replicate 16 3), DecryptCipher := Some (replicate 16 3)\<rparr>\<rparr>"

lemma session_end_simps:
  "DecryptCipher (matBlock (session_end ib)) = Some (replicate 16 3)" "inbox (session_end ib) = ib"
  by (simp_all add: session_end_def)

theorem finished_is_not_verified_witness:
  "let ib = finished_records (cbc_seal (aes_encrypt (replicate 16 3)) 16 (replicate 16 1) [0x14, 0xff]) @ [] in
   receiveServerFinished (session_end ib) = (Ret (), (session_end ib)\<lparr>inbox := []\<rparr>) \<and>
   receiveClientChangeCipherSpecAndFinished (session_end ib) = (Ret (), (session_end ib)\<lparr>inbox := []\<rparr>)"
  unfolding Let_def
  by (rule finished_is_not_verified [OF session_end_simps(1)]) (simp_all add: session_end_simps ht_Finished_def)

section \<open>Records\<close>

text \<open>C32. Records carry no authentication code (the MAC keys are generated and never used): whoever
  adds \<open>d\<close> to the initialisation vector of a record adds \<open>d\<close> to the first sixteen bytes of the
  message that \<^verbatim>\<open>Read\<close> returns, without knowing the key and without an error.\<close>

theorem records_are_malleable:
  assumes "DecryptCipher (matBlock c) = Some key" "length key = 16" "length iv = 16" "length d = 16"
    and "16 \<le> length m" "length m \<le> 1024"
    and "sealed = cbc_seal (aes_encrypt key) 16 iv m"
    and "inbox c = tls_record ct_ApplicationData (xor_bytes (take 16 sealed) d @ drop 16 sealed)"
  shows "tls_Read (replicate 1024 0) c =
    (Ret (xor_bytes (take 16 m) d @ drop 16 m @ replicate (1024 - length m) 0, 1024), c\<lparr>inbox := []\<rparr>)"
proof -
  let ?t = "xor_bytes (take 16 sealed) d @ drop 16 sealed"
  have iv: "take 16 sealed = iv" using assms(3,7) by (simp add: cbc_seal_def)
  have "length sealed \<le> 1024 + 32" using length_seal [OF assms(2,3), of m] assms(6,7) by simp
  then have "length ?t < 65536" by simp
  moreover have "inbox c = tls_record ct_ApplicationData ?t @ []" using assms(8) by simp
  ultimately have "readTLSContent c = (Ret (record_of ct_ApplicationData (be_bytes 2 (length ?t)) ?t), c\<lparr>inbox := []\<rparr>)"
    by (intro read_record)
  moreover have "decryptContent ?t (c\<lparr>inbox := []\<rparr>) = (Ret (xor_bytes (take 16 m) d @ drop 16 m), c\<lparr>inbox := []\<rparr>)"
    using assms(1) aes.open_tampered [OF assms(2,3,4,5)] iv assms(7) by (simp add: decryptContent_def)
  moreover have "length (xor_bytes (take 16 m) d @ drop 16 m) = length m" using assms(4,5) by simp
  ultimately show ?thesis
    using assms(6) by (simp add: tls_Read_def ret_op_def)
qed

theorem records_are_malleable_witness:
  "let sealed = cbc_seal (aes_encrypt (replicate 16 3)) 16 (replicate 16 1) (replicate 16 65);
       ib = tls_record ct_ApplicationData (xor_bytes (take 16 sealed) (replicate 16 32) @ drop 16 sealed) in
   tls_Read (replicate 1024 0) (session_end ib) =
     (Ret (xor_bytes (take 16 (replicate 16 65)) (replicate 16 32) @ drop 16 (replicate 16 65) @
        replicate (1024 - length (replicate 16 (65 :: byte))) 0, 1024), (session_end ib)\<lparr>inbox := []\<rparr>)"
  unfolding Let_def
  by (rule records_are_malleable [OF session_end_simps(1), where iv = "replicate 16 1"])
    (simp_all add: session_end_simps)


section \<open>Messages that end the process\<close>

lemma bind_Panic: "fst (m s) = Panic \<Longrightarrow> fst (bind_op m f s) = Panic"
  by (cases "m s") (simp add: bind_op_def)

lemma then_Panic: "fst (m s) = Panic \<Longrightarrow> fst (then_op m k s) = Panic"
  by (simp add: then_op_def bind_Panic)

lemma bind_RetPanic: "m s = (Ret x, s') \<Longrightarrow> fst (f x s') = Panic \<Longrightarrow> fst (bind_op m f s) = Panic"
  by simp

lemma then_RetPanic: "m s = (Ret x, s') \<Longrightarrow> fst (k s') = Panic \<Longrightarrow> fst (then_op m k s) = Panic"
  by simp

lemma short_hello_panics:
  assumes "length d < 38" "d = [] \<or> hd d = ht_ClientHello" "inbox c = tls_record ct_Handshake d @ rest"
  shows "fst (HandshakeServerController lib c) = Panic"
proof -
  have "length d < 65536" using assms(1) by simp
  note rd = read_record [OF assms(3) this]
  have hello: "length (drop 4 d) < 34 \<or> length d < 4" using assms(1) by auto
  have "d \<noteq> [] \<Longrightarrow> d ! 0 = ht_ClientHello" using assms(2) by (simp add: hd_conv_nth)
  then have "fst (receiveClientHello c) = Panic"
    using rd hello
    by (cases "d = []") (auto simp: receiveClientHello_def receive_handshake_def bind_op_def then_op_def remember_def
        onClientHello_def hello_random_def op_defs ct_defs)
  then show ?thesis unfolding HandshakeServerController_def by (rule then_Panic)
qed

lemma no_certificate_panics:
  assumes "no_faults c" "RemoteCertificate (secParam c) = None"
    and "inbox c = tls_record ct_Handshake ServerHelloDonePayload @ rest"
  shows "fst (HandshakeClientController lib c) = Panic"
proof -
  let ?sd = ServerHelloDonePayload
  have at: "conn_at (rnd c) (secParam c) (matBlock c) (msgHistory c) (tls_record ct_Handshake ?sd @ rest) (outbox c) (rnd_pos c) c"
    using assms(1,3) by (simp add: conn_at_def)
  from runsD [OF runs_client_hello at] obtain sp ob pos h c1
    where c1: "sendClientHello c = (Ret (), c1)"
      "conn_at (rnd c) sp (matBlock c) h (tls_record ct_Handshake ?sd @ rest) ob pos c1" "RemoteCertificate sp = None"
    using assms(2) by (elim exE conjE) (rule that, assumption, assumption, simp)
  have "runs (client_message lib (record_of ct_Handshake (be_bytes 2 (length ?sd)) ?sd))
      (conn_at (rnd c) sp (matBlock c) h rest ob pos) True (conn_at (rnd c) sp (matBlock c) (h @ ?sd) rest ob pos)"
    by (rule runs_client_message [where t = ht_ServerHelloDone])
      (simp_all add: ServerHelloDonePayload_def ht_distinct ht_distinct [symmetric])
  moreover have "length ?sd < 65536" by (simp add: ServerHelloDonePayload_def)
  ultimately obtain c2 where c2: "receiveServerMessages lib c1 = (Ret (), c2)"
      "conn_at (rnd c) sp (matBlock c) (h @ ?sd) rest ob pos c2"
    using runsD [OF runs_loop_done c1(2)] by blast
  from runsD [OF runs_sendClientCertificate c2(2)] obtain h' ob' c3 where c3: "sendClientCertificate c2 = (Ret (), c3)"
      "conn_at (rnd c) sp (matBlock c) h' rest ob' pos c3" by blast
  from rand_read_at [OF c3(2), of 46] c1(3) have "fst (ClientHelloKeyExchangePayload lib c3) = Panic"
    by (auto simp: ClientHelloKeyExchangePayload_def conn_at_def Let_def)
  then have "fst (sendClientKeyExchange lib c3) = Panic" unfolding sendClientKeyExchange_def by (rule bind_Panic)
  then show ?thesis
    unfolding HandshakeClientController_def
    by - (rule then_RetPanic, rule c1(1), rule then_RetPanic, rule c2(1), rule then_RetPanic, rule c3(1), erule bind_Panic)
qed

lemma one_block_panics:
  assumes "length d = 16" "DecryptCipher (matBlock c) = Some key" "inbox c = tls_record t d @ rest"
  shows "fst (tls_Read buf c) = Panic"
proof -
  have "length d < 65536" using assms(1) by simp
  from read_record [OF assms(3) this] show ?thesis
    using assms(1,2) by (simp add: tls_Read_def bind_op_def decryptContent_def cbc_open_def chunks.simps)
qed

text \<open>C33. Three records with which a peer ends the process of the other (a panic in Go, which nothing
  here recovers from): an empty handshake record or a hello of fewer than 38 bytes sent to the
  server; \<^verbatim>\<open>ServerHelloDone\<close> without a certificate sent to the client; and, in a session, a
  record of exactly one block.\<close>

theorem hostile_records_panic:
  assumes "no_faults c" "RemoteCertificate (secParam c) = None" "DecryptCipher (matBlock s) = Some key"
    and "length d < 38" "d = [] \<or> hd d = ht_ClientHello" "length b = 16"
  shows "fst (HandshakeServerController lib (c\<lparr>inbox := tls_record ct_Handshake d @ rest\<rparr>)) = Panic \<and>
    fst (HandshakeClientController lib (c\<lparr>inbox := tls_record ct_Handshake ServerHelloDonePayload @ rest\<rparr>)) = Panic \<and>
    fst (tls_Read buf (s\<lparr>inbox := tls_record t b @ rest\<rparr>)) = Panic"
proof (intro conjI)
  show "fst (HandshakeServerController lib (c\<lparr>inbox := tls_record ct_Handshake d @ rest\<rparr>)) = Panic"
    by (rule short_hello_panics [OF assms(4,5)]) simp
  show "fst (HandshakeClientController lib (c\<lparr>inbox := tls_record ct_Handshake ServerHelloDonePayload @ rest\<rparr>)) = Panic"
    using assms(1,2) by (intro no_certificate_panics) (simp_all add: no_faults_def)
  show "fst (tls_Read buf (s\<lparr>inbox := tls_record t b @ rest\<rparr>)) = Panic"
    using assms(3) by (intro one_block_panics [OF assms(6)]) simp_all
qed

theorem hostile_records_panic_witness:
  "fst (HandshakeServerController plain_pki ((example_end False)\<lparr>inbox := tls_record ct_Handshake [] @ []\<rparr>)) = Panic \<and>
    fst (HandshakeClientController plain_pki
      ((example_end False)\<lparr>inbox := tls_record ct_Handshake ServerHelloDonePayload @ []\<rparr>)) = Panic \<and>
    fst (tls_Read [0] ((session_end [])\<lparr>inbox := tls_record ct_ApplicationData (replicate 16 0) @ []\<rparr>)) = Panic"
  by (rule hostile_records_panic [OF _ _ session_end_simps(1)])
    (simp_all add: example_end_def example_world_def no_faults_def)

section \<open>Programs and randomness\<close>

text \<open>Without readable files both programs end in a nil dereference, because they go on with the
  connection that \<^verbatim>\<open>NewTLSConn\<close> did not return; the client program also panics at the end of its
  input, when the user has not typed \<^verbatim>\<open>exit\<close>.\<close>

lemma programs_crash:
  assumes "\<forall>c. NewTLSConn lib True cert key w \<noteq> Ret c"
  shows "fst (serve lib cert key w) = Panic \<and>
    client_main lib True cert key input w = ([], Crash, w) \<and>
    client_chat [] responses c = (responses, Crash, c)"
proof -
  have "NewTLSConn lib e cert key w \<noteq> Ret c" for e c
    using assms by (auto simp: NewTLSConn_def split: result.splits)
  then show ?thesis
    using assms by (auto simp: serve_def client_main_def split: result.splits)
qed

text \<open>The errors of \<^verbatim>\<open>rand.Read\<close> are ignored where they matter most. If the source fails when the hello
  is built, 32 zero bytes are sent and nothing is reported. If it fails for the premaster secret and
  works again for the encryption, the premaster secret is the version followed by 46 zero
  bytes, known to everybody, and again nothing is reported; only if it still fails there is an
  error. The encryption of a record, whose vector is public, reports it at once.\<close>

lemma secrets_without_randomness:
  assumes "rand_fail c (rnd_pos c)" "\<not> write_fail c (writes c)" "RemoteCertificate (secParam c) = Some cert"
    and "PublicKey cert = Some pk" "EncryptCipher (matBlock c) = Some key"
    and "encrypt_pkcs1 lib (Suc (rnd_pos c)) pk ([3, 3] @ replicate 46 0) = Some e"
  shows "(\<exists>c1. sendClientHello c = (Ret (), c1) \<and> ClientRandom (secParam c1) = replicate 32 0 \<and>
      outbox c1 = outbox c @ tls_record ct_Handshake (handshake_message ht_ClientHello (hello_body (replicate 32 0)))) \<and>
    (if rand_fail c (Suc (rnd_pos c)) then fst (sendClientKeyExchange lib c) = Fail ''rand error''
     else fst (sendClientKeyExchange lib c) = Ret ([3, 3] @ replicate 46 0)) \<and>
    fst (encryptContent d c) = Fail ''rand error''"
  using assms
  by (auto simp: sendClientHello_def ClientHelloPayload_def rand_read_def send_handshake_def
      writeTLSContent_def conn_write_def modify_op_def encryptContent_def sendClientKeyExchange_def
      ClientHelloKeyExchangePayload_def protocol_version_def Let_def ret_op_def bind_op_def then_op_def)

section \<open>The end of a session\<close>

text \<open>A record that opens carries at least two blocks, the vector and one of data.\<close>

lemma cbc_open_Ret:
  assumes "cbc_open D 16 d = Ret xs"
  shows "32 \<le> length d"
proof (rule ccontr)
  assume short: "\<not> 32 \<le> length d"
  have "16 \<le> length d" "(length d - 16) mod 16 = 0"
    using assms by (simp_all add: cbc_open_def Let_def split: if_splits)
  with short have "d \<noteq> []" "drop 16 d = []" by auto
  with assms show False by (simp add: cbc_open_def chunks.simps Let_def split: if_splits)
qed

lemma readTLSContent_takes:
  assumes "readTLSContent c = (Ret ct, c')"
  shows "length (inbox c) = 5 + length (ct_data ct) + length (inbox c')" "outbox c' = outbox c" "matBlock c' = matBlock c"
  using assms
  by (auto simp: readTLSContent_def read_full_def ret_op_def bind_op_def Let_def
      split: if_splits prod.splits result.splits)

lemma readTLSContent_keeps:
  "outbox (snd (readTLSContent c)) = outbox c \<and> length (inbox (snd (readTLSContent c))) \<le> length (inbox c)"
  by (auto simp: readTLSContent_def read_full_def ret_op_def bind_op_def Let_def split: if_splits)

lemma tls_Read_takes:
  assumes "tls_Read buf c = (Ret (d, n), c')"
  shows "37 + length (inbox c') \<le> length (inbox c)" "outbox c' = outbox c" "matBlock c' = matBlock c"
    "length d = length buf" "n = length buf"
proof -
  obtain ct c1 where rd: "readTLSContent c = (Ret ct, c1)"
      and "bind_op (decryptContent (ct_data ct))
        (\<lambda>xs. ret_op (take (length buf) xs @ drop (length xs) buf, length buf)) c1 = (Ret (d, n), c')"
    using bind_op_RetD [OF assms [unfolded tls_Read_def]] by blast
  from bind_op_RetD [OF this(2)] obtain xs where dec: "decryptContent (ct_data ct) c1 = (Ret xs, c')"
      and d: "d = take (length buf) xs @ drop (length xs) buf" "n = length buf"
    by (auto simp: ret_op_def)
  have c': "c' = c1" using decryptContent_inbox [OF dec] .
  have "32 \<le> length (ct_data ct)"
    using dec by (auto simp: decryptContent_def intro: cbc_open_Ret split: option.splits)
  then show "37 + length (inbox c') \<le> length (inbox c)" "outbox c' = outbox c" "matBlock c' = matBlock c"
    using readTLSContent_takes [OF rd] c' by simp_all
  show "length d = length buf" "n = length buf" using d by simp_all
qed

lemma tls_Read_keeps:
  "outbox (snd (tls_Read buf c)) = outbox c \<and> length (inbox (snd (tls_Read buf c))) \<le> length (inbox c)"
  using readTLSContent_keeps [of c]
  by (auto simp: tls_Read_def bind_op_def decryptContent_def ret_op_def split: prod.splits result.splits option.splits)

lemma length_app_record:
  assumes "length key = 16" "length iv = 16" "length d = 1024"
  shows "length (app_record key iv d) = 1061"
  using aes.seal_length [OF assms(1,2), of d] assms(3)
  by (simp add: app_record_def tls_record_length pad_block_def Let_def)

lemma tls_Write_costs:
  assumes "EncryptCipher (matBlock c) = Some key" "length key = 16" "length d = 1024" "tls_Write d c = (r, c')"
  shows "inbox c' = inbox c" "matBlock c' = matBlock c"
    "length (outbox c') = length (outbox c) + (case r of Ret _ \<Rightarrow> 1061 | _ \<Rightarrow> 0)"
proof -
  show "inbox c' = inbox c" by (rule tls_Write_inbox [OF assms(4)])
  have "length (tls_record ct_ApplicationData (cbc_seal (aes_encrypt key) 16 (map (rnd c) [rnd_pos c..<rnd_pos c + 16]) d)) = 1061"
    using length_app_record [OF assms(2) _ assms(3)] by (simp add: app_record_def)
  then show "matBlock c' = matBlock c"
    "length (outbox c') = length (outbox c) + (case r of Ret _ \<Rightarrow> 1061 | _ \<Rightarrow> 0)"
    using assms(1,4) by (auto simp: tls_Write_def encryptContent_def rand_read_def writeTLSContent_def conn_write_def
        then_op_def bind_op_def ret_op_def split: if_splits)
qed

lemma echo_turn_costs:
  assumes "EncryptCipher (matBlock c) = Some key" "length key = 16" "echo_turn c = (r, c')"
  shows "case r of
      Ret _ \<Rightarrow> 37 + length (inbox c') \<le> length (inbox c) \<and> length (outbox c') = length (outbox c) + 1061 \<and> matBlock c' = matBlock c
    | _ \<Rightarrow> length (inbox c') \<le> length (inbox c) \<and> outbox c' = outbox c"
proof (cases "tls_Read (replicate 1024 0) c")
  case (Pair q c1)
  show ?thesis
  proof (cases q)
    case (Ret dn)
    obtain d n where dn: "dn = (d, n)" by (cases dn)
    note rd = tls_Read_takes [OF Pair [unfolded Ret dn]]
    obtain w c2 where w: "tls_Write (take n d) c1 = (w, c2)" by (cases "tls_Write (take n d) c1")
    have "EncryptCipher (matBlock c1) = Some key" "length (take n d) = 1024" using rd(3-5) assms(1) by simp_all
    note wr = tls_Write_costs [OF this(1) assms(2) this(2) w]
    have "(r, c') = (case w of Ret _ \<Rightarrow> Ret (take n d) | Fail e \<Rightarrow> Fail e | Panic \<Rightarrow> Panic, c2)"
      using Pair w assms(3) unfolding Ret dn
      by (cases w) (simp_all add: echo_turn_def Let_def ret_op_def)
    moreover have "outbox c2 = outbox c1" if "\<forall>x. w \<noteq> Ret x"
      using w that \<open>EncryptCipher (matBlock c1) = Some key\<close>
      by (auto simp: tls_Write_def encryptContent_def rand_read_def writeTLSContent_def conn_write_def
        then_op_def bind_op_def ret_op_def split: if_splits)
    ultimately show ?thesis using rd wr by (cases w) auto
  qed (use Pair assms(3) tls_Read_keeps [of "replicate 1024 0" c] in \<open>auto simp: echo_turn_def\<close>)
qed

text \<open>C30. The loop of the echo server ends on every stream, whatever the peer sends: with \<open>n\<close> bytes on
  the stream it answers at most \<open>n div 37\<close> records, because a record that opens takes at least
  two blocks and the header, and each answer is 1061 bytes long, because \<^verbatim>\<open>Read\<close> reports the
  whole buffer. It returns or panics, and no error of \<^verbatim>\<open>Read\<close> or \<^verbatim>\<open>Write\<close> leaves it.\<close>

theorem echo_server_ends:
  assumes "EncryptCipher (matBlock c) = Some key" "length key = 16"
  shows "\<exists>k r c'. echo_loop c = (r, c') \<and> (r = Ret () \<or> r = Panic) \<and>
    37 * k + length (inbox c') \<le> length (inbox c) \<and> length (outbox c') = length (outbox c) + 1061 * k"
  using assms(1)
proof (induction c rule: echo_loop.induct)
  case (1 c)
  note cost = echo_turn_costs [OF "1.prems" assms(2)]
  show ?case
  proof (cases "echo_turn c")
    case (Pair r c1)
    show ?thesis
    proof (cases r)
      case (Ret m)
      note turn = cost [OF Pair, unfolded Ret, simplified]
      with "1.prems" have "EncryptCipher (matBlock c1) = Some key" by simp
      from "1.IH" [OF Pair [unfolded Ret, symmetric] _ this] obtain k r' c' where
        k: "echo_loop c1 = (r', c')" "r' = Ret () \<or> r' = Panic" "37 * k + length (inbox c') \<le> length (inbox c1)"
        "length (outbox c') = length (outbox c1) + 1061 * k" by blast
      have "echo_loop c = (r', c')" using k(1) Pair Ret by (subst echo_loop.simps) simp
      with k turn show ?thesis
        by (intro exI [of _ "Suc k"] exI [of _ r'] exI [of _ c']) simp
    next
      case (Fail e)
      with Pair cost [OF Pair] show ?thesis
        by (intro exI [of _ 0] exI [of _ "Ret ()"] exI [of _ c1]) (subst echo_loop.simps, simp)
    next
      case Panic
      with Pair cost [OF Pair] show ?thesis
        by (intro exI [of _ 0] exI [of _ "Panic"] exI [of _ c1]) (subst echo_loop.simps, simp)
    qed
  qed
qed

theorem echo_server_ends_witness:
  "\<exists>r c'. echo_loop (session_end (replicate 36 9)) = (r, c') \<and> (r = Ret () \<or> r = Panic) \<and>
    length (outbox c') = length (outbox (session_end (replicate 36 9)))"
proof -
  have key: "EncryptCipher (matBlock (session_end (replicate 36 9))) = Some (replicate 16 3)"
    by (simp add: session_end_def)
  obtain k r c' where e: "echo_loop (session_end (replicate 36 9)) = (r, c')" "r = Ret () \<or> r = Panic"
      "37 * k + length (inbox c') \<le> length (inbox (session_end (replicate 36 9)))"
      "length (outbox c') = length (outbox (session_end (replicate 36 9))) + 1061 * k"
    using echo_server_ends [OF key] by auto
  moreover have "length (inbox (session_end (replicate 36 9))) = 36" by (simp add: session_end_def)
  ultimately have "k = 0" by linarith
  with e show ?thesis by simp
qed

end
