(* ===== verification/TLS_Auth.thy ===== *)
theory TLS_Auth
  imports TLS_Session
begin

text \<open>
  What the server knows when its handshake has succeeded, whoever is on the other end: the
  inversion of \<^verbatim>\<open>HandshakeServerController\<close>, step by step. Nothing is assumed of the bytes that
  arrive, of the random source or of the library functions.
\<close>

section \<open>What a step leaves alone\<close>

definition core :: "tls_connection \<Rightarrow> security_parameters \<times> byte list" where
  "core c = (secParam c, msgHistory c)"

named_theorems step_inv \<open>what follows from the success of a step\<close>

lemma write_core [step_inv]: "writeTLSContent t d c = (Ret (), c') \<Longrightarrow> core c' = core c"
  by (auto simp: writeTLSContent_def conn_write_def core_def split: if_splits)

lemma read_full_core: "read_full n c = (r, c') \<Longrightarrow> core c' = core c"
  by (auto simp: read_full_def core_def split: if_splits)

lemma read_core [step_inv]: "readTLSContent c = (Ret ct, c') \<Longrightarrow> core c' = core c"
  by (auto simp: readTLSContent_def Let_def ret_op_def dest!: bind_op_RetD read_full_core)

lemma remember_core [step_inv]:
  "remember d c = (Ret (), c') \<Longrightarrow> core c' = (secParam c, msgHistory c @ d)"
  by (auto simp: remember_def modify_op_def core_def)

lemma send_core [step_inv]:
  "send_handshake d c = (Ret (), c') \<Longrightarrow> core c' = (secParam c, msgHistory c @ d)"
  by (auto simp: send_handshake_def modify_op_def core_def dest!: then_op_RetD write_core)

lemma receive_core [step_inv]:
  "receive_handshake t e1 e2 c = (Ret d, c') \<Longrightarrow> core c' = core c \<and> d \<noteq> [] \<and> d ! 0 = t"
  by (auto simp: receive_handshake_def fail_op_def panic_op_def ret_op_def dest!: bind_op_RetD read_core split: if_splits)

lemma rand_core: "rand_read n c = ((ok, bs), c') \<Longrightarrow> core c' = core c"
  by (auto simp: rand_read_def core_def split: if_splits)

lemma encrypt_core: "encryptContent d c = (r, c') \<Longrightarrow> core c' = core c"
  by (auto simp: encryptContent_def dest!: rand_core split: option.splits prod.splits bool.splits)

lemma finished_out_core [step_inv]: "send_finished_message payload c = (Ret (), c') \<Longrightarrow> core c' = core c"
  by (auto simp: send_finished_message_def dest!: encrypt_core write_core split: prod.splits result.splits)

lemma decrypt_core: "decryptContent d c = (r, c') \<Longrightarrow> core c' = core c"
  by (auto simp: decryptContent_def split: option.splits)

lemma finished_in_core [step_inv]: "receive_finished_message e1 e2 c = (Ret (), c') \<Longrightarrow> core c' = core c"
  by (auto simp: receive_finished_message_def fail_op_def panic_op_def ret_op_def
      dest!: bind_op_RetD read_core decrypt_core split: if_splits)

section \<open>What has arrived\<close>

text \<open>The messages of handshake records at the front of the bytes received, and what follows them.\<close>

fun handshakes_in :: "byte list list \<Rightarrow> byte list \<Rightarrow> byte list \<Rightarrow> bool" where
  "handshakes_in [] bs rest \<longleftrightarrow> rest = bs"
| "handshakes_in (d # ds) bs rest \<longleftrightarrow> take 1 bs = [ct_Handshake] \<and> be_nat (take 2 (drop 3 bs)) = length d \<and>
     take (length d) (drop 5 bs) = d \<and> handshakes_in ds (drop (5 + length d) bs) rest"

lemma handshakes_in_append:
  "handshakes_in ds bs mid \<Longrightarrow> handshakes_in es mid rest \<Longrightarrow> handshakes_in (ds @ es) bs rest"
  by (induction ds bs mid rule: handshakes_in.induct) simp_all

text \<open>The random source of a connection.\<close>

definition source :: "tls_connection \<Rightarrow> (nat \<Rightarrow> byte) \<times> nat \<times> (nat \<Rightarrow> bool)" where
  "source c = (rnd c, rnd_pos c, rand_fail c)"

lemma rand_read_source: "source c = source c' \<Longrightarrow> fst (rand_read n c) = fst (rand_read n c')"
  by (auto simp: source_def rand_read_def)

lemma read_arrived:
  "readTLSContent c = (Ret ct, c') \<Longrightarrow> tlsType ct = ct_Handshake \<Longrightarrow>
    handshakes_in [ct_data ct] (inbox c) (inbox c') \<and> source c' = source c"
  by (cases "inbox c")
    (auto simp: readTLSContent_def read_full_def ret_op_def bind_op_def Let_def source_def drop_take drop_Cons' add.commute
      split: if_splits)

lemma receive_arrived:
  "receive_handshake t e1 e2 c = (Ret d, c') \<Longrightarrow> handshakes_in [d] (inbox c) (inbox c') \<and> source c' = source c"
  by (auto simp: receive_handshake_def fail_op_def panic_op_def ret_op_def simp del: handshakes_in.simps
      dest!: bind_op_RetD read_arrived split: if_splits)

lemma send_inbox: "send_handshake d c = (Ret (), c') \<Longrightarrow> inbox c' = inbox c"
  by (auto simp: send_handshake_def modify_op_def writeTLSContent_def conn_write_def dest!: then_op_RetD split: if_splits)

lemma remember_frame: "remember d c = (Ret (), c') \<Longrightarrow> inbox c' = inbox c \<and> source c' = source c"
  by (auto simp: remember_def modify_op_def source_def)

lemma rand_inbox: "rand_read n c = (r, c') \<Longrightarrow> inbox c' = inbox c"
  by (auto simp: rand_read_def split: if_splits)

section \<open>The steps of the server\<close>

lemma client_hello_inv:
  assumes "receiveClientHello s = (Ret (), s')"
  shows "\<exists>d r. d ! 0 = ht_ClientHello \<and> hello_random d = Ret r \<and>
    core s' = ((secParam s)\<lparr>ClientRandom := r\<rparr>, msgHistory s @ d) \<and>
    handshakes_in [d] (inbox s) (inbox s') \<and> source s' = source s"
proof -
  obtain d s1 s2 where st: "receive_handshake ht_ClientHello ''expected Handshake content type for ClientHello''
        ''expected ClientHello handshake type'' s = (Ret d, s1)"
      "remember d s1 = (Ret (), s2)" "onClientHello d s2 = (Ret (), s')"
    using assms unfolding receiveClientHello_def by (auto dest!: bind_op_RetD then_op_RetD)
  obtain r where r: "hello_random d = Ret r" "s' = s2\<lparr>secParam := (secParam s2)\<lparr>ClientRandom := r\<rparr>\<rparr>"
    using st(3) by (auto simp: onClientHello_def split: result.splits)
  then have "inbox s' = inbox s2" "source s' = source s2" by (simp_all add: source_def)
  with receive_core [OF st(1)] receive_arrived [OF st(1)] remember_core [OF st(2)] remember_frame [OF st(2)] r
  show ?thesis by (intro exI [of _ d] exI [of _ r]) (auto simp: core_def simp del: handshakes_in.simps)
qed

text \<open>The server's random: 32 bytes of its source, or zeros when that fails.\<close>

lemma server_hello_inv:
  assumes "sendServerHello s = (Ret (), s')" "r = snd (fst (rand_read 32 s))"
  shows "core s' = ((secParam s)\<lparr>ServerRandom := r\<rparr>, msgHistory s @ handshake_message ht_ServerHello (hello_body r)) \<and>
    inbox s' = inbox s"
proof -
  have "rand_read 32 s = ((fst (fst (rand_read 32 s)), r), snd (rand_read 32 s))" unfolding assms(2) by simp
  then obtain ok c1 where c1: "rand_read 32 s = ((ok, r), c1)" by blast
  with assms(1) have "send_handshake (handshake_message ht_ServerHello (hello_body r))
      (c1\<lparr>secParam := (secParam c1)\<lparr>ServerRandom := r\<rparr>\<rparr>) = (Ret (), s')"
    by (simp add: sendServerHello_def ServerHelloPayload_def)
  from send_core [OF this] send_inbox [OF this] rand_core [OF c1] rand_inbox [OF c1] show ?thesis
    by (simp add: core_def)
qed

lemma server_messages_inv:
  assumes "sendServerMessages s = (Ret (), s')" "r = snd (fst (rand_read 32 s))"
  shows "core s' = ((secParam s)\<lparr>ServerRandom := r\<rparr>,
      msgHistory s @ concat (server_flight r (Raw (Certificate (secParam s))))) \<and> inbox s' = inbox s"
proof -
  obtain s1 s2 s3 where st: "sendServerHello s = (Ret (), s1)" "sendServerCertificate s1 = (Ret (), s2)"
      "sendCertificateRequest s2 = (Ret (), s3)" "sendServerHelloDone s3 = (Ret (), s')"
    using assms(1) unfolding sendServerMessages_def by (auto dest!: then_op_RetD)
  note sends = st(2-4) [unfolded sendServerCertificate_def sendCertificateRequest_def sendServerHelloDone_def]
  from server_hello_inv [OF st(1) assms(2)] sends [THEN send_core] sends [THEN send_inbox] show ?thesis
    by (simp add: core_def server_flight_def ServerHelloCertificatePayload_def)
qed

lemma client_certificate_inv:
  assumes "receiveClientCertificate lib s = (Ret (), s')"
  shows "\<exists>d cert. readCertificateFromBuffer lib d = Ret cert \<and>
    core s' = ((secParam s)\<lparr>RemoteCertificate := Some cert\<rparr>, msgHistory s @ d) \<and> handshakes_in [d] (inbox s) (inbox s')"
proof -
  obtain d s1 s2 where st: "receive_handshake ht_Certificate ''expected Handshake content type for Client Certificate''
        ''expected Certificate handshake type'' s = (Ret d, s1)"
      "remember d s1 = (Ret (), s2)" "onClientCertificate lib d s2 = (Ret (), s')"
    using assms unfolding receiveClientCertificate_def by (auto dest!: bind_op_RetD then_op_RetD)
  then obtain cert where "readCertificateFromBuffer lib d = Ret cert"
      "s' = s2\<lparr>secParam := (secParam s2)\<lparr>RemoteCertificate := Some cert\<rparr>\<rparr>"
    by (auto simp: onClientCertificate_def onCertificate_def split: result.splits)
  with receive_core [OF st(1)] receive_arrived [OF st(1)] remember_core [OF st(2)] remember_frame [OF st(2)]
  show ?thesis by (intro exI [of _ d] exI [of _ cert]) (auto simp: core_def simp del: handshakes_in.simps)
qed

lemma key_exchange_inv:
  assumes "receiveClientKeyExchange lib s = (Ret pms, s')"
  shows "\<exists>d. onClientKeyExchange lib d (secParam s) = Ret pms \<and> core s' = (secParam s, msgHistory s @ d) \<and>
    handshakes_in [d] (inbox s) (inbox s')"
proof -
  obtain d s1 s2 where st: "receive_handshake ht_ClientKeyExchange ''expected Handshake content type for ClientKeyExchange''
        ''expected ClientKeyExchange handshake type'' s = (Ret d, s1)"
      "remember d s1 = (Ret (), s2)" "(onClientKeyExchange lib d (secParam s2), s2) = (Ret pms, s')"
    using assms unfolding receiveClientKeyExchange_def by (auto dest!: bind_op_RetD then_op_RetD)
  with receive_core [OF st(1)] receive_arrived [OF st(1)] remember_core [OF st(2)] remember_frame [OF st(2)]
  show ?thesis by (intro exI [of _ d]) (auto simp: core_def simp del: handshakes_in.simps)
qed

text \<open>The signature that a \<^verbatim>\<open>CertificateVerify\<close> message carries, and what it shows of its sender.\<close>

definition signature_in :: "byte list \<Rightarrow> byte list" where
  "signature_in d = take (be_nat (take 2 (drop 4 d))) (drop 6 d)"

definition proven :: "pki \<Rightarrow> byte list \<Rightarrow> certificate \<Rightarrow> byte list \<Rightarrow> bool" where
  "proven lib seen cert vmsg \<longleftrightarrow>
     (case PublicKey cert of Some key \<Rightarrow> verify_pkcs1 lib key (sha256 seen) (signature_in vmsg) | None \<Rightarrow> False)"

lemma onCertificateVerify_inv:
  assumes "onCertificateVerify lib d c = Ret ()"
  shows "\<exists>cert. RemoteCertificate (secParam c) = Some cert \<and> proven lib (msgHistory c) cert d"
  using assms
  by (cases "RemoteCertificate (secParam c)")
    (auto simp: onCertificateVerify_def proven_def signature_in_def Let_def split: if_splits option.splits)

lemma certificate_verify_inv:
  assumes "receiveCertificateVerify lib pms s = (Ret (), s')"
  shows "\<exists>d cert. RemoteCertificate (secParam s) = Some cert \<and> proven lib (msgHistory s) cert d \<and>
    core s' = (with_secret pms (secParam s), msgHistory s @ d) \<and> handshakes_in [d] (inbox s) (inbox s')"
proof -
  obtain d s1 where st: "receive_handshake ht_CertificateVerify ''expected Handshake content type for CertificateVerify''
        ''expected CertificateVerify handshake type'' s = (Ret d, s1)"
      "onCertificateVerify lib d s1 = Ret ()"
    and s': "core s' = (with_secret pms (secParam s1), msgHistory s1 @ d)" "inbox s' = inbox s1"
    using assms
    by (auto simp: receiveCertificateVerify_def modify_op_def core_def with_secret_def set_master_secret_def
        ServerGenerateKeys_def remember_def Let_def dest!: bind_op_RetD then_op_RetD)
  from st(2) obtain cert where "RemoteCertificate (secParam s1) = Some cert" "proven lib (msgHistory s1) cert d"
    using onCertificateVerify_inv by blast
  with receive_core [OF st(1)] receive_arrived [OF st(1)] s' show ?thesis
    by (intro exI [of _ d] exI [of _ cert]) (auto simp: core_def simp del: handshakes_in.simps)
qed

lemma key_exchange_private_key:
  "CertificatePrivateKey sp = CertificatePrivateKey sp' \<Longrightarrow> onClientKeyExchange lib d sp = onClientKeyExchange lib d sp'"
  by (simp add: onClientKeyExchange_def)

lemma finished_steps_core:
  "receiveClientChangeCipherSpecAndFinished c = (Ret (), c') \<Longrightarrow> core c' = core c"
  "sendChangeCipherSpecAndFinished c = (Ret (), c') \<Longrightarrow> core c' = core c"
  by (auto simp: receiveClientChangeCipherSpecAndFinished_def sendChangeCipherSpecAndFinished_def
      dest!: then_op_RetD step_inv)

lemma server_inv:
  assumes "HandshakeServerController lib s = (Ret (), s')" "sr = snd (fst (rand_read 32 s))"
  shows "\<exists>hello cmsg kmsg vmsg rest cr cert pms seen.
    handshakes_in [hello, cmsg, kmsg, vmsg] (inbox s) rest \<and>
    hello_random hello = Ret cr \<and> readCertificateFromBuffer lib cmsg = Ret cert \<and>
    onClientKeyExchange lib kmsg (secParam s) = Ret pms \<and>
    seen = msgHistory s @ hello @ concat (server_flight sr (Raw (Certificate (secParam s)))) @ cmsg @ kmsg \<and>
    proven lib seen cert vmsg \<and> core s' = (agreed cr sr pms cert (secParam s), seen @ vmsg)"
proof -
  obtain s1 s2 s3 s4 s5 s6 pms where steps: "receiveClientHello s = (Ret (), s1)" "sendServerMessages s1 = (Ret (), s2)"
      "receiveClientCertificate lib s2 = (Ret (), s3)" "receiveClientKeyExchange lib s3 = (Ret pms, s4)"
      "receiveCertificateVerify lib pms s4 = (Ret (), s5)" "receiveClientChangeCipherSpecAndFinished s5 = (Ret (), s6)"
      "sendChangeCipherSpecAndFinished s6 = (Ret (), s')"
    using assms(1) by (auto simp: HandshakeServerController_def dest!: bind_op_RetD then_op_RetD)
  obtain hello cr where h: "hello_random hello = Ret cr" "secParam s1 = (secParam s)\<lparr>ClientRandom := cr\<rparr>"
      "msgHistory s1 = msgHistory s @ hello" "handshakes_in [hello] (inbox s) (inbox s1)" "source s1 = source s"
    using client_hello_inv [OF steps(1)] by (auto simp: core_def simp del: handshakes_in.simps)
  have f: "secParam s2 = (secParam s1)\<lparr>ServerRandom := sr\<rparr>" "inbox s2 = inbox s1"
      "msgHistory s2 = msgHistory s1 @ concat (server_flight sr (Raw (Certificate (secParam s1))))"
    using server_messages_inv [OF steps(2), of sr] rand_read_source [OF h(5)] assms(2) by (simp_all add: core_def)
  obtain cmsg cert where c: "readCertificateFromBuffer lib cmsg = Ret cert" "handshakes_in [cmsg] (inbox s2) (inbox s3)"
      "secParam s3 = (secParam s2)\<lparr>RemoteCertificate := Some cert\<rparr>" "msgHistory s3 = msgHistory s2 @ cmsg"
    using client_certificate_inv [OF steps(3)] by (auto simp: core_def simp del: handshakes_in.simps)
  obtain kmsg where k: "onClientKeyExchange lib kmsg (secParam s3) = Ret pms" "secParam s4 = secParam s3"
      "msgHistory s4 = msgHistory s3 @ kmsg" "handshakes_in [kmsg] (inbox s3) (inbox s4)"
    using key_exchange_inv [OF steps(4)] by (auto simp: core_def simp del: handshakes_in.simps)
  obtain vmsg cert' where v: "RemoteCertificate (secParam s4) = Some cert'" "proven lib (msgHistory s4) cert' vmsg"
      "core s5 = (with_secret pms (secParam s4), msgHistory s4 @ vmsg)" "handshakes_in [vmsg] (inbox s4) (inbox s5)"
    using certificate_verify_inv [OF steps(5)] by blast
  have "handshakes_in ([hello] @ [cmsg] @ [kmsg] @ [vmsg]) (inbox s) (inbox s5)"
    using h(4) f(2) c(2) k(4) v(4) by (metis handshakes_in_append)
  moreover have "core s' = core s5" using finished_steps_core(1) [OF steps(6)] finished_steps_core(2) [OF steps(7)] by simp
  moreover have "onClientKeyExchange lib kmsg (secParam s) = Ret pms"
    using k(1) key_exchange_private_key [of "secParam s3" "secParam s"] c(3) f(1) h(2) by simp
  moreover have "msgHistory s4 = msgHistory s @ hello @ concat (server_flight sr (Raw (Certificate (secParam s)))) @ cmsg @ kmsg"
    using h(2,3) f(3) c(4) k(3) by simp
  moreover have "secParam s4 = (secParam s)\<lparr>ClientRandom := cr, ServerRandom := sr, RemoteCertificate := Some cert\<rparr>"
    using h(2) f(1) c(3) k(2) by simp
  then have "cert' = cert" "core s5 = (agreed cr sr pms cert (secParam s), msgHistory s4 @ vmsg)"
    using v(1,3) by (simp_all add: agreed_def)
  ultimately show ?thesis using h(1) c(1) v(2) by (metis append_Cons append_Nil)
qed

section \<open>Properties\<close>

text \<open>C8. What the server has checked of a client it accepts. Whatever arrives, a server whose handshake
  succeeds has received four handshake messages, and the signature in the last one verifies
  under the key of the certificate in the second, over all messages before it: among
  them its own hello with the 32 bytes it has just drawn from its random source (or zeros, if
  that failed), which the signature therefore has to be about. Its master secret comes from these,
  the client's random and the premaster secret that it decrypts from the third message with its
  own key. Whose certificate it is, it has not asked.\<close>

theorem server_authenticates_client:
  assumes "HandshakeServerController lib s = (Ret (), s')" "msgHistory s = []"
    and "sr = (if rand_fail s (rnd_pos s) then replicate 32 0 else drawn (rnd s) (rnd_pos s) 32)"
  shows "\<exists>hello cmsg kmsg vmsg rest cr cert key pms seen.
    handshakes_in [hello, cmsg, kmsg, vmsg] (inbox s) rest \<and>
    hello_random hello = Ret cr \<and> readCertificateFromBuffer lib cmsg = Ret cert \<and>
    onClientKeyExchange lib kmsg (secParam s) = Ret pms \<and>
    seen = hello @ concat (server_flight sr (Raw (Certificate (secParam s)))) @ cmsg @ kmsg \<and>
    PublicKey cert = Some key \<and> verify_pkcs1 lib key (sha256 seen) (signature_in vmsg) \<and> msgHistory s' = seen @ vmsg \<and>
    RemoteCertificate (secParam s') = Some cert \<and> MasterSecret (secParam s') = generateMasterSecret cr sr pms"
proof -
  have "sr = snd (fst (rand_read 32 s))" using assms(3) by (simp add: rand_read_def drawn_def)
  from server_inv [OF assms(1) this] obtain hello cmsg kmsg vmsg rest cr cert pms seen where inv:
    "handshakes_in [hello, cmsg, kmsg, vmsg] (inbox s) rest" "hello_random hello = Ret cr"
    "readCertificateFromBuffer lib cmsg = Ret cert" "onClientKeyExchange lib kmsg (secParam s) = Ret pms"
    "seen = hello @ concat (server_flight sr (Raw (Certificate (secParam s)))) @ cmsg @ kmsg"
    "proven lib seen cert vmsg" "core s' = (agreed cr sr pms cert (secParam s), seen @ vmsg)"
    unfolding assms(2) append_Nil by blast
  then have "msgHistory s' = seen @ vmsg" "RemoteCertificate (secParam s') = Some cert"
      "MasterSecret (secParam s') = generateMasterSecret cr sr pms"
    by (simp_all add: core_def)
  moreover obtain key where "PublicKey cert = Some key" "verify_pkcs1 lib key (sha256 seen) (signature_in vmsg)"
    using inv(6) by (auto simp: proven_def split: option.splits)
  ultimately show ?thesis using inv(1-5) by blast
qed


lemma example_server_returns:
  "\<exists>ib s'. HandshakeServerController plain_pki ((example_end True)\<lparr>inbox := ib\<rparr>) = (Ret (), s')"
proof -
  obtain hello answer flight finish sps' h where f:
    "\<forall>ib. runs (HandshakeServerController plain_pki)
      (conn_at (\<lambda>_. 7) (secParam (example_end True)) no_keys [] (hello @ answer @ ib) [] 0) ()
      (conn_at (\<lambda>_. 7) sps' (server_keys sps') h ib (flight @ finish) (0 + 48))"
    using handshake_flights [OF example_rsa [of False] example_rsa [of True], where rc = "\<lambda>_. 7" and mb = no_keys
        and p = 0 and rs = "\<lambda>_. 7" and mb' = no_keys and q = 0]
    by (elim exE conjE) (rule that, assumption)
  have "conn_at (\<lambda>_. 7) (secParam (example_end True)) no_keys [] (hello @ answer @ []) [] 0
      ((example_end True)\<lparr>inbox := hello @ answer @ []\<rparr>)"
    using NewTLSConn_at [OF example_conn [of True] example_quiet] by (simp add: example_world_def)
  from runsD [OF f [rule_format] this] show ?thesis by blast
qed

theorem server_authenticates_client_witness:
  "\<exists>ib s' hello cmsg kmsg vmsg rest cert key seen.
    HandshakeServerController plain_pki ((example_end True)\<lparr>inbox := ib\<rparr>) = (Ret (), s') \<and>
    handshakes_in [hello, cmsg, kmsg, vmsg] ib rest \<and> readCertificateFromBuffer plain_pki cmsg = Ret cert \<and>
    seen = hello @ concat (server_flight (replicate 32 7) (Raw (Certificate (secParam (example_end True))))) @ cmsg @ kmsg \<and>
    PublicKey cert = Some key \<and> verify_pkcs1 plain_pki key (sha256 seen) (signature_in vmsg)"
proof -
  obtain ib s' where r: "HandshakeServerController plain_pki ((example_end True)\<lparr>inbox := ib\<rparr>) = (Ret (), s')"
    using example_server_returns by blast
  let ?s = "(example_end True)\<lparr>inbox := ib\<rparr>"
  have h: "msgHistory ?s = []" by (simp add: example_end_def example_world_def)
  have "drawn (\<lambda>_. 7) 0 32 = replicate 32 7" by (simp add: drawn_def map_replicate_const)
  then have "replicate 32 7 = (if rand_fail ?s (rnd_pos ?s) then replicate 32 0 else drawn (rnd ?s) (rnd_pos ?s) 32)"
    by (simp add: example_end_def example_world_def)
  from r server_authenticates_client [OF r h this] show ?thesis by (simp del: handshakes_in.simps) blast
qed

end
