(* ===== verification/Spec2Isabelle.thy ===== *)
theory Spec2Isabelle
  imports System Chat_Schedule Central_Server Room_Removals TLS_Limits TLS_Auth
begin

text \<open>
  A model of \<^bold>\<open>distributed-matchmaking\<close>, a chat system in Go: a central server registers clients
  and chat servers, matches two clients and chooses the chat server that suits both, chat
  servers run the rooms, clients measure delays and chat. Beside it stands a TLS library of
  its own with two echo programs.

  \<^bold>\<open>The parts and how they interact.\<close>

  \<^item> \<^verbatim>\<open>Central\<close> keeps two stores behind an HTTP API. The client store
    (\<^verbatim>\<open>internal/client/store.go\<close>, theory \<open>Client_Store\<close>) maps addresses to usernames,
    usernames to delay lists, and holds the chat rooms as a slice that its methods change in
    place; \<open>Client_API\<close> is \<^verbatim>\<open>internal/client/api.go\<close>. The service store and its API
    (\<^verbatim>\<open>internal/service\<close>, theory \<open>Service_Registry\<close>) record when each chat server was last heard
    of; the heartbeat job of the chat server (\<^verbatim>\<open>Server/jobs/heartbeat.go\<close>) is in the same
    theory, running against the registry.
  \<^item> \<^verbatim>\<open>Central/internal/matchmaking/matchmaking.go\<close> is in three theories: \<open>Optimal_Server\<close> is
    \<^verbatim>\<open>compute_optimal_server\<close>, \<open>Matchmaking\<close> the TCP session of a client that asks for a match
    (\<^verbatim>\<open>handleConnection\<close>, \<^verbatim>\<open>requestMatch\<close>, \<^verbatim>\<open>generateRoomId\<close>), \<open>Background\<close> the job that moves rooms to
    better servers (\<^verbatim>\<open>backgroundAnalysis\<close>). \<open>Lock_Discipline\<close> shows which calls on the stores
    can race under their mutexes; \<open>Room_Races\<close> takes \<^verbatim>\<open>InsertChatInstance\<close> apart into its steps and
    \<open>Room_Removals\<close> \<^verbatim>\<open>RemoveChatInstancesForUser\<close>, because both run under a read lock only.
  \<^item> \<open>Central_Server\<close> is the process of \<^verbatim>\<open>Central/cmd/central/main.go\<close>: requests, connections, any number
    of sessions and the background job interleave over the two stores. \<open>Session_Steps\<close> and
    \<open>Tick_Steps\<close> cut the session and the tick where another goroutine can come in between, one
    access to the store per move, and show that the moves put together are the handler and
    the tick again.
  \<^item> \<^verbatim>\<open>Server/internal/chat/chat.go\<close> is \<open>Chat_Server\<close>: the handlers of all connections as one
    automaton over accept, read and error events.
  \<^item> \<^verbatim>\<open>Client/client/client.go\<close> and \<^verbatim>\<open>Client/service\<close> are \<open>Client_Core\<close>: registration, the ping job,
    matchmaking, accepting a request, the chat loop with its redirects; \<open>Chat_Schedule\<close> is the order in which
    that loop, blocked in its reads, takes the redirects. The dialogues of
    \<^verbatim>\<open>Client/runner/client_runner.go\<close> that consume its channels, and its pages with what their
    items do, are \<open>Client_Runner\<close>.
  \<^item> \<open>System\<close> puts the programs together: what one writes is what the next one reads. It also holds
    the \<^verbatim>\<open>main\<close> of the chat server.
  \<^item> \<^verbatim>\<open>TLS/tls\<close>: \<open>Hash\<close> and \<open>Block_Cipher\<close> write out SHA-256, HMAC and AES-128 of the standard library
    and model \<^verbatim>\<open>prf\<close>, the padding and CBC; \<open>TLS_Record\<close> is \<^verbatim>\<open>models.go\<close> and
    \<^verbatim>\<open>internal-tls-api.go\<close>; \<open>TLS_Messages\<close> the payloads (\<^verbatim>\<open>client-handlers.go\<close>,
    \<^verbatim>\<open>server-handlers.go\<close>), the parsers, the certificate files (\<^verbatim>\<open>crypto-utils.go\<close>) and the keys;
    \<open>TLS_Handshake\<close> both controllers (\<^verbatim>\<open>tls-client-fsm.go\<close>, \<^verbatim>\<open>tls-server-fsm.go\<close>).
    \<open>TLS_Run\<close> and \<open>TLS_Joint\<close> prove what each step does in a run without faults, \<open>TLS_Session\<close>
    holds \<^verbatim>\<open>Read\<close> and \<^verbatim>\<open>Write\<close> (\<^verbatim>\<open>tls.go\<close>), the two programs (\<^verbatim>\<open>client.go\<close>, \<^verbatim>\<open>server.go\<close>) and
    their joint run, \<open>TLS_Auth\<close> what a server knows of a client it has accepted, \<open>TLS_Limits\<close>
    what the library does not promise, and how much an echo server answers before it ends.
  \<^item> \<open>Go_Base\<close>, \<open>Go_Strings\<close>, \<open>Go_Slice\<close> and \<open>Go_Float\<close> are the prelude: results and operations,
    the string functions of Go on byte strings, slices over an explicit store of arrays,
    and \<^verbatim>\<open>float32\<close> with its rounding. \<open>Interfaces\<close> states what the components promise each
    other as locales; each is interpreted in the theory of its provider.

  \<^bold>\<open>How the code is read.\<close> A function that returns \<^verbatim>\<open>(T, error)\<close> returns a \<open>result\<close>: a value, an
  error, or a run-time panic, which is a value too, so that index and nil errors are branches
  of the model. A method with a pointer receiver takes and returns the state of its receiver.
  What comes from outside (reads, dials, HTTP answers, clocks, random bytes, the order in
  which a map is visited) is an argument. Other goroutines are a store transformer that runs
  before each access to the shared store (\<open>interf\<close> of \<open>Matchmaking\<close> and \<open>Background\<close>), and an
  explicit schedule of events in \<open>Central_Server\<close>, \<open>Room_Races\<close> and \<open>Chat_Server\<close>.

  \<^bold>\<open>What is shown.\<close>

  \<^item> Stores: lookups after registrations, the in-place removals as removals from a list,
    invariants of every reachable store, also when steps of insertions are interleaved; the
    outcomes of the handlers; when a chat server stays listed.
  \<^item> Choice of the server: it minimises the larger latency and then the sum, and every best
    server can be drawn.
  \<^item> The central process, in every interleaving up to the first race of two store calls:
    well-formedness and the ways it can end, every room announced to its two users, each session
    a run of the handler; and, of the calls under their mutexes, exactly which can race.
  \<^item> Sessions and background job: the protocol that the requester sees whatever the
    environment does, both clients routed to one room, a tick that no whole call in between makes
    panic and that moves a room with its users.
  \<^item> Chat: one stream per room for all its members, membership, the lines of the client's view
    as the lines of that stream, redirects into the same room; together, one conversation.
  \<^item> TLS: encryption and \<^verbatim>\<open>prf\<close> against their references, records and messages round trip, both
    controllers complete flight by flight and agree on their secrets, a server accepts only
    who signed its fresh random, the echo programs run from their files to the end, and the echo
    loop ends on every stream.
  \<^item> Faults of the code, stated as what it does: declined matches that open a room and trap the
    requester, removals that panic, skip or take too much, lost rooms and a panic among overlapping calls, a deletion that keeps
    alive, startup errors taken for success, \<^verbatim>\<open>Finished\<close> not verified, records without
    authentication, records that end the process, ignored failures of the random source.

  \<^bold>\<open>Bounds and loops.\<close> Recursion is structural or has a measure. The receiving loops of the TLS
  ends (\<^verbatim>\<open>receiveServerMessages\<close>, the echo loop) end because each record takes at least five bytes
  off the finite stream; reading past it is the end of the stream, which stands for waiting
  as well. The polling loop of a session gets the number of empty polls as an argument and is
  still \<open>Waiting\<close> when no answer comes; the dialogue that polls forever is \<open>Spinning\<close>. Times are in
  nanoseconds (\<open>int\<close>); latencies are finite \<^verbatim>\<open>float32\<close> values, as \<^verbatim>\<open>pingServer\<close> produces them;
  lengths in records and messages are cut to 16 bits as in the code. The joint TLS theorems ask for
  certificates, signatures and messages below 65000 bytes, so that no length wraps around.

  \<^bold>\<open>Hypotheses on what is not under the source.\<close> RSA, X.509 and PEM are a record of functions
  (\<open>pki\<close>); \<open>rsa_end\<close> names what the handshake relies on: a certificate parses to itself, decryption
  undoes encryption, signatures verify.

  \<^bold>\<open>Not modelled.\<close> The gin router and JSON binding (a request is the handler that the routes name for
  it), the layout that tview computes for the pages, the clocks behind the tickers, the \<^verbatim>\<open>main\<close>
  of the client beyond the runner's startup, log output, the Mininet script. A data race ends
  the run of \<open>Central_Server\<close>; what follows one is modelled for insertions into the room list and the
  removal of a user's room, at the granularity of loads and stores of the slice header. The spare capacity of byte
  buffers, into which \<^verbatim>\<open>append\<close> may write, is not observable in the model.
\<close>

end
